(* ===== verification/Prelude.thy ===== *)
theory Prelude
  imports Main "HOL-Library.Word" "HOL-Library.Multiset" "HOL-Library.Char_ord"
    "HOL-Library.List_Lexorder"
begin

text \<open>
  Shared vocabulary of the development: the Go types the components have in common (peer
  identifiers, CIDs, times, durations), the pieces of Go's standard library that the sources
  call (\<open>strings\<close>, \<open>sort\<close>, two's complement conversions, maps as association
  lists), and the generic lemmas on lists, options and association lists the component
  theories use.

  Conventions.
  \<^item> A Go \<open>string\<close>, \<open>peer.ID\<close>, \<open>cid.Cid\<close> (a struct around a string of bytes) and
    \<open>[]byte\<close> is a \<^typ>\<open>string\<close>, that is, a list of bytes.
  \<^item> A \<open>time.Time\<close> is the number of nanoseconds since the Unix epoch, an \<^typ>\<open>int\<close>;
    the zero \<open>time.Time\<close> is \<open>zero_time\<close>, the first instant of year 1.
  \<^item> A Go map is an association list with distinct keys. The order of the list stands for the
    order in which a \<open>range\<close> loop visits the map, which Go leaves open; a theorem about
    every such list covers every order.
  \<^item> A fallible call returns a sum: \<^term>\<open>Inl\<close> carries the error, \<^term>\<open>Inr\<close> the value.
  \<^item> A Go \<open>int\<close> is an \<^typ>\<open>int\<close>; where the code converts or adds at a fixed width and the
    width matters, the wrap-around is written out (\<open>wrap_int64\<close> and its relatives).
\<close>

unbundle bit_operations_syntax

section \<open>Types\<close>

type_synonym peer_id = string
type_synonym cid = string
type_synonym bytes = string
type_synonym multiaddr = string
type_synonym gotime = int
type_synonym duration = int
type_synonym ('k, 'v) gomap = "('k \<times> 'v) list"

named_theorems status_defs \<open>values of the tracker status constants\<close>
named_theorems const_defs \<open>values of the other enumerated constants\<close>

section \<open>Time\<close>

definition second :: duration where
  "second = 1000000000"

definition minute :: duration where
  "minute = 60 * second"

definition hour :: duration where
  "hour = 60 * minute"

definition zero_time :: gotime where
  "zero_time = - 62135596800 * second"

definition unixZero :: gotime where
  "unixZero = 0"

definition time_IsZero :: "gotime \<Rightarrow> bool" where
  "time_IsZero t \<longleftrightarrow> t = zero_time"

text \<open>\<open>Time.Unix()\<close>: whole seconds since the epoch, rounded towards minus infinity.\<close>

definition time_Unix :: "gotime \<Rightarrow> int" where
  "time_Unix t = t div second"

definition time_of_Unix :: "int \<Rightarrow> gotime" where
  "time_of_Unix s = s * second"

text \<open>\<open>Time.Sub\<close> saturates at the range of a \<open>Duration\<close>, an \<open>int64\<close>.\<close>

definition time_Sub :: "gotime \<Rightarrow> gotime \<Rightarrow> duration" where
  "time_Sub t u = max (- (2 ^ 63)) (min (2 ^ 63 - 1) (t - u))"

lemma time_Unix_of_Unix [simp]: "time_Unix (time_of_Unix s) = s"
  by (simp add: time_Unix_def time_of_Unix_def second_def)

section \<open>Fixed-width integers\<close>

text \<open>Two's complement wrap-around of an integer to \<open>w\<close> bits.\<close>

definition wrap_signed :: "nat \<Rightarrow> int \<Rightarrow> int" where
  "wrap_signed w x = (x + 2 ^ (w - 1)) mod 2 ^ w - 2 ^ (w - 1)"

abbreviation wrap_int64 :: "int \<Rightarrow> int" where
  "wrap_int64 \<equiv> wrap_signed 64"

abbreviation wrap_int32 :: "int \<Rightarrow> int" where
  "wrap_int32 \<equiv> wrap_signed 32"

abbreviation wrap_int16 :: "int \<Rightarrow> int" where
  "wrap_int16 \<equiv> wrap_signed 16"

definition wrap_unsigned :: "nat \<Rightarrow> int \<Rightarrow> int" where
  "wrap_unsigned w x = x mod 2 ^ w"

abbreviation wrap_uint64 :: "int \<Rightarrow> int" where
  "wrap_uint64 \<equiv> wrap_unsigned 64"

abbreviation wrap_uint8 :: "int \<Rightarrow> int" where
  "wrap_uint8 \<equiv> wrap_unsigned 8"

definition fits_signed :: "nat \<Rightarrow> int \<Rightarrow> bool" where
  "fits_signed w x \<longleftrightarrow> - (2 ^ (w - 1)) \<le> x \<and> x < 2 ^ (w - 1)"

lemma power_split_half: "0 < w \<Longrightarrow> (2::int) ^ w = 2 * 2 ^ (w - 1)"
  by (metis Suc_diff_1 power_Suc)

lemma wrap_signed_id [simp]:
  assumes "0 < w" "fits_signed w x"
  shows "wrap_signed w x = x"
proof -
  have "0 \<le> x + 2 ^ (w - 1)" "x + 2 ^ (w - 1) < 2 ^ w"
    using assms power_split_half [of w] by (auto simp: fits_signed_def)
  then have "(x + 2 ^ (w - 1)) mod 2 ^ w = x + 2 ^ (w - 1)" by simp
  then show ?thesis by (simp add: wrap_signed_def)
qed

lemma wrap_signed_fits:
  assumes "0 < w"
  shows "fits_signed w (wrap_signed w x)"
  using assms power_split_half [of w]
    pos_mod_bound [of "2 ^ w" "x + 2 ^ (w - 1)"] pos_mod_sign [of "2 ^ w" "x + 2 ^ (w - 1)"]
  by (simp add: fits_signed_def wrap_signed_def)

lemma wrap_signed_unsigned [simp]: "wrap_signed w (wrap_unsigned w x) = wrap_signed w x"
  by (simp add: wrap_signed_def wrap_unsigned_def mod_add_left_eq)

lemma wrap_unsigned_bounds: "0 \<le> wrap_unsigned w x \<and> wrap_unsigned w x < 2 ^ w"
  by (simp add: wrap_unsigned_def)

section \<open>Strings\<close>

text \<open>\<open>strings.Contains\<close>, \<open>strings.HasPrefix\<close>, \<open>strings.TrimPrefix\<close>, \<open>strings.Join\<close> and
  \<open>strings.Split\<close> with a one-character separator, and \<open>strings.Replace(s, c, "", -1)\<close>.\<close>

fun HasPrefix :: "string \<Rightarrow> string \<Rightarrow> bool" where
  "HasPrefix s [] = True"
| "HasPrefix [] (p # ps) = False"
| "HasPrefix (s # ss) (p # ps) = (s = p \<and> HasPrefix ss ps)"

fun str_contains :: "string \<Rightarrow> string \<Rightarrow> bool" where
  "str_contains [] sub = (sub = [])"
| "str_contains (c # s) sub = (HasPrefix (c # s) sub \<or> str_contains s sub)"

fun str_join :: "char \<Rightarrow> string list \<Rightarrow> string" where
  "str_join c [] = []"
| "str_join c [s] = s"
| "str_join c (s # t # ss) = s @ c # str_join c (t # ss)"

fun str_split :: "char \<Rightarrow> string \<Rightarrow> string list" where
  "str_split c [] = [[]]"
| "str_split c (x # xs) =
     (if x = c then [] # str_split c xs
      else (case str_split c xs of [] \<Rightarrow> [[x]] | y # ys \<Rightarrow> (x # y) # ys))"

definition str_remove :: "char \<Rightarrow> string \<Rightarrow> string" where
  "str_remove c s = filter (\<lambda>x. x \<noteq> c) s"

lemma str_split_not_Nil [simp]: "str_split c s \<noteq> []"
  by (induction s) (auto split: list.splits)

lemma str_split_no_sep: "c \<notin> set s \<Longrightarrow> str_split c s = [s]"
  by (induction s) auto

lemma str_split_append_sep:
  "c \<notin> set s \<Longrightarrow> str_split c (s @ c # t) = s # str_split c t"
  by (induction s) auto

lemma str_split_join:
  "ss \<noteq> [] \<Longrightarrow> (\<And>s. s \<in> set ss \<Longrightarrow> c \<notin> set s) \<Longrightarrow> str_split c (str_join c ss) = ss"
  by (induction c ss rule: str_join.induct) (auto simp: str_split_no_sep str_split_append_sep)

lemma set_str_join: "set (str_join c ss) \<subseteq> insert c (\<Union> (set ` set ss))"
  by (induction c ss rule: str_join.induct) auto

lemma str_remove_id: "c \<notin> set s \<Longrightarrow> str_remove c s = s"
  by (auto simp: str_remove_def filter_id_conv)

lemma str_join_inj:
  assumes "str_join c ss = str_join c ts" "length ss = length ts"
    and "\<And>s. s \<in> set ss \<Longrightarrow> c \<notin> set s" "\<And>s. s \<in> set ts \<Longrightarrow> c \<notin> set s"
  shows "ss = ts"
proof (cases "ss = []")
  case True
  with assms(2) show ?thesis by simp
next
  case False
  with assms(2) have "ts \<noteq> []" by auto
  with False assms show ?thesis by (metis str_split_join)
qed

text \<open>The decimal digits \<open>fmt\<close> prints for \<open>%d\<close>.\<close>

fun nat_digits :: "nat \<Rightarrow> string" where
  "nat_digits n = (if n < 10 then [char_of (48 + n)] else nat_digits (n div 10) @ [char_of (48 + n mod 10)])"

declare nat_digits.simps [simp del]

definition int_str :: "int \<Rightarrow> string" where
  "int_str n = (if n < 0 then CHR ''-'' # nat_digits (nat (- n)) else nat_digits (nat n))"

lemma nat_digits_nonempty [simp]: "nat_digits n \<noteq> []"
  by (subst nat_digits.simps) simp

lemma digit_inj: "a < 10 \<Longrightarrow> b < 10 \<Longrightarrow> (char_of (48 + a :: nat) :: char) = char_of (48 + b) \<longleftrightarrow> a = b"
  by (simp add: char_of_eq_iff take_bit_eq_mod)

lemma nat_digits_inj [simp]: "nat_digits m = nat_digits n \<longleftrightarrow> m = n"
proof (induction m arbitrary: n rule: nat_digits.induct)
  case (1 m)
  have small: "length (nat_digits k) = 1 \<longleftrightarrow> k < 10" for k
    by (subst nat_digits.simps) simp
  show ?case
  proof (cases "m < 10 \<or> n < 10")
    case True
    then show ?thesis
      using small [of m] small [of n] digit_inj [of m n]
      by (cases "m < 10"; cases "n < 10") (auto simp: nat_digits.simps [of m] nat_digits.simps [of n] Cons_eq_append_conv append_eq_Cons_conv)
  next
    case False
    then have "nat_digits m = nat_digits n \<longleftrightarrow> m div 10 = n div 10 \<and> m mod 10 = n mod 10"
      using 1 [of "n div 10"] digit_inj [of "m mod 10" "n mod 10"]
      by (simp add: nat_digits.simps [of m] nat_digits.simps [of n])
    then show ?thesis by (metis div_mult_mod_eq)
  qed
qed

section \<open>Association lists as Go maps\<close>

definition map_keys :: "('k, 'v) gomap \<Rightarrow> 'k list" where
  "map_keys m = map fst m"

definition map_has :: "('k, 'v) gomap \<Rightarrow> 'k \<Rightarrow> bool" where
  "map_has m k \<longleftrightarrow> k \<in> set (map fst m)"

text \<open>\<open>m[k]\<close> of a Go map yields the zero value for a missing key.\<close>

definition map_get :: "'v \<Rightarrow> ('k, 'v) gomap \<Rightarrow> 'k \<Rightarrow> 'v" where
  "map_get z m k = (case map_of m k of None \<Rightarrow> z | Some v \<Rightarrow> v)"

fun map_put :: "'k \<Rightarrow> 'v \<Rightarrow> ('k, 'v) gomap \<Rightarrow> ('k, 'v) gomap" where
  "map_put k v [] = [(k, v)]"
| "map_put k v ((k', v') # m) = (if k' = k then (k, v) # m else (k', v') # map_put k v m)"

definition map_delete :: "'k \<Rightarrow> ('k, 'v) gomap \<Rightarrow> ('k, 'v) gomap" where
  "map_delete k m = filter (\<lambda>(k', v). k' \<noteq> k) m"

definition wf_map :: "('k, 'v) gomap \<Rightarrow> bool" where
  "wf_map m \<longleftrightarrow> distinct (map fst m)"

lemma wf_map_Nil [simp]: "wf_map []"
  by (simp add: wf_map_def)

lemma wf_map_Cons: "wf_map ((k, v) # m) \<longleftrightarrow> k \<notin> fst ` set m \<and> wf_map m"
  by (simp add: wf_map_def)

lemma map_of_put [simp]: "map_of (map_put k v m) = (map_of m)(k \<mapsto> v)"
  by (induction k v m rule: map_put.induct) (auto simp: fun_eq_iff)

lemma keys_map_put [simp]: "fst ` set (map_put k v m) = insert k (fst ` set m)"
  by (induction k v m rule: map_put.induct) auto

lemma wf_map_put [simp]: "wf_map m \<Longrightarrow> wf_map (map_put k v m)"
  by (induction k v m rule: map_put.induct) (auto simp: wf_map_Cons)

lemma map_of_delete [simp]: "map_of (map_delete k m) = (map_of m)(k := None)"
  by (induction m) (auto simp: map_delete_def fun_eq_iff)

lemma keys_map_delete [simp]: "fst ` set (map_delete k m) = fst ` set m - {k}"
  by (auto simp: map_delete_def)

lemma set_map_delete: "set (map_delete k m) = {kv \<in> set m. fst kv \<noteq> k}"
  by (auto simp: map_delete_def)

lemma wf_map_delete [simp]: "wf_map m \<Longrightarrow> wf_map (map_delete k m)"
  by (induction m) (auto simp: map_delete_def wf_map_Cons)

lemma map_of_in_set: "wf_map m \<Longrightarrow> map_of m k = Some v \<longleftrightarrow> (k, v) \<in> set m"
  by (metis map_of_SomeD map_of_is_SomeI wf_map_def)

lemma map_has_iff: "map_has m k \<longleftrightarrow> map_of m k \<noteq> None"
  by (simp add: map_has_def map_of_eq_None_iff)

lemma map_get_put [simp]: "map_get z (map_put k v m) k' = (if k' = k then v else map_get z m k')"
  by (simp add: map_get_def)

section \<open>Sorting\<close>

text \<open>
  \<open>sort.Slice\<close> with a comparison function. Go leaves the order of elements that are not ordered by
  \<open>lt\<close> open; the insertion below keeps one of the allowed orders, and the lemmas used later
  are the two facts every such sort has: the result is a permutation, and it is ordered.
\<close>

fun insert_by :: "('a \<Rightarrow> 'a \<Rightarrow> bool) \<Rightarrow> 'a \<Rightarrow> 'a list \<Rightarrow> 'a list" where
  "insert_by lt x [] = [x]"
| "insert_by lt x (y # ys) = (if lt y x then y # insert_by lt x ys else x # y # ys)"

definition sort_slice :: "('a \<Rightarrow> 'a \<Rightarrow> bool) \<Rightarrow> 'a list \<Rightarrow> 'a list" where
  "sort_slice lt xs = foldr (insert_by lt) xs []"

lemma mset_insert_by [simp]: "mset (insert_by lt x xs) = add_mset x (mset xs)"
  by (induction xs) auto

lemma mset_sort_slice [simp]: "mset (sort_slice lt xs) = mset xs"
  by (induction xs) (simp_all add: sort_slice_def)

lemma set_sort_slice [simp]: "set (sort_slice lt xs) = set xs"
  by (metis mset_sort_slice set_mset_mset)

lemma length_sort_slice [simp]: "length (sort_slice lt xs) = length xs"
  by (metis mset_sort_slice size_mset)

lemma set_insert_by [simp]: "set (insert_by lt x xs) = insert x (set xs)"
  by (metis mset_insert_by set_mset_add_mset_insert set_mset_mset)

lemma sorted_insert_by:
  assumes "sorted_wrt (\<lambda>x y. \<not> lt y x) xs"
    and trans: "\<And>x y z. lt x y \<Longrightarrow> \<not> lt z y \<Longrightarrow> lt x z"
    and asym: "\<And>x y. lt x y \<Longrightarrow> \<not> lt y x"
  shows "sorted_wrt (\<lambda>x y. \<not> lt y x) (insert_by lt x xs)"
  using assms(1)
proof (induction xs)
  case Nil
  then show ?case by simp
next
  case (Cons y ys)
  show ?case
  proof (cases "lt y x")
    case True
    with Cons asym show ?thesis by auto
  next
    case False
    have "\<not> lt z x" if "z \<in> set ys" for z
      using that Cons.prems False trans [of z x y] by auto
    with Cons.prems False show ?thesis by auto
  qed
qed

lemma sorted_sort_slice:
  assumes "\<And>x y z. lt x y \<Longrightarrow> \<not> lt z y \<Longrightarrow> lt x z"
    and "\<And>x y. lt x y \<Longrightarrow> \<not> lt y x"
  shows "sorted_wrt (\<lambda>x y. \<not> lt y x) (sort_slice lt xs)"
proof (induction xs)
  case Nil
  then show ?case by (simp add: sort_slice_def)
next
  case (Cons x xs)
  then have "sorted_wrt (\<lambda>x y. \<not> lt y x) (insert_by lt x (sort_slice lt xs))"
    by (rule sorted_insert_by) (use assms in blast)+
  then show ?case by (simp add: sort_slice_def)
qed

section \<open>Lists and sums\<close>

lemma sum_bind_cases [consumes 1]:
  assumes "(case r of Inl e \<Rightarrow> Inl e | Inr a \<Rightarrow> f a) = Inr b"
  obtains a where "r = Inr a" "f a = Inr b"
  using assms by (cases r) auto

lemma foldl_OR_mono:
  "foldl (OR) a ws = a OR foldl (OR) (0 :: 'a :: len word) ws"
proof (induction ws arbitrary: a)
  case Nil
  then show ?case by simp
next
  case (Cons w ws)
  have "foldl (OR) (a OR w) ws = (a OR w) OR foldl (OR) 0 ws" by (rule Cons.IH)
  moreover have "foldl (OR) w ws = w OR foldl (OR) 0 ws" by (rule Cons.IH)
  ultimately show ?case by (simp add: or.assoc)
qed

end
