(* ===== verification/Api_Status.thy ===== *)
theory Api_Status
  imports Prelude
begin

text \<open>
  The enumerated types of \<open>api/types.go\<close>: \<open>TrackerStatus\<close> (a bit set that doubles as a
  filter), \<open>IPFSPinStatus\<close>, \<open>PinType\<close>, \<open>PinMode\<close> and \<open>PinDepth\<close>, with their string forms
  and conversions.
\<close>

section \<open>TrackerStatus\<close>

type_synonym TrackerStatus = "64 word"

definition TrackerStatusUndefined :: TrackerStatus where [status_defs]:
  "TrackerStatusUndefined = 0"
definition TrackerStatusClusterError :: TrackerStatus where [status_defs]:
  "TrackerStatusClusterError = push_bit 1 1"
definition TrackerStatusPinError :: TrackerStatus where [status_defs]:
  "TrackerStatusPinError = push_bit 2 1"
definition TrackerStatusUnpinError :: TrackerStatus where [status_defs]:
  "TrackerStatusUnpinError = push_bit 3 1"
definition TrackerStatusPinned :: TrackerStatus where [status_defs]:
  "TrackerStatusPinned = push_bit 4 1"
definition TrackerStatusPinning :: TrackerStatus where [status_defs]:
  "TrackerStatusPinning = push_bit 5 1"
definition TrackerStatusUnpinning :: TrackerStatus where [status_defs]:
  "TrackerStatusUnpinning = push_bit 6 1"
definition TrackerStatusUnpinned :: TrackerStatus where [status_defs]:
  "TrackerStatusUnpinned = push_bit 7 1"
definition TrackerStatusRemote :: TrackerStatus where [status_defs]:
  "TrackerStatusRemote = push_bit 8 1"
definition TrackerStatusPinQueued :: TrackerStatus where [status_defs]:
  "TrackerStatusPinQueued = push_bit 9 1"
definition TrackerStatusUnpinQueued :: TrackerStatus where [status_defs]:
  "TrackerStatusUnpinQueued = push_bit 10 1"
definition TrackerStatusSharded :: TrackerStatus where [status_defs]:
  "TrackerStatusSharded = push_bit 11 1"
definition TrackerStatusUnexpectedlyUnpinned :: TrackerStatus where [status_defs]:
  "TrackerStatusUnexpectedlyUnpinned = push_bit 12 1"

definition TrackerStatusError :: TrackerStatus where [status_defs]:
  "TrackerStatusError = TrackerStatusClusterError OR TrackerStatusPinError OR TrackerStatusUnpinError"
definition TrackerStatusQueued :: TrackerStatus where [status_defs]:
  "TrackerStatusQueued = TrackerStatusPinQueued OR TrackerStatusUnpinQueued"

definition trackerStatusString :: "(TrackerStatus \<times> string) list" where
  "trackerStatusString =
    [(TrackerStatusUndefined, ''undefined''),
     (TrackerStatusClusterError, ''cluster_error''),
     (TrackerStatusPinError, ''pin_error''),
     (TrackerStatusUnpinError, ''unpin_error''),
     (TrackerStatusError, ''error''),
     (TrackerStatusPinned, ''pinned''),
     (TrackerStatusPinning, ''pinning''),
     (TrackerStatusUnpinning, ''unpinning''),
     (TrackerStatusUnpinned, ''unpinned''),
     (TrackerStatusRemote, ''remote''),
     (TrackerStatusPinQueued, ''pin_queued''),
     (TrackerStatusUnpinQueued, ''unpin_queued''),
     (TrackerStatusQueued, ''queued''),
     (TrackerStatusSharded, ''sharded''),
     (TrackerStatusUnexpectedlyUnpinned, ''unexpectedly_unpinned'')]"

text \<open>The inverse table that \<open>init()\<close> fills.\<close>

definition stringTrackerStatus :: "(string \<times> TrackerStatus) list" where
  "stringTrackerStatus = map (\<lambda>(k, v). (v, k)) trackerStatusString"

text \<open>
  \<open>String()\<close> of a status or filter. The table is passed as the list in the order in which the
  \<open>range\<close> loop visits the map. The comparison \<open>st&k > 0\<close> is the signed one of Go's \<open>int\<close>.
\<close>

definition TrackerStatus_String :: "(TrackerStatus \<times> string) list \<Rightarrow> TrackerStatus \<Rightarrow> string" where
  "TrackerStatus_String tbl st =
     (case map_of tbl st of
        Some v \<Rightarrow> v
      | None \<Rightarrow> str_join CHR '','' (map snd (filter (\<lambda>(k, v). 0 < sint (st AND k)) tbl)))"

definition TrackerStatus_Match :: "TrackerStatus \<Rightarrow> TrackerStatus \<Rightarrow> bool" where
  "TrackerStatus_Match st flt \<longleftrightarrow>
     flt = TrackerStatusUndefined \<or> st = TrackerStatusUndefined \<or> 0 < sint (st AND flt)"

definition TrackerStatusFromString :: "string \<Rightarrow> TrackerStatus" where
  "TrackerStatusFromString str =
     (let vals = str_split CHR '','' (str_remove CHR '' '' str)
      in foldl (\<lambda>status v. case map_of stringTrackerStatus v of
                   Some st \<Rightarrow> status OR st
                 | None \<Rightarrow> status) 0 vals)"

definition TrackerStatusAll :: "TrackerStatus list" where
  "TrackerStatusAll = filter (\<lambda>k. k \<noteq> TrackerStatusUndefined) (map fst trackerStatusString)"

text \<open>The bits that some named status has.\<close>

definition knownStatusBits :: TrackerStatus where
  "knownStatusBits = foldl (OR) 0 (map fst trackerStatusString)"

section \<open>IPFSPinStatus\<close>

datatype IPFSPinStatus =
    IPFSPinStatusBug
  | IPFSPinStatusError
  | IPFSPinStatusDirect
  | IPFSPinStatusRecursive
  | IPFSPinStatusIndirect
  | IPFSPinStatusUnpinned

definition IPFSPinStatusFromString :: "string \<Rightarrow> IPFSPinStatus" where
  "IPFSPinStatusFromString t =
     (if HasPrefix t ''indirect'' then IPFSPinStatusIndirect
      else if HasPrefix t ''recursive'' then IPFSPinStatusRecursive
      else if t = ''direct'' then IPFSPinStatusDirect
      else IPFSPinStatusBug)"

fun IPFSPinStatus_String :: "IPFSPinStatus \<Rightarrow> string" where
  "IPFSPinStatus_String IPFSPinStatusDirect = ''direct''"
| "IPFSPinStatus_String IPFSPinStatusRecursive = ''recursive''"
| "IPFSPinStatus_String IPFSPinStatusIndirect = ''indirect''"
| "IPFSPinStatus_String _ = ''''"

definition IPFSPinStatus_IsPinned :: "IPFSPinStatus \<Rightarrow> int \<Rightarrow> bool" where
  "IPFSPinStatus_IsPinned ips maxDepth =
     (if maxDepth < 0 then ips = IPFSPinStatusRecursive
      else if maxDepth = 0 then ips = IPFSPinStatusDirect
      else ips = IPFSPinStatusRecursive)"

fun IPFSPinStatus_ToTrackerStatus :: "IPFSPinStatus \<Rightarrow> TrackerStatus" where
  "IPFSPinStatus_ToTrackerStatus IPFSPinStatusDirect = TrackerStatusPinned"
| "IPFSPinStatus_ToTrackerStatus IPFSPinStatusRecursive = TrackerStatusPinned"
| "IPFSPinStatus_ToTrackerStatus IPFSPinStatusIndirect = TrackerStatusUnpinned"
| "IPFSPinStatus_ToTrackerStatus IPFSPinStatusUnpinned = TrackerStatusUnpinned"
| "IPFSPinStatus_ToTrackerStatus IPFSPinStatusBug = TrackerStatusUndefined"
| "IPFSPinStatus_ToTrackerStatus IPFSPinStatusError = TrackerStatusClusterError"

section \<open>PinType\<close>

type_synonym PinType = "64 word"

definition BadType :: PinType where [const_defs]: "BadType = push_bit 0 1"
definition DataType :: PinType where [const_defs]: "DataType = push_bit 1 1"
definition MetaType :: PinType where [const_defs]: "MetaType = push_bit 2 1"
definition ClusterDAGType :: PinType where [const_defs]: "ClusterDAGType = push_bit 3 1"
definition ShardType :: PinType where [const_defs]: "ShardType = push_bit 4 1"
definition AllType :: PinType where [const_defs]:
  "AllType = DataType OR MetaType OR ClusterDAGType OR ShardType"

definition PinTypeFromString :: "string \<Rightarrow> PinType" where
  "PinTypeFromString str =
     (if str = ''pin'' then DataType
      else if str = ''meta-pin'' then MetaType
      else if str = ''clusterdag-pin'' then ClusterDAGType
      else if str = ''shard-pin'' then ShardType
      else if str = ''all'' then AllType
      else if str = '''' then AllType
      else BadType)"

definition PinType_String :: "PinType \<Rightarrow> string" where
  "PinType_String pT =
     (if pT = DataType then ''pin''
      else if pT = MetaType then ''meta-pin''
      else if pT = ClusterDAGType then ''clusterdag-pin''
      else if pT = ShardType then ''shard-pin''
      else if pT = AllType then ''all''
      else ''bad-type'')"

text \<open>
  \<open>convertPinType\<close>: the loop shifts \<open>t\<close> right until it is 1 and counts the shifts; the
  counter is the protobuf enumeration, and 0 (\<open>Pin_BadType\<close>) is returned when \<open>t\<close> reaches 0.
\<close>

function convertPinType_loop :: "PinType \<Rightarrow> int \<Rightarrow> int" where
  "convertPinType_loop t i =
     (if t = 1 then i
      else if t = 0 then 0
      else convertPinType_loop (drop_bit 1 t) (wrap_int32 (i + 1)))"
  by pat_completeness auto
termination
proof (relation "measure (\<lambda>(t, i). unat t)")
  fix t :: PinType and i :: int
  assume "t \<noteq> 1" "t \<noteq> 0"
  then have "unat t div 2 < unat t"
    by (metis div_less_dividend one_less_numeral_iff semiring_norm(76) unat_gt_0 word_gt_0)
  then show "((drop_bit 1 t, wrap_int32 (i + 1)), (t, i)) \<in> measure (\<lambda>(t, i). unat t)"
    by (simp add: drop_bit_eq_div unat_div)
qed simp

declare convertPinType_loop.simps [simp del]

definition convertPinType :: "PinType \<Rightarrow> int" where
  "convertPinType t = convertPinType_loop t 0"

section \<open>PinMode and PinDepth\<close>

type_synonym PinMode = int
type_synonym PinDepth = int

definition PinModeRecursive :: PinMode where [const_defs]: "PinModeRecursive = 0"
definition PinModeDirect :: PinMode where [const_defs]: "PinModeDirect = 1"

definition PinModeFromString :: "string \<Rightarrow> PinMode" where
  "PinModeFromString s =
     (if s = ''recursive'' \<or> s = '''' then PinModeRecursive
      else if s = ''direct'' then PinModeDirect
      else PinModeRecursive)"

definition PinMode_String :: "PinMode \<Rightarrow> string" where
  "PinMode_String pm =
     (if pm = PinModeRecursive then ''recursive''
      else if pm = PinModeDirect then ''direct''
      else ''recursive'')"

definition PinMode_ToIPFSPinStatus :: "PinMode \<Rightarrow> IPFSPinStatus" where
  "PinMode_ToIPFSPinStatus pm =
     (if pm = PinModeDirect then IPFSPinStatusDirect
      else if pm = PinModeRecursive then IPFSPinStatusRecursive
      else IPFSPinStatusBug)"

definition PinMode_ToPinDepth :: "PinMode \<Rightarrow> PinDepth" where
  "PinMode_ToPinDepth pm =
     (if pm = PinModeRecursive then -1
      else if pm = PinModeDirect then 0
      else -1)"

definition PinDepth_ToPinMode :: "PinDepth \<Rightarrow> PinMode" where
  "PinDepth_ToPinMode pd =
     (if pd = -1 then PinModeRecursive
      else if pd = 0 then PinModeDirect
      else PinModeRecursive)"

section \<open>Values of the constants\<close>

lemma status_values:
  "TrackerStatusUndefined = 0" "TrackerStatusClusterError = 2" "TrackerStatusPinError = 4"
  "TrackerStatusUnpinError = 8" "TrackerStatusPinned = 16" "TrackerStatusPinning = 32"
  "TrackerStatusUnpinning = 64" "TrackerStatusUnpinned = 128" "TrackerStatusRemote = 256"
  "TrackerStatusPinQueued = 512" "TrackerStatusUnpinQueued = 1024" "TrackerStatusSharded = 2048"
  "TrackerStatusUnexpectedlyUnpinned = 4096" "TrackerStatusError = 14" "TrackerStatusQueued = 1536"
  by (simp_all add: status_defs push_bit_eq_mult)

lemma pin_type_values:
  "BadType = 1" "DataType = 2" "MetaType = 4" "ClusterDAGType = 8" "ShardType = 16" "AllType = 30"
  by (simp_all add: const_defs push_bit_eq_mult)

lemma knownStatusBits_value: "knownStatusBits = 8190"
  by (simp add: knownStatusBits_def trackerStatusString_def status_values)

lemma sint_pos_iff: "\<not> bit w 63 \<Longrightarrow> 0 < sint w \<longleftrightarrow> w \<noteq> 0" for w :: "64 word"
proof -
  assume "\<not> bit w 63"
  then have "0 \<le> sint w" using bit_last_iff [of w] by simp
  moreover have "sint w = 0 \<longleftrightarrow> w = 0" by (simp add: signed_eq_0_iff)
  ultimately show ?thesis by auto
qed

lemma and_single_bit: "w AND 2 ^ n = (if bit w n then 2 ^ n else 0)" for w :: "64 word"
  by (rule bit_eqI) (auto simp: bit_simps)

section \<open>String form of a status filter\<close>

lemma bit_foldl_OR: "bit (foldl (OR) 0 ws) n \<longleftrightarrow> (\<exists>w \<in> set ws. bit w n)" for ws :: "64 word list"
proof (induction ws)
  case (Cons w ws)
  then show ?case using foldl_OR_mono [of w ws] by (simp add: bit_or_iff)
qed simp

lemma foldl_OR_cong_set:
  assumes "set vs = set ws"
  shows "foldl (OR) 0 vs = foldl (OR) 0 (ws :: 64 word list)"
  by (rule bit_eqI) (simp add: bit_foldl_OR assms)

lemma foldl_OR_filter:
  "foldl (OR) 0 (map fst (filter P xs)) = foldr (\<lambda>x acc. (if P x then fst x else 0) OR acc) xs (0 :: 64 word)"
proof (induction xs)
  case (Cons x xs)
  then show ?case using foldl_OR_mono [of "fst x"] by simp
qed simp

lemma wf_stringTrackerStatus: "wf_map stringTrackerStatus"
  by (simp add: wf_map_def stringTrackerStatus_def trackerStatusString_def)

lemma stringTrackerStatus_lookup:
  assumes "(k, v) \<in> set trackerStatusString"
  shows "map_of stringTrackerStatus v = Some k"
proof -
  from assms have "(v, k) \<in> set stringTrackerStatus"
    by (force simp: stringTrackerStatus_def)
  then show ?thesis by (simp add: map_of_in_set wf_stringTrackerStatus)
qed

lemma trackerStatusString_names:
  assumes "(k, v) \<in> set trackerStatusString"
  shows "CHR '','' \<notin> set v \<and> CHR '' '' \<notin> set v"
proof -
  have "list_all (\<lambda>(k, v). CHR '','' \<notin> set v \<and> CHR '' '' \<notin> set v) trackerStatusString"
    by (simp add: trackerStatusString_def)
  with assms show ?thesis by (auto simp: list_all_iff)
qed

lemma wf_trackerStatusString: "wf_map trackerStatusString"
  by (simp add: wf_map_def trackerStatusString_def status_values)

lemma FromString_fold:
  assumes "set xs \<subseteq> set trackerStatusString"
  shows "foldl (\<lambda>status v. case map_of stringTrackerStatus v of Some st \<Rightarrow> status OR st | None \<Rightarrow> status)
           a (map snd xs) = foldl (OR) a (map fst xs)"
  using assms
  by (induction xs arbitrary: a) (auto simp: stringTrackerStatus_lookup)

lemma FromString_join:
  assumes "set xs \<subseteq> set trackerStatusString"
  shows "TrackerStatusFromString (str_join CHR '','' (map snd xs)) = foldl (OR) 0 (map fst xs)"
proof -
  have ok: "CHR '','' \<notin> set v \<and> CHR '' '' \<notin> set v" if "v \<in> set (map snd xs)" for v
    using that assms trackerStatusString_names by fastforce
  have "CHR '' '' \<notin> set (str_join CHR '','' (map snd xs))"
  proof
    assume "CHR '' '' \<in> set (str_join CHR '','' (map snd xs))"
    then have "CHR '' '' \<in> insert CHR '','' (\<Union> (set ` set (map snd xs)))"
      by (rule subsetD [OF set_str_join])
    then obtain v where "v \<in> set (map snd xs)" "CHR '' '' \<in> set v" by auto
    with ok show False by blast
  qed
  then have rm: "str_remove CHR '' '' (str_join CHR '','' (map snd xs)) = str_join CHR '','' (map snd xs)"
    by (rule str_remove_id)
  show ?thesis
  proof (cases "xs = []")
    case True
    have "map_of stringTrackerStatus [] = None"
      by (simp add: stringTrackerStatus_def trackerStatusString_def)
    with True rm show ?thesis by (simp add: TrackerStatusFromString_def)
  next
    case False
    then have "str_split CHR '','' (str_join CHR '','' (map snd xs)) = map snd xs"
      by (intro str_split_join) (use ok in auto)
    with rm assms show ?thesis by (simp add: TrackerStatusFromString_def FromString_fold)
  qed
qed

lemma and_pow2_if: "k = 2 ^ n \<Longrightarrow> (if st AND k \<noteq> 0 then k else 0) = st AND k" for st :: "64 word"
  by (simp add: and_single_bit)

lemma single_bits:
  fixes st :: "64 word"
  shows "(if st AND 2 \<noteq> 0 then 2 else 0) = st AND 2"
    "(if st AND 4 \<noteq> 0 then 4 else 0) = st AND 4"
    "(if st AND 8 \<noteq> 0 then 8 else 0) = st AND 8"
    "(if st AND 16 \<noteq> 0 then 16 else 0) = st AND 16"
    "(if st AND 32 \<noteq> 0 then 32 else 0) = st AND 32"
    "(if st AND 64 \<noteq> 0 then 64 else 0) = st AND 64"
    "(if st AND 128 \<noteq> 0 then 128 else 0) = st AND 128"
    "(if st AND 256 \<noteq> 0 then 256 else 0) = st AND 256"
    "(if st AND 512 \<noteq> 0 then 512 else 0) = st AND 512"
    "(if st AND 1024 \<noteq> 0 then 1024 else 0) = st AND 1024"
    "(if st AND 2048 \<noteq> 0 then 2048 else 0) = st AND 2048"
    "(if st AND 4096 \<noteq> 0 then 4096 else 0) = st AND 4096"
  by (rule and_pow2_if [of _ 1], simp, rule and_pow2_if [of _ 2], simp, rule and_pow2_if [of _ 3], simp, rule and_pow2_if [of _ 4], simp, rule and_pow2_if [of _ 5], simp, rule and_pow2_if [of _ 6], simp, rule and_pow2_if [of _ 7], simp, rule and_pow2_if [of _ 8], simp, rule and_pow2_if [of _ 9], simp, rule and_pow2_if [of _ 10], simp, rule and_pow2_if [of _ 11], simp, rule and_pow2_if [of _ 12], simp)

lemma table_OR:
  assumes "st AND NOT knownStatusBits = 0"
  shows "foldl (OR) 0 (map fst (filter (\<lambda>(k, v). 0 < sint (st AND k)) trackerStatusString))
    = st OR (if st AND TrackerStatusError \<noteq> 0 then TrackerStatusError else 0)
         OR (if st AND TrackerStatusQueued \<noteq> 0 then TrackerStatusQueued else 0)" (is "?l = ?r")
proof -
  have st: "st = st AND knownStatusBits"
    using assms by (metis and.right_neutral bit.conj_disj_distrib bit.disj_cancel_right or.right_neutral)
  have b63: "\<not> bit st 63"
    by (subst st) (simp add: knownStatusBits_value bit_and_iff)
  have pos: "0 < sint (st AND k) \<longleftrightarrow> st AND k \<noteq> 0" for k
    by (rule sint_pos_iff) (simp add: b63 bit_and_iff)
  let ?e = "if st AND 14 \<noteq> 0 then 14 else 0 :: 64 word" and ?q = "if st AND 1536 \<noteq> 0 then 1536 else 0 :: 64 word"
  have "?l = foldr (\<lambda>x acc. (if st AND fst x \<noteq> 0 then fst x else 0) OR acc) trackerStatusString 0"
    by (simp add: foldl_OR_filter case_prod_unfold pos)
  also have "\<dots> = (st AND 2) OR (st AND 4) OR (st AND 8) OR ?e OR (st AND 16) OR (st AND 32)
      OR (st AND 64) OR (st AND 128) OR (st AND 256) OR (st AND 512) OR (st AND 1024) OR ?q
      OR (st AND 2048) OR (st AND 4096)"
    by (simp only: trackerStatusString_def status_values foldr.simps fst_conv single_bits o_apply id_apply
        and_zero_eq zero_and_eq or.right_neutral or.left_neutral if_cancel not_not if_True if_False)
  also have "\<dots> = (st AND 8190) OR ?e OR ?q"
  proof -
    have "(8190 :: 64 word) = 2 OR 4 OR 8 OR 16 OR 32 OR 64 OR 128 OR 256 OR 512 OR 1024 OR 2048 OR 4096"
      by simp
    then show ?thesis by (simp only: bit.conj_disj_distrib ac_simps)
  qed
  finally show ?thesis using st by (simp add: status_values knownStatusBits_value)
qed

text \<open>
  Printing a status filter and parsing it back. For any order in which the loop visits the
  table and any filter made of known bits, a named status is recovered exactly. A filter that is
  not in the table is recovered with the two composite entries widened: if it has any bit of
  \<open>error\<close> or \<open>queued\<close>, that name is printed as well, and reading it back sets all the
  bits of the composite.
\<close>

theorem TrackerStatus_String_roundtrip:
  assumes tbl: "mset tbl = mset trackerStatusString"
    and known: "st AND NOT knownStatusBits = 0"
  shows "TrackerStatusFromString (TrackerStatus_String tbl st) =
    (if st \<in> fst ` set tbl then st
     else st OR (if st AND TrackerStatusError \<noteq> 0 then TrackerStatusError else 0)
             OR (if st AND TrackerStatusQueued \<noteq> 0 then TrackerStatusQueued else 0))"
proof -
  have set: "set tbl = set trackerStatusString" using tbl by (metis set_mset_mset)
  have wf: "wf_map tbl"
    using wf_trackerStatusString tbl unfolding wf_map_def by (metis mset_eq_imp_distinct_iff mset_map)
  show ?thesis
  proof (cases "map_of tbl st")
    case None
    then have notin: "st \<notin> fst ` set tbl" by (simp add: map_of_eq_None_iff)
    let ?P = "\<lambda>(k, v). 0 < sint (st AND k)"
    have "TrackerStatusFromString (TrackerStatus_String tbl st) = foldl (OR) 0 (map fst (filter ?P tbl))"
      using None FromString_join [of "filter ?P tbl"] set by (auto simp: TrackerStatus_String_def)
    also have "\<dots> = foldl (OR) 0 (map fst (filter ?P trackerStatusString))"
      by (rule foldl_OR_cong_set) (simp add: set)
    finally show ?thesis using notin by (simp add: table_OR [OF known])
  next
    case (Some v)
    then have mem: "(st, v) \<in> set trackerStatusString" using set by (auto dest: map_of_SomeD)
    have "TrackerStatusFromString (str_join CHR '','' (map snd [(st, v)])) = st"
      by (subst FromString_join) (use mem in auto)
    with Some mem set show ?thesis by (force simp: TrackerStatus_String_def)
  qed
qed

theorem TrackerStatus_String_roundtrip_witness:
  "TrackerStatusFromString (TrackerStatus_String trackerStatusString (TrackerStatusPinned OR TrackerStatusPinError))
     = TrackerStatusPinned OR TrackerStatusError"
  using TrackerStatus_String_roundtrip [of trackerStatusString "TrackerStatusPinned OR TrackerStatusPinError"]
  by (simp add: knownStatusBits_value trackerStatusString_def status_values)

section \<open>Conversions\<close>

lemma drop_bit_pow2: "Suc n < 64 \<Longrightarrow> drop_bit 1 (2 ^ Suc n :: 64 word) = 2 ^ n"
  by (rule bit_eqI) (auto simp: bit_simps)

lemma pow2_neq: "0 < n \<Longrightarrow> n < 64 \<Longrightarrow> (2 ^ n :: 64 word) \<noteq> 1 \<and> (2 ^ n :: 64 word) \<noteq> 0"
proof -
  assume n: "0 < n" "n < 64"
  then have "bit (2 ^ n :: 64 word) n" by (simp add: bit_simps)
  moreover have "\<not> bit (1 :: 64 word) n" "\<not> bit (0 :: 64 word) n" using n by (simp_all add: bit_1_iff)
  ultimately show ?thesis by metis
qed

lemma convertPinType_loop_pow2:
  "n < 64 \<Longrightarrow> 0 \<le> i \<Longrightarrow> i + int n < 2 ^ 31 \<Longrightarrow> convertPinType_loop (2 ^ n) i = i + int n"
proof (induction n arbitrary: i)
  case 0
  then show ?case by (simp add: convertPinType_loop.simps)
next
  case (Suc n)
  have "fits_signed 32 (i + 1)" using Suc.prems by (simp add: fits_signed_def)
  then have "wrap_int32 (i + 1) = i + 1" by simp
  moreover have "convertPinType_loop (2 ^ n) (i + 1) = i + 1 + int n"
    using Suc.prems by (intro Suc.IH) auto
  ultimately show ?case
    using drop_bit_pow2 [of n] pow2_neq [of "Suc n"] Suc.prems
    by (simp add: convertPinType_loop.simps [of "2 ^ Suc n"] del: power_Suc)
qed

lemma convertPinType_roundtrip:
  assumes "n < 64"
  shows "push_bit (nat (convertPinType (2 ^ n))) (1 :: PinType) = 2 ^ n"
  using assms by (simp add: convertPinType_def convertPinType_loop_pow2)

lemma pin_type_pow2:
  "DataType = 2 ^ 1" "MetaType = 2 ^ 2" "ClusterDAGType = 2 ^ 3" "ShardType = 2 ^ 4"
  by (simp_all add: pin_type_values)

lemma PinType_String_roundtrip:
  "PinTypeFromString (PinType_String pT) =
     (if pT \<in> {DataType, MetaType, ClusterDAGType, ShardType, AllType} then pT else BadType)"
  by (simp add: PinTypeFromString_def PinType_String_def)

lemma PinMode_depth_roundtrip:
  "pm \<in> {PinModeRecursive, PinModeDirect} \<Longrightarrow> PinDepth_ToPinMode (PinMode_ToPinDepth pm) = pm"
  by (auto simp: PinDepth_ToPinMode_def PinMode_ToPinDepth_def const_defs)

lemma PinMode_String_roundtrip:
  "pm \<in> {PinModeRecursive, PinModeDirect} \<Longrightarrow> PinModeFromString (PinMode_String pm) = pm"
  by (auto simp: PinModeFromString_def PinMode_String_def const_defs)

lemma IPFSPinStatus_String_roundtrip:
  "ips \<in> {IPFSPinStatusDirect, IPFSPinStatusRecursive, IPFSPinStatusIndirect} \<Longrightarrow>
     IPFSPinStatusFromString (IPFSPinStatus_String ips) = ips"
  by (auto simp: IPFSPinStatusFromString_def)

text \<open>A pin that IPFS reports in the mode it was asked for counts as pinned.\<close>

lemma PinMode_IsPinned:
  "pm \<in> {PinModeRecursive, PinModeDirect} \<Longrightarrow>
     IPFSPinStatus_IsPinned ips (PinMode_ToPinDepth pm) \<longleftrightarrow> ips = PinMode_ToIPFSPinStatus pm"
  by (auto simp: IPFSPinStatus_IsPinned_def PinMode_ToPinDepth_def PinMode_ToIPFSPinStatus_def const_defs)

lemma IsPinned_ToTrackerStatus:
  "IPFSPinStatus_IsPinned ips d \<Longrightarrow> IPFSPinStatus_ToTrackerStatus ips = TrackerStatusPinned"
  by (auto simp: IPFSPinStatus_IsPinned_def split: if_splits)

lemma Match_undefined: "TrackerStatus_Match st TrackerStatusUndefined"
  by (simp add: TrackerStatus_Match_def)

lemma Match_sym: "TrackerStatus_Match a b \<longleftrightarrow> TrackerStatus_Match b a"
  by (auto simp: TrackerStatus_Match_def and.commute)

lemma Match_known:
  assumes "\<not> bit flt 63"
  shows "TrackerStatus_Match st flt \<longleftrightarrow> flt = 0 \<or> st = 0 \<or> st AND flt \<noteq> 0"
  using sint_pos_iff [of "st AND flt"] assms
  by (auto simp: TrackerStatus_Match_def status_values bit_and_iff)

end
