(* ===== verification/Api_Types.thy ===== *)
theory Api_Types
  imports Api_Status
begin

text \<open>
  The data types of \<open>api/types.go\<close> that the cluster components exchange: pin options, pins,
  pin statuses of one peer and of the cluster, and metrics, with their comparison, merging and
  protobuf serialisation. The libraries the code calls (protobuf, go-cid, go-multiaddr, libp2p
  peer IDs) are the fields of a \<open>codec\<close> record; what the code relies on is stated by
  \<open>codec_ok\<close> for the values of a given pin.
\<close>

section \<open>Pins\<close>

definition CidUndef :: cid where [const_defs]: "CidUndef = []"

abbreviation Cid_Defined :: "cid \<Rightarrow> bool" where
  "Cid_Defined c \<equiv> c \<noteq> CidUndef"

record PinOptions =
  po_ReplicationFactorMin :: int
  po_ReplicationFactorMax :: int
  po_Name :: string
  po_Mode :: PinMode
  po_ShardSize :: int
  po_UserAllocations :: "peer_id list"
  po_ExpireAt :: gotime
  po_Metadata :: "(string, string) gomap"
  po_PinUpdate :: cid
  po_Origins :: "multiaddr list"

record Pin =
  pin_Options :: PinOptions
  pin_Cid :: cid
  pin_Type :: PinType
  pin_Allocations :: "peer_id list"
  pin_MaxDepth :: PinDepth
  pin_Reference :: "cid option"
  pin_Timestamp :: gotime

definition zero_PinOptions :: PinOptions where
  "zero_PinOptions =
     \<lparr>po_ReplicationFactorMin = 0, po_ReplicationFactorMax = 0, po_Name = [], po_Mode = 0,
      po_ShardSize = 0, po_UserAllocations = [], po_ExpireAt = zero_time, po_Metadata = [],
      po_PinUpdate = CidUndef, po_Origins = []\<rparr>"

definition zero_Pin :: Pin where
  "zero_Pin =
     \<lparr>pin_Options = zero_PinOptions, pin_Cid = CidUndef, pin_Type = 0, pin_Allocations = [],
      pin_MaxDepth = 0, pin_Reference = None, pin_Timestamp = zero_time\<rparr>"

abbreviation pin_rmin :: "Pin \<Rightarrow> int" where
  "pin_rmin p \<equiv> po_ReplicationFactorMin (pin_Options p)"

abbreviation pin_rmax :: "Pin \<Rightarrow> int" where
  "pin_rmax p \<equiv> po_ReplicationFactorMax (pin_Options p)"

definition Pin_Defined :: "Pin \<Rightarrow> bool" where
  "Pin_Defined pin \<longleftrightarrow> Cid_Defined (pin_Cid pin)"

definition IsPinEverywhere :: "Pin \<Rightarrow> bool" where
  "IsPinEverywhere pin \<longleftrightarrow> pin_rmin pin = -1 \<and> pin_rmax pin = -1"

definition IsRemotePin :: "Pin \<Rightarrow> peer_id \<Rightarrow> bool" where
  "IsRemotePin pin pid =
     (if IsPinEverywhere pin then False
      else \<not> list_ex (\<lambda>p. p = pid) (pin_Allocations pin))"

definition ExpiredAt :: "Pin \<Rightarrow> gotime \<Rightarrow> bool" where
  "ExpiredAt pin t =
     (let e = po_ExpireAt (pin_Options pin)
      in if time_IsZero e \<or> e = unixZero then False else e < t)"

text \<open>\<open>PinCid\<close> and \<open>PinWithOpts\<close>; \<open>now\<close> is what \<open>time.Now()\<close> returns.\<close>

definition PinCid :: "gotime \<Rightarrow> cid \<Rightarrow> Pin" where
  "PinCid now c =
     zero_Pin\<lparr>pin_Cid := c, pin_Type := DataType, pin_Allocations := [], pin_MaxDepth := -1,
              pin_Timestamp := now\<rparr>"

definition PinWithOpts :: "gotime \<Rightarrow> cid \<Rightarrow> PinOptions \<Rightarrow> Pin" where
  "PinWithOpts now c opts =
     (let p = PinCid now c
      in p\<lparr>pin_Options := opts, pin_MaxDepth := PinMode_ToPinDepth (po_Mode opts)\<rparr>)"

section \<open>Comparison\<close>

text \<open>
  \<open>PeersToStrings\<close> of \<open>api/util.go\<close>; \<open>peerString\<close> stands for \<open>peer.ID.String\<close>. Multiaddresses
  and CIDs are their bytes, and \<open>Equal\<close> on them is equality of bytes.
\<close>

definition PeersToStrings :: "(peer_id \<Rightarrow> string) \<Rightarrow> peer_id list \<Rightarrow> string list" where
  "PeersToStrings peerString peers = map (\<lambda>p. if p \<noteq> [] then peerString p else []) peers"

definition StringsToPeers :: "(string \<Rightarrow> string + peer_id) \<Rightarrow> string list \<Rightarrow> peer_id list" where
  "StringsToPeers peer_Decode strs =
     foldl (\<lambda>peers p. case peer_Decode p of Inl err \<Rightarrow> peers | Inr pid \<Rightarrow> peers @ [pid]) [] strs"

definition sortedPeersKey :: "(peer_id \<Rightarrow> string) \<Rightarrow> peer_id list \<Rightarrow> string" where
  "sortedPeersKey peerString peers = str_join CHR '','' (sort (PeersToStrings peerString peers))"

definition PinOptions_Equals :: "(peer_id \<Rightarrow> string) \<Rightarrow> PinOptions \<Rightarrow> PinOptions \<Rightarrow> bool" where
  "PinOptions_Equals peerString po po2 =
     (if po_Name po \<noteq> po_Name po2 then False
      else if po_Mode po \<noteq> po_Mode po2 then False
      else if po_ReplicationFactorMax po \<noteq> po_ReplicationFactorMax po2 then False
      else if po_ReplicationFactorMin po \<noteq> po_ReplicationFactorMin po2 then False
      else if po_ShardSize po \<noteq> po_ShardSize po2 then False
      else if length (po_UserAllocations po) \<noteq> length (po_UserAllocations po2) then False
      else if sortedPeersKey peerString (po_UserAllocations po)
            \<noteq> sortedPeersKey peerString (po_UserAllocations po2) then False
      else if po_ExpireAt po \<noteq> po_ExpireAt po2 then False
      else if list_ex (\<lambda>(k, v). k \<noteq> [] \<and> v \<noteq> map_get [] (po_Metadata po2) k) (po_Metadata po) then False
      else if length (po_Origins po) \<noteq> length (po_Origins po2) then False
      else if list_ex (\<lambda>o1. \<not> list_ex (\<lambda>o2. o1 = o2) (po_Origins po2)) (po_Origins po) then False
      else True)"

definition Pin_Equals :: "(peer_id \<Rightarrow> string) \<Rightarrow> Pin \<Rightarrow> Pin \<Rightarrow> bool" where
  "Pin_Equals peerString pin pin2 =
     (if pin_Cid pin \<noteq> pin_Cid pin2 then False
      else if pin_Type pin \<noteq> pin_Type pin2 then False
      else if pin_MaxDepth pin \<noteq> pin_MaxDepth pin2 then False
      else if (pin_Reference pin \<noteq> None \<and> pin_Reference pin2 = None)
            \<or> (pin_Reference pin = None \<and> pin_Reference pin2 \<noteq> None) then False
      else if pin_Reference pin \<noteq> None \<and> pin_Reference pin2 \<noteq> None
            \<and> the (pin_Reference pin) \<noteq> the (pin_Reference pin2) then False
      else if sortedPeersKey peerString (pin_Allocations pin)
            \<noteq> sortedPeersKey peerString (pin_Allocations pin2) then False
      else PinOptions_Equals peerString (pin_Options pin) (pin_Options pin2))"

section \<open>Protobuf form\<close>

record pb_PinOptions =
  pbo_ReplicationFactorMin :: int
  pbo_ReplicationFactorMax :: int
  pbo_Name :: string
  pbo_ShardSize :: int
  pbo_Metadata :: "(string, string) gomap"
  pbo_PinUpdate :: bytes
  pbo_ExpireAt :: int
  pbo_Origins :: "bytes list"
  pbo_SortedMetadata :: "(string \<times> string) list"

record pb_Pin =
  pb_Cid :: bytes
  pb_Type :: int
  pb_Allocations :: "bytes list"
  pb_MaxDepth :: int
  pb_Reference :: bytes
  pb_Options :: pb_PinOptions
  pb_Timestamp :: int

text \<open>The library functions that the serialisation calls.\<close>

record codec =
  peer_Marshal :: "peer_id \<Rightarrow> string + bytes"
  peer_IDFromBytes :: "bytes \<Rightarrow> string + peer_id"
  cid_Bytes :: "cid \<Rightarrow> bytes"
  cid_Cast :: "bytes \<Rightarrow> string + cid"
  ma_Bytes :: "multiaddr \<Rightarrow> bytes"
  ma_NewMultiaddrBytes :: "bytes \<Rightarrow> string + multiaddr"
  proto_Marshal :: "pb_Pin \<Rightarrow> string + bytes"
  proto_Unmarshal :: "bytes \<Rightarrow> string + pb_Pin"

text \<open>A loop that converts each element and returns at the first error.\<close>

fun map_err :: "('a \<Rightarrow> 'e + 'b) \<Rightarrow> 'a list \<Rightarrow> 'e + 'b list" where
  "map_err f [] = Inr []"
| "map_err f (x # xs) =
     (case f x of Inl e \<Rightarrow> Inl e
      | Inr y \<Rightarrow> (case map_err f xs of Inl e \<Rightarrow> Inl e | Inr ys \<Rightarrow> Inr (y # ys)))"

text \<open>Only non-zero times are set; the field is the \<open>uint64\<close> of the Unix seconds.\<close>

definition timeProto :: "gotime \<Rightarrow> int" where
  "timeProto t = (if \<not> (time_IsZero t \<or> t = unixZero) then wrap_uint64 (time_Unix t) else 0)"

definition sortedMetadata :: "(string, string) gomap \<Rightarrow> (string \<times> string) list" where
  "sortedMetadata m = map (\<lambda>k. (k, map_get [] m k)) (sort (map_keys m))"

definition ProtoMarshal :: "codec \<Rightarrow> Pin \<Rightarrow> string + bytes" where
  "ProtoMarshal cd pin =
     (case map_err (peer_Marshal cd) (pin_Allocations pin) of
        Inl err \<Rightarrow> Inl err
      | Inr allocs \<Rightarrow>
          let po = pin_Options pin;
              origins = map (ma_Bytes cd) (po_Origins po);
              opts = \<lparr>pbo_ReplicationFactorMin = wrap_int32 (po_ReplicationFactorMin po),
                      pbo_ReplicationFactorMax = wrap_int32 (po_ReplicationFactorMax po),
                      pbo_Name = po_Name po,
                      pbo_ShardSize = po_ShardSize po,
                      pbo_Metadata = [],
                      pbo_PinUpdate = cid_Bytes cd (po_PinUpdate po),
                      pbo_ExpireAt = timeProto (po_ExpireAt po),
                      pbo_Origins = origins,
                      pbo_SortedMetadata = sortedMetadata (po_Metadata po)\<rparr>
          in proto_Marshal cd
               \<lparr>pb_Cid = cid_Bytes cd (pin_Cid pin),
                pb_Type = convertPinType (pin_Type pin),
                pb_Allocations = allocs,
                pb_MaxDepth = wrap_int32 (pin_MaxDepth pin),
                pb_Reference = (case pin_Reference pin of Some r \<Rightarrow> cid_Bytes cd r | None \<Rightarrow> []),
                pb_Options = opts,
                pb_Timestamp = timeProto (pin_Timestamp pin)\<rparr>)"

text \<open>
  The shift \<open>1 << uint64(n)\<close> of an enumeration value yields 0 for a count of 64 or more, which is
  also what a negative value becomes.

  \<open>ProtoUnmarshal\<close> writes into the receiver \<open>pin0\<close>, so a field the message does not set
  keeps the value the receiver has.
\<close>

definition shl_uint64 :: "int \<Rightarrow> PinType" where
  "shl_uint64 n = (if 0 \<le> n \<and> n < 64 then push_bit (nat n) 1 else 0)"

definition ProtoUnmarshal :: "codec \<Rightarrow> Pin \<Rightarrow> bytes \<Rightarrow> string + Pin" where
  "ProtoUnmarshal cd pin0 data =
     (case proto_Unmarshal cd data of
        Inl err \<Rightarrow> Inl err
      | Inr pbPin \<Rightarrow>
          (case map_err (peer_IDFromBytes cd) (pb_Allocations pbPin) of
             Inl err \<Rightarrow> Inl err
           | Inr allocs \<Rightarrow>
               let opts = pb_Options pbPin; po0 = pin_Options pin0 in
               (case map_err (ma_NewMultiaddrBytes cd) (pbo_Origins opts) of
                  Inl err \<Rightarrow> Inl err
                | Inr origins \<Rightarrow>
                    let ts = pb_Timestamp pbPin; exp = pbo_ExpireAt opts;
                        po = \<lparr>po_ReplicationFactorMin = pbo_ReplicationFactorMin opts,
                              po_ReplicationFactorMax = pbo_ReplicationFactorMax opts,
                              po_Name = pbo_Name opts,
                              po_Mode = PinDepth_ToPinMode (pb_MaxDepth pbPin),
                              po_ShardSize = pbo_ShardSize opts,
                              po_UserAllocations = po_UserAllocations po0,
                              po_ExpireAt = (if 0 < exp then time_of_Unix (wrap_int64 exp)
                                             else po_ExpireAt po0),
                              po_Metadata = foldl (\<lambda>m (k, v). map_put k v m)
                                              (pbo_Metadata opts) (pbo_SortedMetadata opts),
                              po_PinUpdate = (case cid_Cast cd (pbo_PinUpdate opts) of
                                                Inl err \<Rightarrow> po_PinUpdate po0 | Inr c \<Rightarrow> c),
                              po_Origins = origins\<rparr>
                    in Inr \<lparr>pin_Options = po,
                            pin_Cid = (case cid_Cast cd (pb_Cid pbPin) of
                                         Inl err \<Rightarrow> CidUndef | Inr ci \<Rightarrow> ci),
                            pin_Type = shl_uint64 (pb_Type pbPin),
                            pin_Allocations = allocs,
                            pin_MaxDepth = pb_MaxDepth pbPin,
                            pin_Reference = (case cid_Cast cd (pb_Reference pbPin) of
                                               Inl err \<Rightarrow> None | Inr ref \<Rightarrow> Some ref),
                            pin_Timestamp = (if 0 < ts then time_of_Unix (wrap_int64 ts)
                                             else pin_Timestamp pin0)\<rparr>)))"

section \<open>Pin information\<close>

record PinInfoShort =
  pis_PeerName :: string
  pis_IPFS :: peer_id
  pis_IPFSAddresses :: "multiaddr list"
  pis_Status :: TrackerStatus
  pis_TS :: gotime
  pis_Error :: string
  pis_AttemptCount :: int
  pis_PriorityPin :: bool

record PinInfo =
  pi_Cid :: cid
  pi_Name :: string
  pi_Peer :: peer_id
  pi_Allocations :: "peer_id list"
  pi_Origins :: "multiaddr list"
  pi_Created :: gotime
  pi_Metadata :: "(string, string) gomap"
  pi_Short :: PinInfoShort

record GlobalPinInfo =
  gpi_Cid :: cid
  gpi_Name :: string
  gpi_Allocations :: "peer_id list"
  gpi_Origins :: "multiaddr list"
  gpi_Created :: gotime
  gpi_Metadata :: "(string, string) gomap"
  gpi_PeerMap :: "(string, PinInfoShort) gomap"

abbreviation pi_Status :: "PinInfo \<Rightarrow> TrackerStatus" where
  "pi_Status pinfo \<equiv> pis_Status (pi_Short pinfo)"

definition zero_GlobalPinInfo :: GlobalPinInfo where
  "zero_GlobalPinInfo =
     \<lparr>gpi_Cid = CidUndef, gpi_Name = [], gpi_Allocations = [], gpi_Origins = [],
      gpi_Created = zero_time, gpi_Metadata = [], gpi_PeerMap = []\<rparr>"

definition GlobalPinInfo_Add :: "(peer_id \<Rightarrow> string) \<Rightarrow> GlobalPinInfo \<Rightarrow> PinInfo \<Rightarrow> GlobalPinInfo" where
  "GlobalPinInfo_Add peerString gpi0 pinfo =
     (let gpi =
        (if \<not> Cid_Defined (gpi_Cid gpi0) \<or> \<not> TrackerStatus_Match (pi_Status pinfo) TrackerStatusClusterError
         then gpi0\<lparr>gpi_Cid := pi_Cid pinfo, gpi_Name := pi_Name pinfo,
                   gpi_Allocations := pi_Allocations pinfo, gpi_Origins := pi_Origins pinfo,
                   gpi_Created := pi_Created pinfo, gpi_Metadata := pi_Metadata pinfo\<rparr>
         else gpi0)
      in gpi\<lparr>gpi_PeerMap := map_put (peerString (pi_Peer pinfo)) (pi_Short pinfo) (gpi_PeerMap gpi)\<rparr>)"

definition GlobalPinInfo_Match :: "GlobalPinInfo \<Rightarrow> TrackerStatus \<Rightarrow> bool" where
  "GlobalPinInfo_Match gpi flt =
     list_ex (\<lambda>(pid, pinfo). TrackerStatus_Match (pis_Status pinfo) flt) (gpi_PeerMap gpi)"

definition PinInfo_ToGlobal :: "(peer_id \<Rightarrow> string) \<Rightarrow> PinInfo \<Rightarrow> GlobalPinInfo" where
  "PinInfo_ToGlobal peerString pinfo = GlobalPinInfo_Add peerString zero_GlobalPinInfo pinfo"

section \<open>Metrics\<close>

record Metric =
  m_Name :: string
  m_Peer :: peer_id
  m_Value :: string
  m_Expire :: int
  m_Valid :: bool
  m_Weight :: int
  m_Partitionable :: bool
  m_ReceivedAt :: int

type_synonym MetricsSet = "(string, Metric list) gomap"

definition Metric_Defined :: "Metric \<Rightarrow> bool" where
  "Metric_Defined m \<longleftrightarrow> m_Name m \<noteq> []"

definition Metric_SetTTL :: "gotime \<Rightarrow> Metric \<Rightarrow> duration \<Rightarrow> Metric" where
  "Metric_SetTTL now m d = m\<lparr>m_Expire := wrap_int64 (now + d)\<rparr>"

definition Metric_GetTTL :: "gotime \<Rightarrow> Metric \<Rightarrow> duration" where
  "Metric_GetTTL now m = (let ttl = time_Sub (m_Expire m) now in if ttl < 0 then 0 else ttl)"

definition Metric_Expired :: "gotime \<Rightarrow> Metric \<Rightarrow> bool" where
  "Metric_Expired now m \<longleftrightarrow> m_Expire m < now"

definition Metric_Discard :: "gotime \<Rightarrow> Metric \<Rightarrow> bool" where
  "Metric_Discard now m \<longleftrightarrow> \<not> m_Valid m \<or> Metric_Expired now m"

definition MetricSlice_Less :: "Metric \<Rightarrow> Metric \<Rightarrow> bool" where
  "MetricSlice_Less a b =
     (if m_Peer a = m_Peer b then m_Expire a < m_Expire b else m_Peer a < m_Peer b)"

record Alert =
  al_Metric :: Metric
  al_TriggeredAt :: gotime

section \<open>What comparison decides\<close>

text \<open>
  \<open>peer.ID.String\<close> is the base58 or CIDv1 text of the ID: different IDs have different texts, the text of a
  non-empty ID is not empty, and no text has a comma.
\<close>

definition peerString_ok :: "(peer_id \<Rightarrow> string) \<Rightarrow> bool" where
  "peerString_ok ps \<longleftrightarrow> inj ps \<and> (\<forall>p. p \<noteq> [] \<longrightarrow> ps p \<noteq> []) \<and> (\<forall>p. CHR '','' \<notin> set (ps p))"

lemma PeersToStrings_inj:
  assumes "peerString_ok ps"
  shows "inj (\<lambda>p. if p \<noteq> [] then ps p else [])"
  using assms by (auto simp: peerString_ok_def inj_def)

lemma sort_map_inj_eq_iff:
  assumes "inj f"
  shows "sort (map f xs) = sort (map f ys) \<longleftrightarrow> mset xs = mset ys"
proof -
  have "sort (map f xs) = sort (map f ys) \<longleftrightarrow> mset (map f xs) = mset (map f ys)"
    by (metis mset_sort properties_for_sort sorted_sort)
  also have "\<dots> \<longleftrightarrow> mset xs = mset ys"
    using multiset.inj_map [OF assms] by (simp add: inj_eq)
  finally show ?thesis .
qed

lemma sortedPeersKey_eq_iff:
  assumes ps: "peerString_ok ps" and len: "length xs = length ys"
  shows "sortedPeersKey ps xs = sortedPeersKey ps ys \<longleftrightarrow> mset xs = mset ys"
proof -
  let ?f = "\<lambda>p. if p \<noteq> [] then ps p else []"
  have "sort (map ?f xs) = sort (map ?f ys)"
    if "str_join CHR '','' (sort (map ?f xs)) = str_join CHR '','' (sort (map ?f ys))"
    using that by (rule str_join_inj) (use ps len in \<open>auto simp: peerString_ok_def split: if_splits\<close>)
  then show ?thesis
    using sort_map_inj_eq_iff [OF PeersToStrings_inj [OF ps], of xs ys]
    by (auto simp: sortedPeersKey_def PeersToStrings_def)
qed

lemma str_join_Nil_iff: "str_join c ss = [] \<longleftrightarrow> ss = [] \<or> ss = [[]]"
  by (cases "(c, ss)" rule: str_join.cases) auto

definition sameOptions :: "PinOptions \<Rightarrow> PinOptions \<Rightarrow> bool" where
  "sameOptions po po2 \<longleftrightarrow>
     po_Name po = po_Name po2 \<and> po_Mode po = po_Mode po2 \<and>
     po_ReplicationFactorMin po = po_ReplicationFactorMin po2 \<and>
     po_ReplicationFactorMax po = po_ReplicationFactorMax po2 \<and>
     po_ShardSize po = po_ShardSize po2 \<and>
     mset (po_UserAllocations po) = mset (po_UserAllocations po2) \<and>
     po_ExpireAt po = po_ExpireAt po2 \<and>
     (\<forall>(k, v) \<in> set (po_Metadata po). k \<noteq> [] \<longrightarrow> map_get [] (po_Metadata po2) k = v) \<and>
     length (po_Origins po) = length (po_Origins po2) \<and>
     set (po_Origins po) \<subseteq> set (po_Origins po2)"

lemma PinOptions_Equals_iff:
  assumes "peerString_ok ps"
  shows "PinOptions_Equals ps po po2 \<longleftrightarrow> sameOptions po po2"
proof -
  have "length (po_UserAllocations po) = length (po_UserAllocations po2)"
    if "mset (po_UserAllocations po) = mset (po_UserAllocations po2)"
    using that by (rule mset_eq_length)
  then show ?thesis
    using sortedPeersKey_eq_iff [OF assms, of "po_UserAllocations po" "po_UserAllocations po2"]
    by (auto simp: PinOptions_Equals_def sameOptions_def list_ex_iff)
qed

lemma PinOptions_Equals_refl:
  assumes "wf_map (po_Metadata po)"
  shows "PinOptions_Equals ps po po"
  using assms by (auto simp: PinOptions_Equals_def list_ex_iff map_get_def wf_map_def split: option.splits)

lemma sortedPeersKey_eq_iff':
  assumes ps: "peerString_ok ps" and ne: "[] \<notin> set xs" "[] \<notin> set ys"
  shows "sortedPeersKey ps xs = sortedPeersKey ps ys \<longleftrightarrow> mset xs = mset ys"
proof -
  let ?f = "\<lambda>p. if p \<noteq> [] then ps p else []"
  have nil: "zs = []" if "sortedPeersKey ps zs = []" "[] \<notin> set zs" for zs
  proof -
    have "[] \<notin> set (sort (map ?f zs))" using ps that(2) by (auto simp: peerString_ok_def)
    moreover have "sort (map ?f zs) = [] \<or> sort (map ?f zs) = [[]]"
      using that(1) by (simp add: sortedPeersKey_def PeersToStrings_def str_join_Nil_iff)
    ultimately have "sort (map ?f zs) = []" by (elim disjE) (simp_all only: list.set, simp)
    then have "length (sort (map ?f zs)) = 0" by (simp only: list.size)
    then show ?thesis by (simp only: length_sort length_map length_0_conv)
  qed
  have "length xs = length ys" if eq: "sortedPeersKey ps xs = sortedPeersKey ps ys"
  proof (cases "xs = [] \<or> ys = []")
    case True
    then show ?thesis using eq nil [OF _ ne(1)] nil [OF _ ne(2)]
      by (auto simp: sortedPeersKey_def PeersToStrings_def)
  next
    case False
    have "str_split CHR '','' (sortedPeersKey ps zs) = sort (map ?f zs)" if "zs \<noteq> []" for zs
      unfolding sortedPeersKey_def PeersToStrings_def
    proof (rule str_split_join)
      have "length (sort (map ?f zs)) \<noteq> 0" using that by (simp only: length_sort length_map length_0_conv) simp
      then show "sort (map ?f zs) \<noteq> []" by (simp only: length_0_conv) simp
    qed (use ps in \<open>auto simp: peerString_ok_def split: if_splits\<close>)
    from this [of xs] this [of ys] have "sort (map ?f xs) = sort (map ?f ys)" using eq False by simp
    then have "length (sort (map ?f xs)) = length (sort (map ?f ys))" by (rule arg_cong)
    then show ?thesis by (simp only: length_sort length_map)
  qed
  then show ?thesis using sortedPeersKey_eq_iff [OF ps] mset_eq_length by blast
qed

lemma Pin_Equals_iff:
  assumes "peerString_ok ps"
    and "[] \<notin> set (pin_Allocations p)" "[] \<notin> set (pin_Allocations q)"
  shows "Pin_Equals ps p q \<longleftrightarrow>
     pin_Cid p = pin_Cid q \<and> pin_Type p = pin_Type q \<and> pin_MaxDepth p = pin_MaxDepth q \<and>
     pin_Reference p = pin_Reference q \<and> mset (pin_Allocations p) = mset (pin_Allocations q) \<and>
     sameOptions (pin_Options p) (pin_Options q)"
  using sortedPeersKey_eq_iff' [OF assms] PinOptions_Equals_iff [OF assms(1)]
  by (auto simp: Pin_Equals_def)

section \<open>Serialisation\<close>

text \<open>
  What the serialisation of \<open>pin\<close> relies on in the libraries: the decoder of each kind of value
  reads back the bytes its encoder wrote, an undefined CID encodes to no bytes and no bytes are
  not a CID, and protobuf decodes what it encoded.
\<close>

definition codec_ok :: "codec \<Rightarrow> Pin \<Rightarrow> bool" where
  "codec_ok cd pin \<longleftrightarrow>
     list_all (\<lambda>p. (case peer_Marshal cd p of Inl e \<Rightarrow> False | Inr bs \<Rightarrow> peer_IDFromBytes cd bs = Inr p))
       (pin_Allocations pin) \<and>
     list_all (\<lambda>c. if c = CidUndef then cid_Bytes cd c = [] else cid_Cast cd (cid_Bytes cd c) = Inr c)
       ([pin_Cid pin, po_PinUpdate (pin_Options pin)] @
        (case pin_Reference pin of Some r \<Rightarrow> [r] | None \<Rightarrow> [])) \<and>
     (\<exists>e. cid_Cast cd [] = Inl e) \<and>
     list_all (\<lambda>a. ma_NewMultiaddrBytes cd (ma_Bytes cd a) = Inr a) (po_Origins (pin_Options pin)) \<and>
     (\<forall>m bs. proto_Marshal cd m = Inr bs \<longrightarrow> proto_Unmarshal cd bs = Inr m)"

text \<open>The pins whose numbers fit the message: a single-bit type, 32-bit factors and depth, 64-bit times.\<close>

definition serialisable :: "Pin \<Rightarrow> bool" where
  "serialisable pin \<longleftrightarrow>
     (\<exists>n < 64. pin_Type pin = 2 ^ n) \<and>
     fits_signed 32 (pin_rmin pin) \<and> fits_signed 32 (pin_rmax pin) \<and>
     fits_signed 32 (pin_MaxDepth pin) \<and>
     fits_signed 64 (time_Unix (pin_Timestamp pin)) \<and>
     fits_signed 64 (time_Unix (po_ExpireAt (pin_Options pin))) \<and>
     wf_map (po_Metadata (pin_Options pin)) \<and>
     pin_Reference pin \<noteq> Some CidUndef"

definition stored_time :: "gotime \<Rightarrow> gotime \<Rightarrow> gotime" where
  "stored_time t0 t = (if time_IsZero t \<or> time_Unix t = 0 then t0 else time_of_Unix (time_Unix t))"

definition stored_pin :: "Pin \<Rightarrow> Pin \<Rightarrow> Pin" where
  "stored_pin pin0 pin =
     (let po = pin_Options pin; po0 = pin_Options pin0
      in pin\<lparr>pin_Options := po\<lparr>po_Mode := PinDepth_ToPinMode (pin_MaxDepth pin),
                             po_UserAllocations := po_UserAllocations po0,
                             po_ExpireAt := stored_time (po_ExpireAt po0) (po_ExpireAt po),
                             po_Metadata := sortedMetadata (po_Metadata po),
                             po_PinUpdate := (if po_PinUpdate po = CidUndef then po_PinUpdate po0
                                              else po_PinUpdate po)\<rparr>,
             pin_Timestamp := stored_time (pin_Timestamp pin0) (pin_Timestamp pin)\<rparr>)"

lemma map_err_Inr: "map_err f xs = Inr ys \<longleftrightarrow> list_all2 (\<lambda>x y. f x = Inr y) xs ys"
  by (induction f xs arbitrary: ys rule: map_err.induct)
    (auto simp: list_all2_Cons1 split: sum.splits)

lemma map_err_roundtrip:
  assumes "list_all (\<lambda>x. case f x of Inl e \<Rightarrow> False | Inr y \<Rightarrow> g y = Inr x) xs"
  shows "\<exists>ys. map_err f xs = Inr ys \<and> map_err g ys = Inr xs"
  using assms by (induction xs) (auto split: sum.splits)

lemma map_err_map: "list_all (\<lambda>x. g (f x) = Inr x) xs \<Longrightarrow> map_err g (map f xs) = Inr xs"
  by (induction xs) auto

lemma timeProto_stored:
  assumes "fits_signed 64 (time_Unix t)"
  shows "(if 0 < timeProto t then time_of_Unix (wrap_int64 (timeProto t)) else t0) = stored_time t0 t"
proof (cases "time_IsZero t \<or> time_Unix t = 0")
  case True
  then show ?thesis by (auto simp: timeProto_def stored_time_def wrap_unsigned_def)
next
  case False
  then have ne: "t \<noteq> unixZero" by (auto simp: unixZero_def time_Unix_def)
  have "wrap_unsigned 64 (time_Unix t) \<noteq> 0"
  proof
    assume "wrap_unsigned 64 (time_Unix t) = 0"
    then have "wrap_int64 (wrap_unsigned 64 (time_Unix t)) = 0" by (simp add: wrap_signed_def)
    with assms False show False by simp
  qed
  then have "0 < timeProto t" using False ne wrap_unsigned_bounds [of 64 "time_Unix t"]
    by (simp add: timeProto_def)
  with False ne assms show ?thesis by (simp add: timeProto_def stored_time_def)
qed

lemma wf_sortedMetadata: "wf_map m \<Longrightarrow> wf_map (sortedMetadata m)"
  by (simp add: wf_map_def sortedMetadata_def map_keys_def comp_def)

lemma set_sortedMetadata: "wf_map m \<Longrightarrow> set (sortedMetadata m) = set m"
  by (force simp: sortedMetadata_def map_keys_def map_get_def wf_map_def)

lemma map_put_fresh: "k \<notin> fst ` set m \<Longrightarrow> map_put k v m = m @ [(k, v)]"
  by (induction k v m rule: map_put.induct) auto

lemma foldl_map_put:
  "wf_map (m @ xs) \<Longrightarrow> foldl (\<lambda>m (k, v). map_put k v m) m xs = m @ xs"
proof (induction xs arbitrary: m)
  case (Cons x xs)
  obtain k v where [simp]: "x = (k, v)" by fastforce
  from Cons.prems have "k \<notin> fst ` set m" "wf_map ((m @ [x]) @ xs)" by (auto simp: wf_map_def)
  with Cons.IH show ?case by (simp add: map_put_fresh)
qed simp

lemma shl_convertPinType: "n < 64 \<Longrightarrow> shl_uint64 (convertPinType (2 ^ n)) = 2 ^ n"
  by (simp add: shl_uint64_def convertPinType_def convertPinType_loop_pow2)

text \<open>The message a serialisable pin is encoded to.\<close>

definition pin_message :: "codec \<Rightarrow> bytes list \<Rightarrow> Pin \<Rightarrow> pb_Pin" where
  "pin_message cd allocs pin =
     \<lparr>pb_Cid = cid_Bytes cd (pin_Cid pin), pb_Type = convertPinType (pin_Type pin),
      pb_Allocations = allocs, pb_MaxDepth = pin_MaxDepth pin,
      pb_Reference = (case pin_Reference pin of Some r \<Rightarrow> cid_Bytes cd r | None \<Rightarrow> []),
      pb_Options = \<lparr>pbo_ReplicationFactorMin = pin_rmin pin, pbo_ReplicationFactorMax = pin_rmax pin,
        pbo_Name = po_Name (pin_Options pin), pbo_ShardSize = po_ShardSize (pin_Options pin),
        pbo_Metadata = [], pbo_PinUpdate = cid_Bytes cd (po_PinUpdate (pin_Options pin)),
        pbo_ExpireAt = timeProto (po_ExpireAt (pin_Options pin)),
        pbo_Origins = map (ma_Bytes cd) (po_Origins (pin_Options pin)),
        pbo_SortedMetadata = sortedMetadata (po_Metadata (pin_Options pin))\<rparr>,
      pb_Timestamp = timeProto (pin_Timestamp pin)\<rparr>"

lemma ProtoMarshal_message:
  assumes "serialisable pin" "map_err (peer_Marshal cd) (pin_Allocations pin) = Inr allocs"
  shows "ProtoMarshal cd pin = proto_Marshal cd (pin_message cd allocs pin)"
  using assms by (simp add: ProtoMarshal_def serialisable_def pin_message_def Let_def)

lemma cid_Cast_undef:
  "codec_ok cd pin \<Longrightarrow> \<exists>e. cid_Cast cd [] = Inl e"
  by (simp add: codec_ok_def)

lemma cid_Cast_Bytes:
  assumes "codec_ok cd pin" "c \<in> {pin_Cid pin, po_PinUpdate (pin_Options pin)} \<union> set_option (pin_Reference pin)"
  shows "(case cid_Cast cd (cid_Bytes cd c) of Inl err \<Rightarrow> x | Inr c \<Rightarrow> f c) = (if c = CidUndef then x else f c)"
proof -
  have "(c = CidUndef \<longrightarrow> cid_Bytes cd c = []) \<and> (c \<noteq> CidUndef \<longrightarrow> cid_Cast cd (cid_Bytes cd c) = Inr c)"
    using assms unfolding codec_ok_def by (cases "pin_Reference pin") (auto split: if_splits)
  with cid_Cast_undef [OF assms(1)] show ?thesis by auto
qed

lemma cid_Cast_reference:
  assumes "codec_ok cd pin" "serialisable pin"
  shows "(case cid_Cast cd (case pin_Reference pin of Some r \<Rightarrow> cid_Bytes cd r | None \<Rightarrow> []) of
     Inl err \<Rightarrow> None | Inr ref \<Rightarrow> Some ref) = pin_Reference pin"
proof (cases "pin_Reference pin")
  case None
  with cid_Cast_undef [OF assms(1)] show ?thesis by auto
next
  case (Some r)
  with assms(2) have "r \<noteq> CidUndef" by (simp add: serialisable_def)
  with Some cid_Cast_Bytes [OF assms(1), of r None Some] show ?thesis by simp
qed

lemma ProtoUnmarshal_message:
  assumes ok: "codec_ok cd pin" and ser: "serialisable pin"
    and allocs: "map_err (peer_IDFromBytes cd) allocs = Inr (pin_Allocations pin)"
    and data: "proto_Unmarshal cd data = Inr (pin_message cd allocs pin)"
  shows "ProtoUnmarshal cd pin0 data = Inr (stored_pin pin0 pin)"
proof -
  have origins: "map_err (ma_NewMultiaddrBytes cd) (map (ma_Bytes cd) (po_Origins (pin_Options pin)))
      = Inr (po_Origins (pin_Options pin))"
    using ok by (intro map_err_map) (simp add: codec_ok_def)
  obtain n where n: "n < 64" "pin_Type pin = 2 ^ n" using ser by (auto simp: serialisable_def)
  have meta: "foldl (\<lambda>m (k, v). map_put k v m) [] (sortedMetadata (po_Metadata (pin_Options pin)))
      = sortedMetadata (po_Metadata (pin_Options pin))"
    using ser foldl_map_put [of "[]" "sortedMetadata (po_Metadata (pin_Options pin))"]
    by (simp add: serialisable_def wf_sortedMetadata)
  have times: "fits_signed 64 (time_Unix (pin_Timestamp pin))"
      "fits_signed 64 (time_Unix (po_ExpireAt (pin_Options pin)))"
    using ser by (simp_all add: serialisable_def)
  show ?thesis
    by (simp add: ProtoUnmarshal_def data pin_message_def allocs origins meta times n shl_convertPinType
        timeProto_stored stored_pin_def Let_def cid_Cast_reference [OF ok ser] cid_Cast_Bytes [OF ok])
qed

lemma ProtoMarshal_stored:
  assumes ok: "codec_ok cd pin" and ser: "serialisable pin"
    and data: "ProtoMarshal cd pin = Inr data"
  shows "ProtoUnmarshal cd pin0 data = Inr (stored_pin pin0 pin)"
proof -
  obtain allocs where allocs: "map_err (peer_Marshal cd) (pin_Allocations pin) = Inr allocs"
      "map_err (peer_IDFromBytes cd) allocs = Inr (pin_Allocations pin)"
    using ok map_err_roundtrip [where f = "peer_Marshal cd" and g = "peer_IDFromBytes cd" and xs = "pin_Allocations pin"]
    unfolding codec_ok_def by blast
  have "proto_Unmarshal cd data = Inr (pin_message cd allocs pin)"
    using ok data unfolding ProtoMarshal_message [OF ser allocs(1)] codec_ok_def by blast
  with ok ser allocs(2) show ?thesis by (rule ProtoUnmarshal_message)
qed

lemma sortedMetadata_cong:
  assumes "mset m = mset m'" "wf_map m"
  shows "sortedMetadata m = sortedMetadata m'"
proof -
  have wf': "wf_map m'"
    using assms unfolding wf_map_def by (metis mset_eq_imp_distinct_iff mset_map)
  have "map_of m = map_of m'"
    using assms wf' mset_eq_setD [OF assms(1)] by (simp add: map_of_inject_set wf_map_def)
  moreover have "sort (map_keys m) = sort (map_keys m')"
    by (rule properties_for_sort) (simp_all add: map_keys_def mset_map assms(1))
  ultimately show ?thesis by (simp add: sortedMetadata_def map_get_def)
qed

definition whole_seconds :: "gotime \<Rightarrow> bool" where
  "whole_seconds t \<longleftrightarrow> t = zero_time \<or> (t mod second = 0 \<and> t \<noteq> unixZero)"

lemma stored_time_whole: "whole_seconds t \<Longrightarrow> stored_time zero_time t = t"
  by (auto simp: whole_seconds_def stored_time_def time_IsZero_def time_of_Unix_def time_Unix_def
      second_def unixZero_def)

lemma stored_pin_whole:
  assumes "po_UserAllocations (pin_Options pin) = []"
    and "po_Mode (pin_Options pin) = PinDepth_ToPinMode (pin_MaxDepth pin)"
    and "whole_seconds (pin_Timestamp pin)" "whole_seconds (po_ExpireAt (pin_Options pin))"
  shows "stored_pin zero_Pin pin =
    pin\<lparr>pin_Options := (pin_Options pin)\<lparr>po_Metadata := sortedMetadata (po_Metadata (pin_Options pin))\<rparr>\<rparr>"
  using assms by (simp add: stored_pin_def zero_Pin_def zero_PinOptions_def stored_time_whole Let_def)

lemma map_get_in_set: "wf_map m \<Longrightarrow> (k, v) \<in> set m \<Longrightarrow> map_get z m k = v"
  by (simp add: map_get_def wf_map_def)

lemma PinOptions_Equals_sortedMetadata:
  assumes "wf_map (po_Metadata po)"
  shows "PinOptions_Equals ps po (po\<lparr>po_Metadata := sortedMetadata (po_Metadata po)\<rparr>)"
    "PinOptions_Equals ps (po\<lparr>po_Metadata := sortedMetadata (po_Metadata po)\<rparr>) po"
proof -
  let ?m = "po_Metadata po"
  have "\<not> list_ex (\<lambda>(k, v). k \<noteq> [] \<and> v \<noteq> map_get [] (sortedMetadata ?m) k) ?m"
    using assms by (auto simp: list_ex_iff map_get_in_set wf_sortedMetadata set_sortedMetadata)
  then show "PinOptions_Equals ps po (po\<lparr>po_Metadata := sortedMetadata ?m\<rparr>)"
    by (simp add: PinOptions_Equals_def list_ex_iff)
  have "\<not> list_ex (\<lambda>(k, v). k \<noteq> [] \<and> v \<noteq> map_get [] ?m k) (sortedMetadata ?m)"
    using assms by (auto simp: list_ex_iff map_get_in_set set_sortedMetadata)
  then show "PinOptions_Equals ps (po\<lparr>po_Metadata := sortedMetadata ?m\<rparr>) po"
    by (simp add: PinOptions_Equals_def list_ex_iff)
qed

definition canonical_pin :: "Pin \<Rightarrow> bool" where
  "canonical_pin pin \<longleftrightarrow>
     po_UserAllocations (pin_Options pin) = [] \<and>
     po_Mode (pin_Options pin) = PinDepth_ToPinMode (pin_MaxDepth pin) \<and>
     whole_seconds (pin_Timestamp pin) \<and> whole_seconds (po_ExpireAt (pin_Options pin))"

lemma stored_pin_Equals:
  assumes "serialisable pin" "canonical_pin pin"
  shows "Pin_Equals ps pin (stored_pin zero_Pin pin) \<and> Pin_Equals ps (stored_pin zero_Pin pin) pin"
  using assms PinOptions_Equals_sortedMetadata [of "pin_Options pin" ps]
  by (simp add: Pin_Equals_def serialisable_def canonical_pin_def stored_pin_whole)

text \<open>
  C13. Serialising a pin and reading it back. For a pin whose numbers fit the message, whatever
  the receiver held, \<open>ProtoUnmarshal\<close> of the bytes of \<open>ProtoMarshal\<close> succeeds and yields the pin
  with its times cut to seconds, its mode derived from the depth and its user allocations
  dropped; and when the pin already has that form, reading it into a fresh pin gives a pin that
  \<open>Equals\<close> accepts in both directions.
\<close>

theorem ProtoMarshal_roundtrip:
  assumes "codec_ok cd pin" "serialisable pin" "ProtoMarshal cd pin = Inr data"
  shows "ProtoUnmarshal cd pin0 data = Inr (stored_pin pin0 pin) \<and>
    (canonical_pin pin \<longrightarrow> (\<exists>p. ProtoUnmarshal cd zero_Pin data = Inr p \<and>
       Pin_Equals ps pin p \<and> Pin_Equals ps p pin))"
  using ProtoMarshal_stored [OF assms] stored_pin_Equals [OF assms(2)] by auto

definition example_pin :: Pin where
  "example_pin = \<lparr>pin_Options = zero_PinOptions\<lparr>po_ReplicationFactorMin := 1, po_ReplicationFactorMax := 2,
       po_Name := ''site'', po_Metadata := [(''b'', ''2''), (''a'', ''1'')], po_Origins := [''/ip4'']\<rparr>,
     pin_Cid = ''Qm'', pin_Type = DataType, pin_Allocations = [''p2'', ''p1''], pin_MaxDepth = -1,
     pin_Reference = None, pin_Timestamp = 5 * second\<rparr>"

definition example_message :: pb_Pin where
  "example_message = \<lparr>pb_Cid = ''Qm'', pb_Type = 1, pb_Allocations = [''p2'', ''p1''], pb_MaxDepth = -1,
     pb_Reference = [], pb_Options = \<lparr>pbo_ReplicationFactorMin = 1, pbo_ReplicationFactorMax = 2,
       pbo_Name = ''site'', pbo_ShardSize = 0, pbo_Metadata = [], pbo_PinUpdate = [], pbo_ExpireAt = 0,
       pbo_Origins = [''/ip4''], pbo_SortedMetadata = [(''a'', ''1''), (''b'', ''2'')]\<rparr>,
     pb_Timestamp = 5\<rparr>"

definition example_codec :: codec where
  "example_codec = \<lparr>peer_Marshal = Inr, peer_IDFromBytes = Inr, cid_Bytes = (\<lambda>c. c),
     cid_Cast = (\<lambda>bs. if bs = [] then Inl ''cid too short'' else Inr bs),
     ma_Bytes = (\<lambda>a. a), ma_NewMultiaddrBytes = Inr,
     proto_Marshal = (\<lambda>m. if m = example_message then Inr ''01'' else Inl ''cannot encode''),
     proto_Unmarshal = (\<lambda>bs. if bs = ''01'' then Inr example_message else Inl ''cannot decode'')\<rparr>"

lemmas example_defs = example_pin_def example_message_def example_codec_def

lemma example_pin_ok:
  "codec_ok example_codec example_pin" "serialisable example_pin" "canonical_pin example_pin"
  "ProtoMarshal example_codec example_pin = Inr ''01''"
proof -
  have md: "sortedMetadata [(''b'', ''2''), (''a'', ''1'')] = [(''a'', ''1''), (''b'', ''2'')]"
    by code_simp
  have ty: "convertPinType DataType = 1"
    using convertPinType_loop_pow2 [of 1 0] by (simp add: convertPinType_def pin_type_values)
  show "ProtoMarshal example_codec example_pin = Inr ''01''"
    by (simp add: ProtoMarshal_def example_defs zero_PinOptions_def md ty timeProto_def time_IsZero_def
        zero_time_def unixZero_def time_Unix_def second_def wrap_signed_def wrap_unsigned_def CidUndef_def)
  show "codec_ok example_codec example_pin"
    by (simp add: codec_ok_def example_defs zero_PinOptions_def CidUndef_def)
  have "\<exists>n < 64. DataType = 2 ^ n" using pin_type_pow2(1) by (intro exI [of _ 1]) simp
  then show "serialisable example_pin"
    by (simp add: serialisable_def example_pin_def zero_PinOptions_def fits_signed_def time_Unix_def
        zero_time_def second_def wf_map_def)
  show "canonical_pin example_pin"
    by (simp add: canonical_pin_def example_pin_def zero_PinOptions_def whole_seconds_def
        PinDepth_ToPinMode_def PinModeRecursive_def second_def unixZero_def)
qed

theorem ProtoMarshal_roundtrip_witness:
  "ProtoMarshal example_codec example_pin = Inr ''01'' \<and>
   ProtoUnmarshal example_codec zero_Pin ''01'' = Inr (stored_pin zero_Pin example_pin)"
  using ProtoMarshal_roundtrip [of example_codec example_pin "''01''" zero_Pin] example_pin_ok by simp

text \<open>
  The serialised form of a pin does not depend on the order in which its metadata map is
  visited: two pins that differ only in that order have the same bytes.
\<close>

theorem ProtoMarshal_deterministic:
  assumes "mset m = mset (po_Metadata (pin_Options pin))" "wf_map m"
  shows "ProtoMarshal cd (pin\<lparr>pin_Options := (pin_Options pin)\<lparr>po_Metadata := m\<rparr>\<rparr>) = ProtoMarshal cd pin"
  using sortedMetadata_cong [OF assms] by (simp add: ProtoMarshal_def Let_def split: sum.split)

theorem ProtoMarshal_deterministic_witness:
  "ProtoMarshal example_codec (example_pin\<lparr>pin_Options := (pin_Options example_pin)
      \<lparr>po_Metadata := [(''a'', ''1''), (''b'', ''2'')]\<rparr>\<rparr>) = ProtoMarshal example_codec example_pin"
  by (rule ProtoMarshal_deterministic) (simp_all add: example_pin_def wf_map_def)

section \<open>Merging the statuses of the peers\<close>

lemma Add_PeerMap [simp]:
  "gpi_PeerMap (GlobalPinInfo_Add ps g i) = map_put (ps (pi_Peer i)) (pi_Short i) (gpi_PeerMap g)"
  by (simp add: GlobalPinInfo_Add_def Let_def)

lemma fold_Add_PeerMap:
  assumes "inj ps"
  shows "map_of (gpi_PeerMap (foldl (GlobalPinInfo_Add ps) g infos)) (ps p) =
     (case find (\<lambda>i. pi_Peer i = p) (rev infos) of
        Some i \<Rightarrow> Some (pi_Short i) | None \<Rightarrow> map_of (gpi_PeerMap g) (ps p))"
  using assms by (induction infos rule: rev_induct) (auto simp: inj_eq)

lemma find_Some_in: "find P xs = Some x \<Longrightarrow> x \<in> set xs \<and> P x"
  by (induction xs) (auto split: if_splits)

lemma fold_Add_header:
  assumes "find (\<lambda>i. \<not> TrackerStatus_Match (pi_Status i) TrackerStatusClusterError) (rev infos) = Some i"
    and "\<forall>j \<in> set infos. Cid_Defined (pi_Cid j)"
  shows "gpi_Cid (foldl (GlobalPinInfo_Add ps) g infos) = pi_Cid i \<and>
    gpi_Name (foldl (GlobalPinInfo_Add ps) g infos) = pi_Name i \<and>
    gpi_Allocations (foldl (GlobalPinInfo_Add ps) g infos) = pi_Allocations i"
  using assms
proof (induction infos rule: rev_induct)
  case (snoc j js)
  have "pi_Cid i \<noteq> CidUndef" if "find (\<lambda>i. \<not> TrackerStatus_Match (pi_Status i) TrackerStatusClusterError) (rev js) = Some i"
    using that snoc.prems(2) by (auto dest: find_Some_in)
  with snoc show ?case by (auto simp: GlobalPinInfo_Add_def Let_def split: if_splits)
qed simp

text \<open>
  Merging the answers of the peers. Whatever statuses are added to a \<open>GlobalPinInfo\<close> and in
  whatever order, the entry of a peer is the last one it reported, and a peer that did not report
  keeps the entry it had. If some status is not a cluster error, the CID, the name and the
  allocations are those of the last such status, whatever errors are added before and after it.
\<close>

theorem GlobalPinInfo_merge:
  assumes "inj ps"
  shows "map_of (gpi_PeerMap (foldl (GlobalPinInfo_Add ps) g infos)) (ps p) =
       (case find (\<lambda>i. pi_Peer i = p) (rev infos) of
          Some i \<Rightarrow> Some (pi_Short i) | None \<Rightarrow> map_of (gpi_PeerMap g) (ps p)) \<and>
     (\<forall>i. find (\<lambda>i. \<not> TrackerStatus_Match (pi_Status i) TrackerStatusClusterError) (rev infos) = Some i \<and>
          (\<forall>j \<in> set infos. Cid_Defined (pi_Cid j)) \<longrightarrow>
        gpi_Cid (foldl (GlobalPinInfo_Add ps) g infos) = pi_Cid i \<and>
        gpi_Name (foldl (GlobalPinInfo_Add ps) g infos) = pi_Name i \<and>
        gpi_Allocations (foldl (GlobalPinInfo_Add ps) g infos) = pi_Allocations i)"
  using fold_Add_PeerMap [OF assms] fold_Add_header by metis

definition example_info :: "peer_id \<Rightarrow> TrackerStatus \<Rightarrow> string \<Rightarrow> PinInfo" where
  "example_info p st name = \<lparr>pi_Cid = ''Qm'', pi_Name = name, pi_Peer = p, pi_Allocations = [''p1''],
     pi_Origins = [], pi_Created = 0, pi_Metadata = [],
     pi_Short = \<lparr>pis_PeerName = p, pis_IPFS = p, pis_IPFSAddresses = [], pis_Status = st, pis_TS = 0,
       pis_Error = [], pis_AttemptCount = 0, pis_PriorityPin = False\<rparr>\<rparr>"

theorem GlobalPinInfo_merge_witness:
  "gpi_Name (foldl (GlobalPinInfo_Add (\<lambda>p. p)) zero_GlobalPinInfo
      [example_info ''p1'' TrackerStatusPinned ''site'', example_info ''p2'' TrackerStatusClusterError []])
   = ''site''"
  using GlobalPinInfo_merge [of "\<lambda>p. p" zero_GlobalPinInfo
      "[example_info ''p1'' TrackerStatusPinned ''site'', example_info ''p2'' TrackerStatusClusterError []]"]
  by (simp add: example_info_def TrackerStatus_Match_def status_values inj_def CidUndef_def)

end
