(* ===== verification/Operation_Tracker.thy ===== *)
theory Operation_Tracker
  imports Api_Types
begin

text \<open>
  \<open>pintracker/optracker\<close>: the operations in flight on a peer, at most one per CID.

  The code hands out pointers to operations: a worker may still hold an operation that the
  tracker has replaced, and \<open>Clean\<close> compares pointers. Operations therefore live in a heap (the
  list \<open>opt_heap\<close>, a reference is an index into it) and the tracker maps CIDs to references.
  The cancellation of an operation's context is the flag \<open>op_canceled\<close>. Each method holds the
  tracker's lock, so each is one atomic function of the state; \<open>now\<close> is \<open>time.Now()\<close>.
\<close>

section \<open>Operations\<close>

datatype OperationType = OperationUnknown | OperationPin | OperationUnpin | OperationRemote | OperationShard

datatype Phase = PhaseError | PhaseQueued | PhaseInProgress | PhaseDone

record Operation =
  op_opType :: OperationType
  op_pin :: Pin
  op_phase :: Phase
  op_attemptCount :: int
  op_priority :: bool
  op_error :: string
  op_ts :: gotime
  op_canceled :: bool

type_synonym op_ref = nat

record OperationTracker =
  opt_pinningCount :: int
  opt_pinErrorCount :: int
  opt_pinQueuedCount :: int
  opt_pid :: peer_id
  opt_peerName :: string
  opt_operations :: "(cid, op_ref) gomap"
  opt_heap :: "Operation list"

definition newOperation :: "gotime \<Rightarrow> Pin \<Rightarrow> OperationType \<Rightarrow> Phase \<Rightarrow> Operation" where
  "newOperation now pin ty ph =
     \<lparr>op_opType = ty, op_pin = pin, op_phase = ph, op_attemptCount = 0, op_priority = False,
      op_error = [], op_ts = now, op_canceled = False\<rparr>"

definition op_Cid :: "Operation \<Rightarrow> cid" where
  "op_Cid op = pin_Cid (op_pin op)"

definition ToTrackerStatus :: "Operation \<Rightarrow> TrackerStatus" where
  "ToTrackerStatus op =
     (case op_opType op of
        OperationPin \<Rightarrow>
          (case op_phase op of
             PhaseError \<Rightarrow> TrackerStatusPinError
           | PhaseQueued \<Rightarrow> TrackerStatusPinQueued
           | PhaseInProgress \<Rightarrow> TrackerStatusPinning
           | PhaseDone \<Rightarrow> TrackerStatusPinned)
      | OperationUnpin \<Rightarrow>
          (case op_phase op of
             PhaseError \<Rightarrow> TrackerStatusUnpinError
           | PhaseQueued \<Rightarrow> TrackerStatusUnpinQueued
           | PhaseInProgress \<Rightarrow> TrackerStatusUnpinning
           | PhaseDone \<Rightarrow> TrackerStatusUnpinned)
      | OperationRemote \<Rightarrow> TrackerStatusRemote
      | OperationShard \<Rightarrow> TrackerStatusSharded
      | OperationUnknown \<Rightarrow> TrackerStatusUndefined)"

definition TrackerStatusToOperationPhase :: "TrackerStatus \<Rightarrow> OperationType \<times> Phase" where
  "TrackerStatusToOperationPhase status =
     (if status = TrackerStatusPinError then (OperationPin, PhaseError)
      else if status = TrackerStatusPinQueued then (OperationPin, PhaseQueued)
      else if status = TrackerStatusPinning then (OperationPin, PhaseInProgress)
      else if status = TrackerStatusPinned then (OperationPin, PhaseDone)
      else if status = TrackerStatusUnpinError then (OperationUnpin, PhaseError)
      else if status = TrackerStatusUnpinQueued then (OperationUnpin, PhaseQueued)
      else if status = TrackerStatusUnpinning then (OperationUnpin, PhaseInProgress)
      else if status = TrackerStatusUnpinned then (OperationUnpin, PhaseDone)
      else if status = TrackerStatusRemote then (OperationRemote, PhaseDone)
      else if status = TrackerStatusSharded then (OperationShard, PhaseDone)
      else (OperationUnknown, PhaseError))"

section \<open>The tracker\<close>

definition NewOperationTracker :: "peer_id \<Rightarrow> string \<Rightarrow> OperationTracker" where
  "NewOperationTracker pid peerName =
     \<lparr>opt_pinningCount = 0, opt_pinErrorCount = 0, opt_pinQueuedCount = 0, opt_pid = pid,
      opt_peerName = peerName, opt_operations = [], opt_heap = []\<rparr>"

definition op_at :: "OperationTracker \<Rightarrow> op_ref \<Rightarrow> Operation" where
  "op_at opt r = opt_heap opt ! r"

definition op_write :: "op_ref \<Rightarrow> (Operation \<Rightarrow> Operation) \<Rightarrow> OperationTracker \<Rightarrow> OperationTracker" where
  "op_write r f opt = opt\<lparr>opt_heap := (opt_heap opt)[r := f (op_at opt r)]\<rparr>"

definition recordMetricUnsafe :: "Operation \<Rightarrow> int \<Rightarrow> OperationTracker \<Rightarrow> OperationTracker" where
  "recordMetricUnsafe op val opt =
     (if op_opType op = OperationPin
      then (case op_phase op of
              PhaseError \<Rightarrow> opt\<lparr>opt_pinErrorCount := opt_pinErrorCount opt + val\<rparr>
            | PhaseQueued \<Rightarrow> opt\<lparr>opt_pinQueuedCount := opt_pinQueuedCount opt + val\<rparr>
            | PhaseInProgress \<Rightarrow> opt\<lparr>opt_pinningCount := opt_pinningCount opt + val\<rparr>
            | PhaseDone \<Rightarrow> opt)
      else opt)"

definition op_Cancel :: "op_ref \<Rightarrow> OperationTracker \<Rightarrow> OperationTracker" where
  "op_Cancel r = op_write r (\<lambda>op. op\<lparr>op_canceled := True\<rparr>)"

definition op_SetPhase :: "gotime \<Rightarrow> op_ref \<Rightarrow> Phase \<Rightarrow> OperationTracker \<Rightarrow> OperationTracker" where
  "op_SetPhase now r ph opt =
     (let opt1 = recordMetricUnsafe (op_at opt r) (-1) opt;
          opt2 = op_write r (\<lambda>op. op\<lparr>op_phase := ph, op_ts := now\<rparr>) opt1
      in recordMetricUnsafe (op_at opt2 r) 1 opt2)"

definition op_SetError :: "gotime \<Rightarrow> op_ref \<Rightarrow> string \<Rightarrow> OperationTracker \<Rightarrow> OperationTracker" where
  "op_SetError now r err opt =
     (let opt1 = recordMetricUnsafe (op_at opt r) (-1) opt;
          opt2 = op_write r (\<lambda>op. op\<lparr>op_phase := PhaseError, op_error := err, op_ts := now\<rparr>) opt1
      in recordMetricUnsafe (op_at opt2 r) 1 opt2)"

definition op_IncAttempt :: "op_ref \<Rightarrow> OperationTracker \<Rightarrow> OperationTracker" where
  "op_IncAttempt r = op_write r (\<lambda>op. op\<lparr>op_attemptCount := op_attemptCount op + 1\<rparr>)"

definition op_SetPriorityPin :: "op_ref \<Rightarrow> bool \<Rightarrow> OperationTracker \<Rightarrow> OperationTracker" where
  "op_SetPriorityPin r p = op_write r (\<lambda>op. op\<lparr>op_priority := p\<rparr>)"

text \<open>The same operation is already under way.\<close>

definition ongoing :: "OperationType \<Rightarrow> Operation \<Rightarrow> bool" where
  "ongoing ty op \<longleftrightarrow> op_opType op = ty \<and> op_phase op \<noteq> PhaseError \<and> op_phase op \<noteq> PhaseDone"

definition TrackNewOperation ::
  "gotime \<Rightarrow> Pin \<Rightarrow> OperationType \<Rightarrow> Phase \<Rightarrow> OperationTracker \<Rightarrow> op_ref option \<times> OperationTracker" where
  "TrackNewOperation now pin ty ph opt =
     (let install = (\<lambda>attempts opt1.
            let r2 = length (opt_heap opt1);
                op2 = (newOperation now pin ty ph)\<lparr>op_attemptCount := attempts\<rparr>;
                opt2 = opt1\<lparr>opt_heap := opt_heap opt1 @ [op2],
                            opt_operations := map_put (pin_Cid pin) r2 (opt_operations opt1)\<rparr>
            in (Some r2, recordMetricUnsafe op2 1 opt2))
      in case map_of (opt_operations opt) (pin_Cid pin) of
           Some r \<Rightarrow>
             let op = op_at opt r in
             if ongoing ty op then (None, op_write r (\<lambda>op. op\<lparr>op_pin := pin\<rparr>) opt)
             else let opt1 = op_Cancel r (recordMetricUnsafe op (-1) opt)
                  in install (if op_opType op = ty then op_attemptCount op else 0) opt1
         | None \<Rightarrow> install 0 opt)"

definition Clean :: "op_ref \<Rightarrow> OperationTracker \<Rightarrow> OperationTracker" where
  "Clean r opt =
     (let c = op_Cid (op_at opt r)
      in if map_of (opt_operations opt) c = Some r
         then opt\<lparr>opt_operations := map_delete c (opt_operations opt)\<rparr>
         else opt)"

definition opt_Status :: "OperationTracker \<Rightarrow> cid \<Rightarrow> TrackerStatus \<times> bool" where
  "opt_Status opt c =
     (case map_of (opt_operations opt) c of
        None \<Rightarrow> (0, False)
      | Some r \<Rightarrow> (ToTrackerStatus (op_at opt r), True))"

definition opt_SetError :: "gotime \<Rightarrow> cid \<Rightarrow> string \<Rightarrow> OperationTracker \<Rightarrow> OperationTracker" where
  "opt_SetError now c err opt =
     (case map_of (opt_operations opt) c of
        None \<Rightarrow> opt
      | Some r \<Rightarrow>
          let op = op_at opt r in
          if op_opType op = OperationRemote then opt
          else if op_phase op = PhaseDone \<or> op_phase op = PhaseError
               then op_SetError now r err (op_SetPhase now r PhaseError opt)
               else opt)"

record IPFSID =
  ipfs_ID :: peer_id
  ipfs_Addresses :: "multiaddr list"

definition unsafePinInfo :: "gotime \<Rightarrow> OperationTracker \<Rightarrow> Operation option \<Rightarrow> IPFSID \<Rightarrow> PinInfo" where
  "unsafePinInfo now opt mop ipfs =
     (case mop of
        None \<Rightarrow>
          \<lparr>pi_Cid = CidUndef, pi_Name = [], pi_Peer = opt_pid opt, pi_Allocations = [], pi_Origins = [],
           pi_Created = zero_time, pi_Metadata = [],
           pi_Short = \<lparr>pis_PeerName = opt_peerName opt, pis_IPFS = [], pis_IPFSAddresses = [],
             pis_Status = TrackerStatusUnpinned, pis_TS = now, pis_Error = [], pis_AttemptCount = 0,
             pis_PriorityPin = False\<rparr>\<rparr>
      | Some op \<Rightarrow>
          \<lparr>pi_Cid = op_Cid op, pi_Name = po_Name (pin_Options (op_pin op)), pi_Peer = opt_pid opt,
           pi_Allocations = pin_Allocations (op_pin op), pi_Origins = po_Origins (pin_Options (op_pin op)),
           pi_Created = pin_Timestamp (op_pin op), pi_Metadata = po_Metadata (pin_Options (op_pin op)),
           pi_Short = \<lparr>pis_PeerName = opt_peerName opt, pis_IPFS = ipfs_ID ipfs,
             pis_IPFSAddresses = ipfs_Addresses ipfs, pis_Status = ToTrackerStatus op, pis_TS = op_ts op,
             pis_Error = op_error op, pis_AttemptCount = op_attemptCount op,
             pis_PriorityPin = op_priority op\<rparr>\<rparr>)"

text \<open>The operation the tracker holds for a CID.\<close>

definition tracked :: "OperationTracker \<Rightarrow> cid \<Rightarrow> Operation option" where
  "tracked opt c = map_option (op_at opt) (map_of (opt_operations opt) c)"

definition opt_Get :: "gotime \<Rightarrow> OperationTracker \<Rightarrow> cid \<Rightarrow> IPFSID \<Rightarrow> PinInfo" where
  "opt_Get now opt c ipfs =
     (let pInfo = unsafePinInfo now opt (tracked opt c) ipfs
      in if \<not> Cid_Defined (pi_Cid pInfo) then pInfo\<lparr>pi_Cid := c\<rparr> else pInfo)"

definition opt_GetExists :: "gotime \<Rightarrow> OperationTracker \<Rightarrow> cid \<Rightarrow> IPFSID \<Rightarrow> PinInfo option" where
  "opt_GetExists now opt c ipfs =
     (case map_of (opt_operations opt) c of
        None \<Rightarrow> None
      | Some r \<Rightarrow> Some (unsafePinInfo now opt (Some (op_at opt r)) ipfs))"

text \<open>What \<open>GetAllChannel\<close> sends when its context is not cancelled, in the order it sends it.\<close>

definition GetAllChannel :: "gotime \<Rightarrow> OperationTracker \<Rightarrow> TrackerStatus \<Rightarrow> IPFSID \<Rightarrow> PinInfo list" where
  "GetAllChannel now opt flt ipfs =
     filter (\<lambda>pinfo. TrackerStatus_Match (pi_Status pinfo) flt)
       (map (\<lambda>(c, r). unsafePinInfo now opt (Some (op_at opt r)) ipfs) (opt_operations opt))"

definition opt_GetAll :: "gotime \<Rightarrow> OperationTracker \<Rightarrow> IPFSID \<Rightarrow> PinInfo list" where
  "opt_GetAll now opt ipfs = GetAllChannel now opt TrackerStatusUndefined ipfs"

definition CleanAllDone :: "OperationTracker \<Rightarrow> OperationTracker" where
  "CleanAllDone opt =
     foldl (\<lambda>opt' (c, r). if op_phase (op_at opt' r) = PhaseDone
                          then opt'\<lparr>opt_operations := map_delete (op_Cid (op_at opt' r)) (opt_operations opt')\<rparr>
                          else opt')
       opt (opt_operations opt)"

datatype op_filter = FilterType OperationType | FilterPhase Phase

definition opt_filter :: "OperationTracker \<Rightarrow> (cid, op_ref) gomap \<Rightarrow> op_filter \<Rightarrow> (cid, op_ref) gomap" where
  "opt_filter opt inm flt =
     foldl (\<lambda>out (c, r).
       if (case flt of FilterType t \<Rightarrow> op_opType (op_at opt r) = t
                     | FilterPhase p \<Rightarrow> op_phase (op_at opt r) = p)
       then map_put (op_Cid (op_at opt r)) r out else out) [] inm"

fun filterOpsMap :: "OperationTracker \<Rightarrow> (cid, op_ref) gomap \<Rightarrow> op_filter list \<Rightarrow> (cid, op_ref) gomap" where
  "filterOpsMap opt ops [] = []"
| "filterOpsMap opt ops [f] = opt_filter opt ops f"
| "filterOpsMap opt ops (f # g # fs) = filterOpsMap opt (opt_filter opt ops f) (g # fs)"

definition opt_Filter :: "gotime \<Rightarrow> OperationTracker \<Rightarrow> IPFSID \<Rightarrow> op_filter list \<Rightarrow> PinInfo list" where
  "opt_Filter now opt ipfs filters =
     map (\<lambda>(c, r). unsafePinInfo now opt (Some (op_at opt r)) ipfs)
       (filterOpsMap opt (opt_operations opt) filters)"

definition PinQueueSize :: "OperationTracker \<Rightarrow> int" where
  "PinQueueSize opt = opt_pinQueuedCount opt"

section \<open>Well-formedness and the abstract view\<close>

definition wf_opt :: "OperationTracker \<Rightarrow> bool" where
  "wf_opt opt \<longleftrightarrow>
     wf_map (opt_operations opt) \<and>
     list_all (\<lambda>(c, r). r < length (opt_heap opt) \<and> op_Cid (op_at opt r) = c) (opt_operations opt)"

definition tracked_refs :: "OperationTracker \<Rightarrow> op_ref set" where
  "tracked_refs opt = snd ` set (opt_operations opt)"

lemma wf_optD:
  assumes "wf_opt opt" "map_of (opt_operations opt) c = Some r"
  shows "r < length (opt_heap opt) \<and> op_Cid (op_at opt r) = c"
  using assms by (auto simp: wf_opt_def list_all_iff map_of_in_set)

lemma wf_opt_iff:
  "wf_opt opt \<longleftrightarrow> wf_map (opt_operations opt) \<and>
     (\<forall>c r. map_of (opt_operations opt) c = Some r \<longrightarrow> r < length (opt_heap opt) \<and> op_Cid (op_at opt r) = c)"
  by (auto simp: wf_opt_def list_all_iff map_of_in_set)

lemma tracked_refs_iff:
  "wf_opt opt \<Longrightarrow> r \<in> tracked_refs opt \<longleftrightarrow>
     map_of (opt_operations opt) (op_Cid (op_at opt r)) = Some r"
  by (force simp: tracked_refs_def wf_opt_def list_all_iff map_of_in_set)

lemma tracked_refs_mapI: "map_of (opt_operations opt) c = Some r \<Longrightarrow> r \<in> tracked_refs opt"
  by (force simp: tracked_refs_def dest: map_of_SomeD)

lemma wf_NewOperationTracker: "wf_opt (NewOperationTracker pid name)"
  by (simp add: wf_opt_def NewOperationTracker_def)

lemma recordMetric_simps [simp]:
  "opt_heap (recordMetricUnsafe op v opt) = opt_heap opt"
  "opt_operations (recordMetricUnsafe op v opt) = opt_operations opt"
  "op_at (recordMetricUnsafe op v opt) = op_at opt"
  "tracked (recordMetricUnsafe op v opt) = tracked opt"
  "tracked_refs (recordMetricUnsafe op v opt) = tracked_refs opt"
  "wf_opt (recordMetricUnsafe op v opt) = wf_opt opt"
  by (auto simp: recordMetricUnsafe_def op_at_def [abs_def] tracked_def [abs_def] tracked_refs_def wf_opt_def
      split: Phase.splits)

lemma op_write_simps [simp]:
  "opt_operations (op_write r f opt) = opt_operations opt"
  "length (opt_heap (op_write r f opt)) = length (opt_heap opt)"
  "tracked_refs (op_write r f opt) = tracked_refs opt"
  by (simp_all add: op_write_def tracked_refs_def)

lemma op_at_write [simp]:
  "r < length (opt_heap opt) \<Longrightarrow> op_at (op_write r f opt) r' = (if r' = r then f (op_at opt r) else op_at opt r')"
  by (auto simp: op_write_def op_at_def)

lemma wf_opt_write:
  assumes "wf_opt opt" "r < length (opt_heap opt)" "op_Cid (f (op_at opt r)) = op_Cid (op_at opt r)"
  shows "wf_opt (op_write r f opt)"
  using assms by (auto simp: wf_opt_iff)

lemma tracked_write:
  assumes "wf_opt opt" "r < length (opt_heap opt)"
  shows "tracked (op_write r f opt) =
    (if r \<in> tracked_refs opt then (tracked opt)(op_Cid (op_at opt r) \<mapsto> f (op_at opt r)) else tracked opt)"
proof (rule ext)
  fix c
  note refs = tracked_refs_iff [OF assms(1), of r]
  show "tracked (op_write r f opt) c =
    (if r \<in> tracked_refs opt then (tracked opt)(op_Cid (op_at opt r) \<mapsto> f (op_at opt r)) else tracked opt) c"
  proof (cases "map_of (opt_operations opt) c")
    case None
    then have "r \<in> tracked_refs opt \<Longrightarrow> c \<noteq> op_Cid (op_at opt r)" using refs by auto
    with None show ?thesis by (simp add: tracked_def)
  next
    case (Some r')
    show ?thesis
    proof (cases "r' = r")
      case True
      with Some have "op_Cid (op_at opt r) = c" "r \<in> tracked_refs opt"
        using wf_optD [OF assms(1)] refs by auto
      with Some True assms(2) show ?thesis by (simp add: tracked_def)
    next
      case False
      with Some have "r \<in> tracked_refs opt \<Longrightarrow> c \<noteq> op_Cid (op_at opt r)" using refs by auto
      with Some False assms(2) show ?thesis by (simp add: tracked_def)
    qed
  qed
qed

lemma tracked_current:
  "wf_opt opt \<Longrightarrow> r \<in> tracked_refs opt \<Longrightarrow> tracked opt (op_Cid (op_at opt r)) = Some (op_at opt r)"
  by (simp add: tracked_refs_iff tracked_def)

section \<open>Counters\<close>

text \<open>
  The three counters are exported as metrics (and \<open>pinQueuedCount\<close> is the queue size that the
  allocator uses). \<open>phw ph\<close> is 1 for a pin operation in phase \<open>ph\<close>; \<open>phase_count\<close> counts the
  tracked ones. An operation that is no longer tracked but still changes phase makes a counter
  drift: \<open>counters d\<close> says that the in-progress counter is \<open>d\<close> below the true number and the
  other two are exact.
\<close>

definition phw :: "Phase \<Rightarrow> Operation option \<Rightarrow> int" where
  "phw ph mop = (case mop of Some op \<Rightarrow> if op_opType op = OperationPin \<and> op_phase op = ph then 1 else 0 | None \<Rightarrow> 0)"

definition phase_count :: "Phase \<Rightarrow> (cid \<rightharpoonup> Operation) \<Rightarrow> int" where
  "phase_count ph m = int (card {c. phw ph (m c) = 1})"

fun counter :: "Phase \<Rightarrow> OperationTracker \<Rightarrow> int" where
  "counter PhaseError opt = opt_pinErrorCount opt"
| "counter PhaseQueued opt = opt_pinQueuedCount opt"
| "counter PhaseInProgress opt = opt_pinningCount opt"
| "counter PhaseDone opt = 0"

definition counters :: "int \<Rightarrow> OperationTracker \<Rightarrow> bool" where
  "counters d opt \<longleftrightarrow>
     (\<forall>ph \<in> {PhaseError, PhaseQueued, PhaseInProgress}.
        counter ph opt = phase_count ph (tracked opt) - (if ph = PhaseInProgress then d else 0))"

lemma phw_cases: "phw ph mop = 0 \<or> phw ph mop = 1"
  by (auto simp: phw_def split: option.splits)

lemma finite_tracked: "finite {c. phw ph (tracked opt c) = 1}"
proof (rule finite_subset)
  show "{c. phw ph (tracked opt c) = 1} \<subseteq> dom (map_of (opt_operations opt))"
    by (auto simp: phw_def tracked_def split: option.splits)
qed (simp add: finite_dom_map_of)

lemma phase_count_upd:
  assumes "finite {c. phw ph (m c) = 1}"
  shows "phase_count ph (m(c := x)) = phase_count ph m - phw ph (m c) + phw ph x"
proof -
  let ?S = "{c. phw ph (m c) = 1}"
  have "{c'. phw ph ((m(c := x)) c') = 1} = (if phw ph x = 1 then insert c ?S else ?S - {c})"
    by auto
  moreover have "c \<in> ?S \<longleftrightarrow> phw ph (m c) = 1" by simp
  moreover have "c \<in> ?S \<Longrightarrow> 1 \<le> card ?S"
    using assms by (metis One_nat_def Suc_leI card_gt_0_iff empty_iff)
  ultimately show ?thesis
    using assms phw_cases [of ph "m c"] phw_cases [of ph x]
    by (auto simp: phase_count_def card_insert_if)
qed

lemma counter_recordMetric:
  "ph \<noteq> PhaseDone \<Longrightarrow> counter ph (recordMetricUnsafe op v opt) = counter ph opt + v * phw ph (Some op)"
  by (cases ph; cases "op_phase op") (auto simp: recordMetricUnsafe_def phw_def)

lemma counter_write [simp]:
  "counter ph (op_write r f opt) = counter ph opt"
  by (cases ph) (simp_all add: op_write_def)

lemma counters_New: "counters 0 (NewOperationTracker pid name)"
  by (auto simp: counters_def NewOperationTracker_def phase_count_def tracked_def phw_def)

declare counter.simps [simp del]

text \<open>Writing to an operation without changing its type or its phase.\<close>

lemma counters_write:
  assumes "wf_opt opt" "r < length (opt_heap opt)"
    and "\<And>ph. phw ph (Some (f (op_at opt r))) = phw ph (Some (op_at opt r))"
    and "op_Cid (f (op_at opt r)) = op_Cid (op_at opt r)"
  shows "counters d (op_write r f opt) = counters d opt"
proof -
  have "phase_count ph (tracked (op_write r f opt)) = phase_count ph (tracked opt)" for ph
    using assms by (simp add: tracked_write phase_count_upd [OF finite_tracked] tracked_current)
  then show ?thesis by (simp add: counters_def)
qed

text \<open>
  A phase change of an operation (\<open>SetPhase\<close> and \<open>SetError\<close>): on the tracked operation the
  counters follow; on one that has been replaced, a pin operation in progress that finishes is
  subtracted a second time.
\<close>

definition phase_write :: "op_ref \<Rightarrow> (Operation \<Rightarrow> Operation) \<Rightarrow> OperationTracker \<Rightarrow> OperationTracker" where
  "phase_write r f opt =
     recordMetricUnsafe (f (op_at opt r)) 1 (op_write r f (recordMetricUnsafe (op_at opt r) (-1) opt))"

lemma SetPhase_eq:
  "r < length (opt_heap opt) \<Longrightarrow>
     op_SetPhase now r ph opt = phase_write r (\<lambda>op. op\<lparr>op_phase := ph, op_ts := now\<rparr>) opt"
  by (simp add: op_SetPhase_def phase_write_def Let_def)

lemma SetError_eq:
  "r < length (opt_heap opt) \<Longrightarrow>
     op_SetError now r err opt = phase_write r (\<lambda>op. op\<lparr>op_phase := PhaseError, op_error := err, op_ts := now\<rparr>) opt"
  by (simp add: op_SetError_def phase_write_def Let_def)

lemma phase_write_simps [simp]:
  "opt_operations (phase_write r f opt) = opt_operations opt"
  "length (opt_heap (phase_write r f opt)) = length (opt_heap opt)"
  "tracked_refs (phase_write r f opt) = tracked_refs opt"
  "r < length (opt_heap opt) \<Longrightarrow> op_at (phase_write r f opt) r' = (if r' = r then f (op_at opt r) else op_at opt r')"
  by (simp_all add: phase_write_def)

lemma wf_phase_write:
  assumes "wf_opt opt" "r < length (opt_heap opt)" "op_Cid (f (op_at opt r)) = op_Cid (op_at opt r)"
  shows "wf_opt (phase_write r f opt)"
  using assms by (simp add: phase_write_def wf_opt_write)

lemma counters_phase_write:
  assumes wf: "wf_opt opt" and r: "r < length (opt_heap opt)"
    and cid: "op_Cid (f (op_at opt r)) = op_Cid (op_at opt r)" and c: "counters d opt"
  shows "r \<in> tracked_refs opt \<Longrightarrow> counters d (phase_write r f opt)"
    and "r \<notin> tracked_refs opt \<Longrightarrow> op_opType (op_at opt r) = OperationPin \<Longrightarrow>
          op_opType (f (op_at opt r)) = OperationPin \<Longrightarrow>
          op_phase (op_at opt r) = PhaseInProgress \<Longrightarrow> op_phase (f (op_at opt r)) = PhaseDone \<Longrightarrow>
          counters (d + 1) (phase_write r f opt)"
    and "r \<notin> tracked_refs opt \<Longrightarrow> op_opType (op_at opt r) \<noteq> OperationPin \<Longrightarrow>
          op_opType (f (op_at opt r)) \<noteq> OperationPin \<Longrightarrow> counters d (phase_write r f opt)"
proof -
  have cnt: "counter ph (phase_write r f opt) =
      counter ph opt - phw ph (Some (op_at opt r)) + phw ph (Some (f (op_at opt r)))" if "ph \<noteq> PhaseDone" for ph
    using that by (simp add: phase_write_def counter_recordMetric)
  have tr: "tracked (phase_write r f opt) =
      (if r \<in> tracked_refs opt then (tracked opt)(op_Cid (op_at opt r) \<mapsto> f (op_at opt r)) else tracked opt)"
    using wf r by (simp add: phase_write_def tracked_write)
  show "r \<in> tracked_refs opt \<Longrightarrow> counters d (phase_write r f opt)"
    using c wf by (simp add: counters_def cnt tr phase_count_upd [OF finite_tracked] tracked_current)
  show "counters (d + 1) (phase_write r f opt)"
    if "r \<notin> tracked_refs opt" "op_opType (op_at opt r) = OperationPin"
      "op_opType (f (op_at opt r)) = OperationPin"
      "op_phase (op_at opt r) = PhaseInProgress" "op_phase (f (op_at opt r)) = PhaseDone"
    using c that by (simp add: counters_def cnt tr phw_def)
  show "counters d (phase_write r f opt)"
    if "r \<notin> tracked_refs opt" "op_opType (op_at opt r) \<noteq> OperationPin"
      "op_opType (f (op_at opt r)) \<noteq> OperationPin"
    using c that by (simp add: counters_def cnt tr phw_def)
qed

section \<open>Tracking an operation\<close>

definition install :: "Operation \<Rightarrow> OperationTracker \<Rightarrow> OperationTracker" where
  "install op2 opt =
     recordMetricUnsafe op2 1
       (opt\<lparr>opt_heap := opt_heap opt @ [op2],
            opt_operations := map_put (op_Cid op2) (length (opt_heap opt)) (opt_operations opt)\<rparr>)"

definition replaced :: "op_ref \<Rightarrow> OperationTracker \<Rightarrow> OperationTracker" where
  "replaced r opt = op_Cancel r (recordMetricUnsafe (op_at opt r) (-1) opt)"

definition new_op :: "gotime \<Rightarrow> Pin \<Rightarrow> OperationType \<Rightarrow> Phase \<Rightarrow> Operation option \<Rightarrow> Operation" where
  "new_op now pin ty ph old =
     (newOperation now pin ty ph)\<lparr>op_attemptCount :=
        (case old of Some op \<Rightarrow> if op_opType op = ty then op_attemptCount op else 0 | None \<Rightarrow> 0)\<rparr>"

lemma op_Cid_new_op [simp]: "op_Cid (new_op now pin ty ph old) = pin_Cid pin"
  by (simp add: new_op_def newOperation_def op_Cid_def)

lemma TrackNew_ongoing:
  assumes "map_of (opt_operations opt) (pin_Cid pin) = Some r" "ongoing ty (op_at opt r)"
  shows "TrackNewOperation now pin ty ph opt = (None, op_write r (\<lambda>op. op\<lparr>op_pin := pin\<rparr>) opt)"
  using assms by (simp add: TrackNewOperation_def Let_def)

lemma TrackNew_replace:
  assumes "map_of (opt_operations opt) (pin_Cid pin) = Some r" "\<not> ongoing ty (op_at opt r)"
  shows "TrackNewOperation now pin ty ph opt =
    (Some (length (opt_heap opt)), install (new_op now pin ty ph (Some (op_at opt r))) (replaced r opt))"
  using assms op_Cid_new_op [of now pin ty ph "Some (op_at opt r)"]
  by (simp add: TrackNewOperation_def Let_def install_def replaced_def op_Cancel_def new_op_def)

lemma TrackNew_fresh:
  assumes "map_of (opt_operations opt) (pin_Cid pin) = None"
  shows "TrackNewOperation now pin ty ph opt =
    (Some (length (opt_heap opt)), install (new_op now pin ty ph None) opt)"
  using assms op_Cid_new_op [of now pin ty ph None]
  by (simp add: TrackNewOperation_def Let_def install_def new_op_def)

lemma TrackNew_cases [case_names ongoing replace fresh]:
  obtains r where "map_of (opt_operations opt) (pin_Cid pin) = Some r" "ongoing ty (op_at opt r)"
      "TrackNewOperation now pin ty ph opt = (None, op_write r (\<lambda>op. op\<lparr>op_pin := pin\<rparr>) opt)"
  | r where "map_of (opt_operations opt) (pin_Cid pin) = Some r" "\<not> ongoing ty (op_at opt r)"
      "TrackNewOperation now pin ty ph opt =
        (Some (length (opt_heap opt)), install (new_op now pin ty ph (Some (op_at opt r))) (replaced r opt))"
  | "map_of (opt_operations opt) (pin_Cid pin) = None"
      "TrackNewOperation now pin ty ph opt =
        (Some (length (opt_heap opt)), install (new_op now pin ty ph None) opt)"
  using TrackNew_ongoing TrackNew_replace TrackNew_fresh
  by (cases "map_of (opt_operations opt) (pin_Cid pin)") metis+

lemma op_at_install:
  "r < length (opt_heap opt) \<Longrightarrow> op_at (install op2 opt) r = op_at opt r"
  "op_at (install op2 opt) (length (opt_heap opt)) = op2"
  by (simp_all add: install_def op_at_def nth_append)

lemma install_simps [simp]:
  "opt_operations (install op2 opt) = map_put (op_Cid op2) (length (opt_heap opt)) (opt_operations opt)"
  "length (opt_heap (install op2 opt)) = Suc (length (opt_heap opt))"
  by (simp_all add: install_def)

lemma wf_install: "wf_opt opt \<Longrightarrow> wf_opt (install op2 opt)"
  by (auto simp: wf_opt_iff op_at_install less_Suc_eq split: if_splits)

lemma tracked_install:
  assumes "wf_opt opt"
  shows "tracked (install op2 opt) = (tracked opt)(op_Cid op2 \<mapsto> op2)"
proof (rule ext)
  fix c
  show "tracked (install op2 opt) c = ((tracked opt)(op_Cid op2 \<mapsto> op2)) c"
    using wf_optD [OF assms, of c]
    by (cases "map_of (opt_operations opt) c") (auto simp: tracked_def op_at_install)
qed

lemma replaced_simps [simp]:
  "opt_operations (replaced r opt) = opt_operations opt"
  "length (opt_heap (replaced r opt)) = length (opt_heap opt)"
  "r < length (opt_heap opt) \<Longrightarrow> op_at (replaced r opt) r' =
     (if r' = r then (op_at opt r)\<lparr>op_canceled := True\<rparr> else op_at opt r')"
  by (simp_all add: replaced_def op_Cancel_def)

lemma op_Cid_upd [simp]:
  "op_Cid (op\<lparr>op_canceled := b\<rparr>) = op_Cid op" "op_Cid (op\<lparr>op_phase := ph\<rparr>) = op_Cid op"
  "op_Cid (op\<lparr>op_ts := t\<rparr>) = op_Cid op" "op_Cid (op\<lparr>op_error := e\<rparr>) = op_Cid op"
  "op_Cid (op\<lparr>op_attemptCount := n\<rparr>) = op_Cid op" "op_Cid (op\<lparr>op_priority := b\<rparr>) = op_Cid op"
  "op_Cid (op\<lparr>op_pin := p\<rparr>) = pin_Cid p"
  by (simp_all add: op_Cid_def)

lemma wf_replaced: "wf_opt opt \<Longrightarrow> r < length (opt_heap opt) \<Longrightarrow> wf_opt (replaced r opt)"
  by (simp add: replaced_def op_Cancel_def wf_opt_write)

definition track_result :: "gotime \<Rightarrow> Pin \<Rightarrow> OperationType \<Rightarrow> Phase \<Rightarrow> Operation option \<Rightarrow> Operation" where
  "track_result now pin ty ph old =
     (case old of
        Some op \<Rightarrow> if ongoing ty op then op\<lparr>op_pin := pin\<rparr> else new_op now pin ty ph old
      | None \<Rightarrow> new_op now pin ty ph None)"

lemma counter_upd [simp]:
  "counter ph (opt\<lparr>opt_operations := m\<rparr>) = counter ph opt"
  "counter ph (opt\<lparr>opt_heap := h\<rparr>) = counter ph opt"
  by (cases ph; simp add: counter.simps)+

lemma counter_install:
  "ph \<noteq> PhaseDone \<Longrightarrow> counter ph (install op2 opt) = counter ph opt + phw ph (Some op2)"
  by (simp add: install_def counter_recordMetric)

lemma counters_replaced_install:
  assumes wf: "wf_opt opt" and c: "counters d opt" and r: "map_of (opt_operations opt) (op_Cid op2) = Some r"
  shows "counters d (install op2 (replaced r opt))"
proof -
  have rr: "r < length (opt_heap opt)" "op_Cid (op_at opt r) = op_Cid op2" using wf_optD [OF wf r] by auto
  have tr: "tracked (install op2 (replaced r opt)) = (tracked opt)(op_Cid op2 \<mapsto> op2)"
    using wf rr tracked_refs_mapI [OF r]
    by (simp add: tracked_install wf_replaced) (simp add: replaced_def op_Cancel_def tracked_write rr)
  have cnt: "counter ph (install op2 (replaced r opt)) =
      counter ph opt - phw ph (Some (op_at opt r)) + phw ph (Some op2)" if "ph \<noteq> PhaseDone" for ph
    using that by (simp add: counter_install replaced_def op_Cancel_def counter_recordMetric)
  have "tracked opt (op_Cid op2) = Some (op_at opt r)" using r by (simp add: tracked_def)
  with c show ?thesis
    by (simp add: counters_def cnt tr phase_count_upd [OF finite_tracked])
qed

lemma counters_install_fresh:
  assumes wf: "wf_opt opt" and c: "counters d opt" and n: "map_of (opt_operations opt) (op_Cid op2) = None"
  shows "counters d (install op2 opt)"
proof -
  have "tracked opt (op_Cid op2) = None" using n by (simp add: tracked_def)
  with c wf show ?thesis
    by (simp add: counters_def counter_install tracked_install phase_count_upd [OF finite_tracked]) (simp add: phw_def)
qed

lemma TrackNew_wf:
  assumes "wf_opt opt"
  shows "wf_opt (snd (TrackNewOperation now pin ty ph opt))"
proof (cases rule: TrackNew_cases [where opt = opt and pin = pin and ty = ty and now = now and ph = ph])
  case (ongoing r)
  with assms wf_optD [OF assms ongoing(1)] show ?thesis by (simp add: wf_opt_write)
next
  case (replace r)
  with assms wf_optD [OF assms replace(1)] show ?thesis by (simp add: wf_install wf_replaced)
next
  case fresh
  with assms show ?thesis by (simp add: wf_install)
qed

lemma TrackNew_counters:
  assumes "wf_opt opt" "counters d opt"
  shows "counters d (snd (TrackNewOperation now pin ty ph opt))"
proof (cases rule: TrackNew_cases [where opt = opt and pin = pin and ty = ty and now = now and ph = ph])
  case (ongoing r)
  with assms wf_optD [OF assms(1) ongoing(1)] show ?thesis by (simp add: counters_write phw_def)
next
  case (replace r)
  with assms show ?thesis by (simp add: counters_replaced_install)
next
  case fresh
  with assms show ?thesis by (simp add: counters_install_fresh)
qed

lemma TrackNew_tracked:
  assumes wf: "wf_opt opt"
  shows "tracked (snd (TrackNewOperation now pin ty ph opt)) =
    (tracked opt)(pin_Cid pin \<mapsto> track_result now pin ty ph (tracked opt (pin_Cid pin)))"
proof (cases rule: TrackNew_cases [where opt = opt and pin = pin and ty = ty and now = now and ph = ph])
  case (ongoing r)
  then have "tracked opt (pin_Cid pin) = Some (op_at opt r)" by (simp add: tracked_def)
  with wf wf_optD [OF wf ongoing(1)] tracked_refs_mapI [OF ongoing(1)] ongoing(2,3) show ?thesis
    by (simp add: tracked_write track_result_def)
next
  case (replace r)
  then have "tracked opt (pin_Cid pin) = Some (op_at opt r)" by (simp add: tracked_def)
  moreover have "tracked (replaced r opt) = (tracked opt)(pin_Cid pin \<mapsto> (op_at opt r)\<lparr>op_canceled := True\<rparr>)"
    using wf wf_optD [OF wf replace(1)] tracked_refs_mapI [OF replace(1)]
    by (simp add: replaced_def op_Cancel_def tracked_write)
  ultimately show ?thesis using wf wf_optD [OF wf replace(1)] replace(2,3)
    by (simp add: tracked_install wf_replaced track_result_def)
next
  case fresh
  then have "tracked opt (pin_Cid pin) = None" by (simp add: tracked_def)
  with wf fresh(2) show ?thesis by (simp add: tracked_install track_result_def)
qed

lemma TrackNew_fst:
  "fst (TrackNewOperation now pin ty ph opt) =
     (case tracked opt (pin_Cid pin) of
        Some op \<Rightarrow> if ongoing ty op then None else Some (length (opt_heap opt))
      | None \<Rightarrow> Some (length (opt_heap opt)))"
  by (cases rule: TrackNew_cases [where opt = opt and pin = pin and ty = ty and now = now and ph = ph]) (auto simp: tracked_def)

section \<open>Removing operations\<close>

lemma Clean_simps [simp]:
  "opt_heap (Clean r opt) = opt_heap opt" "op_at (Clean r opt) = op_at opt"
  "counter ph (Clean r opt) = counter ph opt"
  by (simp_all add: Clean_def Let_def op_at_def [abs_def])

lemma Clean_operations:
  "map_of (opt_operations (Clean r opt)) =
     (if map_of (opt_operations opt) (op_Cid (op_at opt r)) = Some r
      then (map_of (opt_operations opt))(op_Cid (op_at opt r) := None) else map_of (opt_operations opt))"
  "wf_map (opt_operations opt) \<Longrightarrow> wf_map (opt_operations (Clean r opt))"
  by (simp_all add: Clean_def Let_def)

lemma wf_Clean:
  assumes "wf_opt opt"
  shows "wf_opt (Clean r opt)"
proof -
  have "map_of (opt_operations opt) c = Some r'" if "map_of (opt_operations (Clean r opt)) c = Some r'" for c r'
    using that unfolding Clean_operations(1) by (simp split: if_splits)
  then show ?thesis using assms unfolding wf_opt_iff by (simp add: Clean_operations(2)) blast
qed

lemma Clean_tracked:
  assumes "wf_opt opt"
  shows "tracked (Clean r opt) =
    (if r \<in> tracked_refs opt then (tracked opt)(op_Cid (op_at opt r) := None) else tracked opt)"
  unfolding tracked_refs_iff [OF assms] by (rule ext) (simp add: tracked_def Clean_operations)

lemma counters_Clean:
  assumes "wf_opt opt" "counters d opt"
    and "r \<in> tracked_refs opt \<Longrightarrow> op_phase (op_at opt r) = PhaseDone \<or> op_opType (op_at opt r) \<noteq> OperationPin"
  shows "counters d (Clean r opt)"
proof (cases "r \<in> tracked_refs opt")
  case True
  with assms have "phw ph (Some (op_at opt r)) = 0" if "ph \<noteq> PhaseDone" for ph
    using that by (auto simp: phw_def)
  with assms True show ?thesis
    by (simp add: counters_def Clean_tracked phase_count_upd [OF finite_tracked] tracked_current) (simp add: phw_def)
next
  case False
  with assms show ?thesis by (simp add: counters_def Clean_tracked)
qed

lemma op_at_operations [simp]: "op_at (opt\<lparr>opt_operations := m\<rparr>) = op_at opt"
  by (simp add: op_at_def [abs_def])

lemma CleanAllDone_fold:
  "foldl (\<lambda>opt' (c, r). if op_phase (op_at opt' r) = PhaseDone
      then opt'\<lparr>opt_operations := map_delete (op_Cid (op_at opt' r)) (opt_operations opt')\<rparr> else opt') opt xs =
   opt\<lparr>opt_operations := filter (\<lambda>(c', r'). \<forall>(c, r) \<in> set xs.
      op_phase (op_at opt r) = PhaseDone \<longrightarrow> c' \<noteq> op_Cid (op_at opt r)) (opt_operations opt)\<rparr>"
proof (induction xs arbitrary: opt)
  case (Cons x xs)
  obtain c r where x: "x = (c, r)" by fastforce
  show ?case
    by (simp add: x Cons.IH) (simp add: map_delete_def case_prod_unfold conj_commute)
qed (simp add: filter_id_conv)

lemma CleanAllDone_tracked:
  assumes wf: "wf_opt opt"
  shows "tracked (CleanAllDone opt) c =
    (case tracked opt c of Some op \<Rightarrow> if op_phase op = PhaseDone then None else Some op | None \<Rightarrow> None)"
proof -
  let ?keep = "\<lambda>(c', r'). \<forall>(c, r) \<in> set (opt_operations opt).
      op_phase (op_at opt r) = PhaseDone \<longrightarrow> c' \<noteq> op_Cid (op_at opt r)"
  have ops: "opt_operations (CleanAllDone opt) = filter ?keep (opt_operations opt)"
    and at: "op_at (CleanAllDone opt) = op_at opt"
    by (simp_all add: CleanAllDone_def CleanAllDone_fold)
  have wm: "wf_map (opt_operations opt)" using wf by (simp add: wf_opt_def)
  have cid: "op_Cid (op_at opt r0) = c0" "map_of (opt_operations opt) c0 = Some r0"
    if "(c0, r0) \<in> set (opt_operations opt)" for c0 r0
    using that wf wm by (auto simp: wf_opt_def list_all_iff map_of_in_set)
  have keep: "?keep (c, r) \<longleftrightarrow> op_phase (op_at opt r) \<noteq> PhaseDone" if r: "(c, r) \<in> set (opt_operations opt)" for r
  proof
    show "?keep (c, r) \<Longrightarrow> op_phase (op_at opt r) \<noteq> PhaseDone" using r cid(1) [OF r] by auto
    show "op_phase (op_at opt r) \<noteq> PhaseDone \<Longrightarrow> ?keep (c, r)" using cid cid(2) [OF r] by force
  qed
  from wm have wf': "wf_map (filter ?keep (opt_operations opt))"
    unfolding wf_map_def by (rule distinct_map_filter)
  show ?thesis
  proof (cases "map_of (opt_operations opt) c")
    case None
    then have "map_of (filter ?keep (opt_operations opt)) c = None"
      by (auto simp: map_of_eq_None_iff)
    with None show ?thesis by (simp add: tracked_def ops)
  next
    case (Some r)
    have "map_of (filter ?keep (opt_operations opt)) c = (if op_phase (op_at opt r) = PhaseDone then None else Some r)"
    proof (cases "op_phase (op_at opt r) = PhaseDone")
      case True
      have "c \<notin> fst ` set (filter ?keep (opt_operations opt))"
      proof
        assume "c \<in> fst ` set (filter ?keep (opt_operations opt))"
        then obtain r' where r': "(c, r') \<in> set (opt_operations opt)" "?keep (c, r')" by auto
        with cid(2) [OF r'(1)] Some keep [OF r'(1)] True show False by simp
      qed
      with True show ?thesis by (simp add: map_of_eq_None_iff)
    next
      case False
      have "(c, r) \<in> set (opt_operations opt)" using Some wm by (simp add: map_of_in_set)
      with keep False wf' show ?thesis by (simp add: map_of_in_set)
    qed
    with Some show ?thesis by (simp add: tracked_def ops at)
  qed
qed

section \<open>The interface of the tracker\<close>

text \<open>
  What a client of the tracker relies on: an invariant, the operation held for each CID, and the
  effect of asking for an operation. A client sends a sequence of requests.
\<close>

type_synonym op_request = "gotime \<times> Pin \<times> OperationType \<times> Phase"

definition req_cid :: "op_request \<Rightarrow> cid" where
  "req_cid q = (case q of (now, pin, ty, ph) \<Rightarrow> pin_Cid pin)"

definition serve_requests ::
  "(gotime \<Rightarrow> Pin \<Rightarrow> OperationType \<Rightarrow> Phase \<Rightarrow> 's \<Rightarrow> op_ref option \<times> 's) \<Rightarrow> 's \<Rightarrow> op_request list \<Rightarrow> 's" where
  "serve_requests request s qs = foldl (\<lambda>s (now, pin, ty, ph). snd (request now pin ty ph s)) s qs"

locale op_registry =
  fixes inv :: "'s \<Rightarrow> bool"
    and view :: "'s \<Rightarrow> cid \<rightharpoonup> Operation"
    and request :: "gotime \<Rightarrow> Pin \<Rightarrow> OperationType \<Rightarrow> Phase \<Rightarrow> 's \<Rightarrow> op_ref option \<times> 's"
  assumes request_inv: "inv s \<Longrightarrow> inv (snd (request now pin ty ph s))"
    and request_view: "inv s \<Longrightarrow> view (snd (request now pin ty ph s)) =
      (view s)(pin_Cid pin \<mapsto> track_result now pin ty ph (view s (pin_Cid pin)))"
begin

abbreviation serve :: "'s \<Rightarrow> op_request list \<Rightarrow> 's" where
  "serve \<equiv> serve_requests request"

lemma serve_inv: "inv s \<Longrightarrow> inv (serve s qs)"
  by (induction qs arbitrary: s) (auto simp: serve_requests_def request_inv)

lemma serve_snoc: "serve s (qs @ [(now, pin, ty, ph)]) = snd (request now pin ty ph (serve s qs))"
  by (simp add: serve_requests_def)

lemma last_request_wins:
  assumes "inv s"
  shows "case find (\<lambda>q. req_cid q = c) (rev qs) of
      Some (now, pin, ty, ph) \<Rightarrow> (\<exists>op. view (serve s qs) c = Some op \<and> op_pin op = pin \<and> op_opType op = ty)
    | None \<Rightarrow> view (serve s qs) c = view s c"
proof (induction qs rule: rev_induct)
  case Nil
  then show ?case by (simp add: serve_requests_def)
next
  case (snoc q qs)
  obtain now pin ty ph where q: "q = (now, pin, ty, ph)" by (cases q)
  have "view (serve s (qs @ [q])) =
      (view (serve s qs))(pin_Cid pin \<mapsto> track_result now pin ty ph (view (serve s qs) (pin_Cid pin)))"
    using assms by (simp add: q serve_snoc request_view serve_inv)
  with snoc show ?case
    by (auto simp: q req_cid_def track_result_def new_op_def newOperation_def ongoing_def split: option.splits)
qed

end

interpretation optr: op_registry wf_opt tracked TrackNewOperation
  by unfold_locales (simp_all add: TrackNew_wf TrackNew_tracked)

lemma TrackNew_old_ops:
  assumes "wf_opt opt" "r0 < length (opt_heap opt)"
  shows "op_at (snd (TrackNewOperation now pin ty ph opt)) r0 =
    (if map_of (opt_operations opt) (pin_Cid pin) = Some r0
     then if ongoing ty (op_at opt r0) then (op_at opt r0)\<lparr>op_pin := pin\<rparr>
          else (op_at opt r0)\<lparr>op_canceled := True\<rparr>
     else op_at opt r0)"
  using assms wf_optD [OF assms(1)]
  by (cases rule: TrackNew_cases [where opt = opt and pin = pin and ty = ty and now = now and ph = ph])
    (auto simp: op_at_install)

lemma TrackNew_heap:
  "length (opt_heap (snd (TrackNewOperation now pin ty ph opt))) =
     length (opt_heap opt) + (if fst (TrackNewOperation now pin ty ph opt) = None then 0 else 1)"
  by (cases rule: TrackNew_cases [where opt = opt and pin = pin and ty = ty and now = now and ph = ph]) auto

lemma TrackNew_new_op:
  assumes "fst (TrackNewOperation now pin ty ph opt) = Some r"
  shows "r = length (opt_heap opt)"
    "op_at (snd (TrackNewOperation now pin ty ph opt)) r = new_op now pin ty ph (tracked opt (pin_Cid pin))"
    "map_of (opt_operations (snd (TrackNewOperation now pin ty ph opt))) =
       (map_of (opt_operations opt))(pin_Cid pin \<mapsto> r)"
proof -
  have "op_at (install op2 (replaced r' opt)) (length (opt_heap opt)) = op2" for op2 r'
    using op_at_install(2) [of op2 "replaced r' opt"] by simp
  then have "r = length (opt_heap opt) \<and>
    op_at (snd (TrackNewOperation now pin ty ph opt)) r = new_op now pin ty ph (tracked opt (pin_Cid pin)) \<and>
    map_of (opt_operations (snd (TrackNewOperation now pin ty ph opt))) =
       (map_of (opt_operations opt))(pin_Cid pin \<mapsto> r)"
    using assms op_at_install(2) [of _ opt]
    by (cases rule: TrackNew_cases [where opt = opt and pin = pin and ty = ty and now = now and ph = ph])
      (simp_all add: tracked_def)
  then show "r = length (opt_heap opt)"
    "op_at (snd (TrackNewOperation now pin ty ph opt)) r = new_op now pin ty ph (tracked opt (pin_Cid pin))"
    "map_of (opt_operations (snd (TrackNewOperation now pin ty ph opt))) =
       (map_of (opt_operations opt))(pin_Cid pin \<mapsto> r)" by blast+
qed

lemma ToTrackerStatus_roundtrip:
  assumes "op_opType op = OperationPin \<or> op_opType op = OperationUnpin"
  shows "TrackerStatusToOperationPhase (ToTrackerStatus op) = (op_opType op, op_phase op)"
  using assms
  by (cases "op_phase op") (auto simp: ToTrackerStatus_def TrackerStatusToOperationPhase_def status_values)

section \<open>Properties\<close>

text \<open>
  C7. \<open>TrackNewOperation\<close> on a well-formed tracker. The tracker stays well-formed and its counters
  stay right. The operation held for the pin's CID becomes the one the call asks for, and no other
  CID is touched. \<open>nil\<close> is returned exactly when an operation of that type is queued or in
  progress, which then only takes the new pin object. Otherwise the operation that was there is
  cancelled, and it is the only old operation that is written to.
\<close>

theorem TrackNewOperation_correct:
  assumes wf: "wf_opt opt" and cnt: "counters d opt"
    and res: "TrackNewOperation now pin ty ph opt = (new, opt')"
  shows "wf_opt opt' \<and> counters d opt' \<and>
    tracked opt' = (tracked opt)(pin_Cid pin \<mapsto> track_result now pin ty ph (tracked opt (pin_Cid pin))) \<and>
    (new = None \<longleftrightarrow> (\<exists>op. tracked opt (pin_Cid pin) = Some op \<and> ongoing ty op)) \<and>
    (\<forall>r < length (opt_heap opt). op_at opt' r \<noteq> op_at opt r \<longrightarrow>
       map_of (opt_operations opt) (pin_Cid pin) = Some r) \<and>
    (\<forall>r r'. new = Some r' \<and> map_of (opt_operations opt) (pin_Cid pin) = Some r \<longrightarrow>
       op_canceled (op_at opt' r) \<and> r' \<noteq> r)"
proof -
  have new: "new = fst (TrackNewOperation now pin ty ph opt)" and opt': "opt' = snd (TrackNewOperation now pin ty ph opt)"
    using res by simp_all
  have "op_canceled (op_at opt' r) \<and> r' \<noteq> r"
    if "new = Some r'" "map_of (opt_operations opt) (pin_Cid pin) = Some r" for r r'
  proof -
    have "\<not> ongoing ty (op_at opt r)" "r' = length (opt_heap opt)"
      using that by (auto simp: new TrackNew_fst tracked_def split: if_splits)
    then show ?thesis
      using that wf_optD [OF wf that(2)] by (simp add: opt' TrackNew_old_ops [OF wf])
  qed
  moreover have "new = None \<longleftrightarrow> (\<exists>op. tracked opt (pin_Cid pin) = Some op \<and> ongoing ty op)"
    by (auto simp: new TrackNew_fst split: option.splits)
  moreover have "map_of (opt_operations opt) (pin_Cid pin) = Some r"
    if "r < length (opt_heap opt)" "op_at opt' r \<noteq> op_at opt r" for r
    using that by (simp add: opt' TrackNew_old_ops [OF wf] split: if_splits)
  ultimately show ?thesis
    using TrackNew_wf [OF wf] TrackNew_counters [OF wf cnt] TrackNew_tracked [OF wf] unfolding opt' by blast
qed

theorem TrackNewOperation_correct_witness:
  "counters 0 (snd (TrackNewOperation 1 example_pin OperationUnpin PhaseQueued
     (snd (TrackNewOperation 0 example_pin OperationPin PhaseQueued (NewOperationTracker ''p1'' ''n'')))))"
  by (rule TrackNewOperation_correct [THEN conjunct2, THEN conjunct1,
        OF TrackNew_wf [OF wf_NewOperationTracker] TrackNew_counters [OF wf_NewOperationTracker counters_New]
           prod.collapse [symmetric]])

text \<open>
  The last request wins. After any sequence of calls to \<open>TrackNewOperation\<close> on a well-formed
  tracker, the operation held for a CID has the type and the pin of the last call for that CID;
  a CID that no call names keeps the operation it had.
\<close>

theorem TrackNewOperation_last_wins:
  assumes "wf_opt opt"
  shows "case find (\<lambda>q. req_cid q = c) (rev qs) of
      Some (now, pin, ty, ph) \<Rightarrow> (\<exists>op. tracked (serve_requests TrackNewOperation opt qs) c = Some op \<and>
                                   op_pin op = pin \<and> op_opType op = ty)
    | None \<Rightarrow> tracked (serve_requests TrackNewOperation opt qs) c = tracked opt c"
  using assms by (rule optr.last_request_wins)

theorem TrackNewOperation_last_wins_witness:
  "\<exists>op. tracked (serve_requests TrackNewOperation (NewOperationTracker ''p1'' ''n'')
     [(0, example_pin, OperationPin, PhaseQueued), (1, example_pin, OperationUnpin, PhaseQueued)]) ''Qm'' = Some op \<and>
     op_pin op = example_pin \<and> op_opType op = OperationUnpin"
  using TrackNewOperation_last_wins [OF wf_NewOperationTracker, where c = "''Qm''" and
      qs = "[(0, example_pin, OperationPin, PhaseQueued), (1, example_pin, OperationUnpin, PhaseQueued)]"]
  by (simp add: req_cid_def example_pin_def)

end
