(* ===== verification/State_Interface.thy ===== *)
theory State_Interface
  imports Api_Types
begin

text \<open>
  \<open>state/interface.go\<close> and \<open>state/empty.go\<close>: the shared state as the other components see it. The
  locale \<open>pin_state\<close> is the contract of the \<open>State\<close> interface; what follows from it for a log of
  operations, as the consensus components apply it, is proved there once.
\<close>

datatype state_error = ErrNotFound | StateError string

record ReadOnlyState =
  st_Get :: "cid \<Rightarrow> state_error + Pin"
  st_List :: "Pin list"

definition Empty :: ReadOnlyState where
  "Empty = \<lparr>st_Get = (\<lambda>c. Inl ErrNotFound), st_List = []\<rparr>"

text \<open>The operations on a state, and the pin set a sequence of them amounts to.\<close>

datatype state_op = AddPin Pin | RmPin cid

fun pinset_step :: "(Pin \<Rightarrow> Pin) \<Rightarrow> (cid \<rightharpoonup> Pin) \<Rightarrow> state_op \<Rightarrow> (cid \<rightharpoonup> Pin)" where
  "pinset_step norm m (AddPin p) = m(pin_Cid p \<mapsto> norm p)"
| "pinset_step norm m (RmPin c) = m(c := None)"

fun state_step ::
  "(Pin \<Rightarrow> 's \<Rightarrow> state_error option \<times> 's) \<Rightarrow> (cid \<Rightarrow> 's \<Rightarrow> state_error option \<times> 's) \<Rightarrow> 's \<Rightarrow> state_op \<Rightarrow>
     state_error option \<times> 's" where
  "state_step add rm s (AddPin p) = add p s"
| "state_step add rm s (RmPin c) = rm c s"

text \<open>A log of operations, with the ones that succeeded.\<close>

definition state_apply ::
  "(Pin \<Rightarrow> 's \<Rightarrow> state_error option \<times> 's) \<Rightarrow> (cid \<Rightarrow> 's \<Rightarrow> state_error option \<times> 's) \<Rightarrow> 's \<Rightarrow> state_op list \<Rightarrow>
     's \<times> state_op list" where
  "state_apply add rm s ops =
     foldl (\<lambda>(s, ok) q. case state_step add rm s q of (e, s') \<Rightarrow> (s', if e = None then ok @ [q] else ok)) (s, []) ops"

fun op_storable :: "(Pin \<Rightarrow> bool) \<Rightarrow> state_op \<Rightarrow> bool" where
  "op_storable st (AddPin p) = st p"
| "op_storable st (RmPin c) = True"

text \<open>
  The contract. \<open>pins\<close> is the pin set a state stands for and \<open>norm\<close> the form in which a pin is
  kept; \<open>storable\<close> are the pins the contract is about. An operation that fails changes nothing.
\<close>

locale pin_state =
  fixes st_inv :: "'s \<Rightarrow> bool"
    and storable :: "'s \<Rightarrow> Pin \<Rightarrow> bool"
    and norm :: "Pin \<Rightarrow> Pin"
    and pins :: "'s \<Rightarrow> cid \<rightharpoonup> Pin"
    and get :: "'s \<Rightarrow> cid \<Rightarrow> state_error + Pin"
    and add :: "Pin \<Rightarrow> 's \<Rightarrow> state_error option \<times> 's"
    and rm :: "cid \<Rightarrow> 's \<Rightarrow> state_error option \<times> 's"
  assumes get_pins: "st_inv s \<Longrightarrow> get s c = (case pins s c of None \<Rightarrow> Inl ErrNotFound | Some p \<Rightarrow> Inr p)"
    and add_pins: "st_inv s \<Longrightarrow> storable s p \<Longrightarrow> add p s = (e, s') \<Longrightarrow>
      st_inv s' \<and> storable s' = storable s \<and> pins s' = (if e = None then (pins s)(pin_Cid p \<mapsto> norm p) else pins s)"
    and rm_pins: "st_inv s \<Longrightarrow> rm c s = (e, s') \<Longrightarrow>
      st_inv s' \<and> storable s' = storable s \<and> pins s' = (if e = None then (pins s)(c := None) else pins s)"
begin

lemma step_pins:
  assumes "st_inv s" "op_storable (storable s) q" "state_step add rm s q = (e, s')"
  shows "st_inv s' \<and> storable s' = storable s \<and>
    pins s' = (if e = None then pinset_step norm (pins s) q else pins s)"
proof (cases q)
  case (AddPin p)
  then show ?thesis using add_pins [OF assms(1), of p e s'] assms(2,3) by simp
next
  case (RmPin c)
  then show ?thesis using rm_pins [OF assms(1), of c e s'] assms(3) by simp
qed

text \<open>The pin set after a log is the fold of the operations that succeeded.\<close>

lemma log_pins:
  assumes "st_inv s" "\<forall>q \<in> set ops. op_storable (storable s) q"
  shows "\<exists>s' ok. state_apply add rm s ops = (s', ok) \<and> st_inv s' \<and> storable s' = storable s \<and>
    pins s' = foldl (pinset_step norm) (pins s) ok"
  using assms(2)
proof (induction ops rule: rev_induct)
  case Nil
  then show ?case using assms(1) by (simp add: state_apply_def)
next
  case (snoc q ops)
  then obtain s1 ok where s1: "state_apply add rm s ops = (s1, ok)" "st_inv s1" "storable s1 = storable s"
      "pins s1 = foldl (pinset_step norm) (pins s) ok" by auto
  obtain e s2 where s2: "state_step add rm s1 q = (e, s2)" by (cases "state_step add rm s1 q")
  have "state_apply add rm s (ops @ [q]) = (s2, if e = None then ok @ [q] else ok)"
    using s1(1) s2 by (simp add: state_apply_def)
  moreover have "op_storable (storable s1) q" using snoc.prems s1(3) by simp
  from step_pins [OF s1(2) this s2] have "st_inv s2" "storable s2 = storable s"
      "pins s2 = foldl (pinset_step norm) (pins s) (if e = None then ok @ [q] else ok)"
    using s1(3,4) by simp_all
  ultimately show ?case by blast
qed

end

text \<open>
  The contract of the \<open>BatchingState\<close> interface. \<open>holds s ops\<close> says that \<open>ops\<close> are the operations that
  \<open>s\<close> has batched since the last commit. They do not show in the pin set until \<open>Commit\<close> succeeds.
\<close>

locale batching_state =
  fixes holds :: "'s \<Rightarrow> state_op list \<Rightarrow> bool"
    and storable :: "'s \<Rightarrow> Pin \<Rightarrow> bool"
    and norm :: "Pin \<Rightarrow> Pin"
    and pins :: "'s \<Rightarrow> cid \<rightharpoonup> Pin"
    and add :: "Pin \<Rightarrow> 's \<Rightarrow> state_error option \<times> 's"
    and rm :: "cid \<Rightarrow> 's \<Rightarrow> state_error option \<times> 's"
    and commit :: "'s \<Rightarrow> state_error option \<times> 's"
  assumes batch_op: "holds s ops \<Longrightarrow> op_storable (storable s) q \<Longrightarrow> state_step add rm s q = (e, s') \<Longrightarrow>
      storable s' = storable s \<and> pins s' = pins s \<and> holds s' (if e = None then ops @ [q] else ops)"
    and batch_commit: "holds s ops \<Longrightarrow> commit s = (e, s') \<Longrightarrow> storable s' = storable s \<and>
      (if e = None then pins s' = foldl (pinset_step norm) (pins s) ops \<and> holds s' [] else pins s' = pins s \<and> holds s' ops)"

end
