(* ===== verification/Stateless_Tracker.thy ===== *)
theory Stateless_Tracker
  imports Operation_Tracker State_Interface
begin

text \<open>
  \<open>pintracker/stateless\<close>: the pin tracker of a peer. \<open>Track\<close> and \<open>Untrack\<close> put operations on
  bounded queues; \<open>ConcurrentPins\<close> pin workers and one unpin worker take them from there and
  call the IPFS daemon.

  Everything between two waits is one step: a call to \<open>Track\<close> up to its unpin request, the rest of
  that call, a worker taking an operation up to its request to IPFS, and the worker's work when
  that request returns. The operations for which a request to IPFS is under way are the lists
  \<open>spt_pinCalls\<close>, \<open>spt_unpinCalls\<close> and \<open>spt_remoteCalls\<close>. What IPFS, the other components (over
  RPC) and the shared state answer are arguments.
\<close>

section \<open>State and operations\<close>

record StatelessConfig =
  cfg_MaxPinQueueSize :: nat
  cfg_ConcurrentPins :: nat
  cfg_PriorityPinMaxAge :: duration
  cfg_PriorityPinMaxRetries :: int

record Tracker =
  spt_config :: StatelessConfig
  spt_peerID :: peer_id
  spt_peerName :: string
  spt_optracker :: OperationTracker
  spt_priorityPinCh :: "op_ref list"
  spt_pinCh :: "op_ref list"
  spt_unpinCh :: "op_ref list"
  spt_pinCalls :: "op_ref list"
  spt_unpinCalls :: "op_ref list"
  spt_remoteCalls :: "op_ref list"

definition ErrFullQueue :: string where
  "ErrFullQueue = ''pin/unpin operation queue is full. Try increasing max_pin_queue_size''"

definition errUnexpectedlyUnpinned :: string where
  "errUnexpectedlyUnpinned = ''the item should be pinned but it is not''"

definition spt_New :: "StatelessConfig \<Rightarrow> peer_id \<Rightarrow> string \<Rightarrow> Tracker" where
  "spt_New cfg pid peerName =
     \<lparr>spt_config = cfg, spt_peerID = pid, spt_peerName = peerName,
      spt_optracker = NewOperationTracker pid peerName, spt_priorityPinCh = [], spt_pinCh = [],
      spt_unpinCh = [], spt_pinCalls = [], spt_unpinCalls = [], spt_remoteCalls = []\<rparr>"

abbreviation spt_opt :: "(OperationTracker \<Rightarrow> OperationTracker) \<Rightarrow> Tracker \<Rightarrow> Tracker" where
  "spt_opt f spt \<equiv> spt\<lparr>spt_optracker := f (spt_optracker spt)\<rparr>"

text \<open>
  \<open>enqueue\<close>: the send to the channel does not block; when its buffer is full the operation is put in
  error. For another operation type the channel is \<open>nil\<close>, on which a send never succeeds.
\<close>

definition enqueue_full :: "gotime \<Rightarrow> op_ref \<Rightarrow> Tracker \<Rightarrow> string option \<times> Tracker" where
  "enqueue_full now r spt = (Some ErrFullQueue, spt_opt (op_Cancel r \<circ> op_SetError now r ErrFullQueue) spt)"

definition enqueue :: "gotime \<Rightarrow> Pin \<Rightarrow> OperationType \<Rightarrow> Tracker \<Rightarrow> string option \<times> Tracker" where
  "enqueue now c ty spt =
     (case TrackNewOperation now c ty PhaseQueued (spt_optracker spt) of
        (None, opt) \<Rightarrow> (None, spt\<lparr>spt_optracker := opt\<rparr>)
      | (Some r, opt) \<Rightarrow>
          let spt1 = spt\<lparr>spt_optracker := opt\<rparr>; cfg = spt_config spt in
          (case ty of
             OperationPin \<Rightarrow>
               let isPriorityPin = (now < pin_Timestamp c + cfg_PriorityPinMaxAge cfg \<and>
                      op_attemptCount (op_at opt r) \<le> cfg_PriorityPinMaxRetries cfg);
                   spt2 = spt_opt (op_SetPriorityPin r isPriorityPin) spt1
               in if isPriorityPin
                  then (if length (spt_priorityPinCh spt) < cfg_MaxPinQueueSize cfg
                        then (None, spt2\<lparr>spt_priorityPinCh := spt_priorityPinCh spt @ [r]\<rparr>)
                        else enqueue_full now r spt2)
                  else (if length (spt_pinCh spt) < cfg_MaxPinQueueSize cfg
                        then (None, spt2\<lparr>spt_pinCh := spt_pinCh spt @ [r]\<rparr>)
                        else enqueue_full now r spt2)
           | OperationUnpin \<Rightarrow>
               if length (spt_unpinCh spt) < cfg_MaxPinQueueSize cfg
               then (None, spt1\<lparr>spt_unpinCh := spt_unpinCh spt @ [r]\<rparr>)
               else enqueue_full now r spt1
           | _ \<Rightarrow> enqueue_full now r spt1))"

text \<open>\<open>Track\<close> up to the unpin request of a remote pin, and what it does when that request returns.\<close>

definition Track :: "gotime \<Rightarrow> Pin \<Rightarrow> Tracker \<Rightarrow> string option \<times> Tracker" where
  "Track now c spt =
     (if pin_Type c = MetaType then (None, spt)
      else if IsRemotePin c (spt_peerID spt) then
        (case TrackNewOperation now c OperationRemote PhaseInProgress (spt_optracker spt) of
           (None, opt) \<Rightarrow> (None, spt\<lparr>spt_optracker := opt\<rparr>)
         | (Some r, opt) \<Rightarrow>
             (None, spt\<lparr>spt_optracker := opt, spt_remoteCalls := spt_remoteCalls spt @ [r]\<rparr>))
      else enqueue now c OperationPin spt)"

definition Track_unpinned :: "gotime \<Rightarrow> op_ref \<Rightarrow> string option \<Rightarrow> Tracker \<Rightarrow> Tracker" where
  "Track_unpinned now r err spt0 =
     (let spt = spt_opt (op_Cancel r) (spt0\<lparr>spt_remoteCalls := remove1 r (spt_remoteCalls spt0)\<rparr>)
      in case err of
           Some e \<Rightarrow> spt_opt (op_SetError now r e) spt
         | None \<Rightarrow> spt_opt (Clean r \<circ> op_SetPhase now r PhaseDone) spt)"

definition Untrack :: "gotime \<Rightarrow> cid \<Rightarrow> Tracker \<Rightarrow> string option \<times> Tracker" where
  "Untrack now c spt = enqueue now (PinCid now c) OperationUnpin spt"

text \<open>
  \<open>applyPinF\<close> up to its call of \<open>pinF\<close> (the result says whether the call is made), and when the
  call returns: \<open>opWorker\<close> then cleans the operation if \<open>applyPinF\<close> says so.
\<close>

definition applyPinF_start :: "gotime \<Rightarrow> op_ref \<Rightarrow> OperationTracker \<Rightarrow> bool \<times> OperationTracker" where
  "applyPinF_start now r opt =
     (if op_canceled (op_at opt r) then (False, opt)
      else (True, op_IncAttempt r (op_SetPhase now r PhaseInProgress opt)))"

definition applyPinF_finish ::
  "gotime \<Rightarrow> op_ref \<Rightarrow> string option \<Rightarrow> OperationTracker \<Rightarrow> bool \<times> OperationTracker" where
  "applyPinF_finish now r err opt =
     (case err of
        Some e \<Rightarrow> if op_canceled (op_at opt r) then (False, opt)
                   else (False, op_Cancel r (op_SetError now r e opt))
      | None \<Rightarrow> (True, op_Cancel r (op_SetPhase now r PhaseDone opt)))"

definition opWorker_apply :: "gotime \<Rightarrow> op_ref \<Rightarrow> string option \<Rightarrow> OperationTracker \<Rightarrow> OperationTracker" where
  "opWorker_apply now r err opt =
     (case applyPinF_finish now r err opt of (clean, opt') \<Rightarrow> if clean then Clean r opt' else opt')"

text \<open>The loop of a pin worker takes from the priority channel first; the unpin worker has one channel.\<close>

definition opWorker_pin :: "gotime \<Rightarrow> Tracker \<Rightarrow> Tracker" where
  "opWorker_pin now spt =
     (let run = (\<lambda>r spt1. case applyPinF_start now r (spt_optracker spt1) of
            (called, opt) \<Rightarrow> spt1\<lparr>spt_optracker := opt,
               spt_pinCalls := (if called then spt_pinCalls spt1 @ [r] else spt_pinCalls spt1)\<rparr>)
      in case spt_priorityPinCh spt of
           r # rs \<Rightarrow> run r (spt\<lparr>spt_priorityPinCh := rs\<rparr>)
         | [] \<Rightarrow> (case spt_pinCh spt of
                    r # rs \<Rightarrow> run r (spt\<lparr>spt_pinCh := rs\<rparr>)
                  | [] \<Rightarrow> spt))"

definition opWorker_unpin :: "gotime \<Rightarrow> Tracker \<Rightarrow> Tracker" where
  "opWorker_unpin now spt =
     (case spt_unpinCh spt of
        r # rs \<Rightarrow> (case applyPinF_start now r (spt_optracker spt) of
            (called, opt) \<Rightarrow> spt\<lparr>spt_unpinCh := rs, spt_optracker := opt,
               spt_unpinCalls := (if called then spt_unpinCalls spt @ [r] else spt_unpinCalls spt)\<rparr>)
      | [] \<Rightarrow> spt)"

definition pin_return :: "gotime \<Rightarrow> op_ref \<Rightarrow> string option \<Rightarrow> Tracker \<Rightarrow> Tracker" where
  "pin_return now r err spt =
     spt_opt (opWorker_apply now r err) (spt\<lparr>spt_pinCalls := remove1 r (spt_pinCalls spt)\<rparr>)"

definition unpin_return :: "gotime \<Rightarrow> op_ref \<Rightarrow> string option \<Rightarrow> Tracker \<Rightarrow> Tracker" where
  "unpin_return now r err spt =
     spt_opt (opWorker_apply now r err) (spt\<lparr>spt_unpinCalls := remove1 r (spt_unpinCalls spt)\<rparr>)"

section \<open>Status\<close>

definition addError :: "string \<Rightarrow> PinInfo \<Rightarrow> PinInfo" where
  "addError err pinInfo =
     pinInfo\<lparr>pi_Short := (pi_Short pinInfo)\<lparr>pis_Error := err, pis_Status := TrackerStatusClusterError\<rparr>\<rparr>"

abbreviation set_status :: "TrackerStatus \<Rightarrow> PinInfo \<Rightarrow> PinInfo" where
  "set_status st pinInfo \<equiv> pinInfo\<lparr>pi_Short := (pi_Short pinInfo)\<lparr>pis_Status := st\<rparr>\<rparr>"

fun state_error_Error :: "state_error \<Rightarrow> string" where
  "state_error_Error ErrNotFound = ''pin is not part of the pinset''"
| "state_error_Error (StateError e) = e"

text \<open>
  \<open>Status\<close> of one CID. \<open>getState\<close> is the peer's view of the pinset, \<open>pinLsCid\<close> the answer of the
  IPFS connector for a pin.
\<close>

definition spt_Status ::
  "gotime \<Rightarrow> IPFSID \<Rightarrow> string + ReadOnlyState \<Rightarrow> (Pin \<Rightarrow> string + IPFSPinStatus) \<Rightarrow> Tracker \<Rightarrow> cid \<Rightarrow> PinInfo" where
  "spt_Status now ipfsid getState pinLsCid spt c =
     (case opt_GetExists now (spt_optracker spt) c ipfsid of
        Some oppi \<Rightarrow> oppi
      | None \<Rightarrow>
          let pinInfo =
            \<lparr>pi_Cid = c, pi_Name = [], pi_Peer = spt_peerID spt, pi_Allocations = [], pi_Origins = [],
             pi_Created = zero_time, pi_Metadata = [],
             pi_Short = \<lparr>pis_PeerName = spt_peerName spt, pis_IPFS = ipfs_ID ipfsid,
               pis_IPFSAddresses = ipfs_Addresses ipfsid, pis_Status = TrackerStatusUndefined,
               pis_TS = now, pis_Error = [], pis_AttemptCount = 0, pis_PriorityPin = False\<rparr>\<rparr>
          in case getState of
               Inl err \<Rightarrow> addError err pinInfo
             | Inr st \<Rightarrow>
                 (case st_Get st c of
                    Inl ErrNotFound \<Rightarrow> set_status TrackerStatusUnpinned pinInfo
                  | Inl err \<Rightarrow> addError (state_error_Error err) pinInfo
                  | Inr gpin \<Rightarrow>
                      let pinInfo1 = pinInfo\<lparr>pi_Name := po_Name (pin_Options gpin),
                            pi_Short := (pi_Short pinInfo)\<lparr>pis_TS := pin_Timestamp gpin\<rparr>,
                            pi_Allocations := pin_Allocations gpin,
                            pi_Origins := po_Origins (pin_Options gpin),
                            pi_Created := pin_Timestamp gpin,
                            pi_Metadata := po_Metadata (pin_Options gpin)\<rparr>
                      in if pin_Type gpin = MetaType then set_status TrackerStatusSharded pinInfo1
                         else if IsRemotePin gpin (spt_peerID spt) then set_status TrackerStatusRemote pinInfo1
                         else case pinLsCid gpin of
                                Inl err \<Rightarrow> addError err pinInfo1
                              | Inr ips \<Rightarrow>
                                  let ipfsStatus = IPFSPinStatus_ToTrackerStatus ips in
                                  if ipfsStatus = TrackerStatusUnpinned
                                  then pinInfo1\<lparr>pi_Short := (pi_Short pinInfo1)
                                         \<lparr>pis_Status := TrackerStatusUnexpectedlyUnpinned,
                                          pis_Error := errUnexpectedlyUnpinned\<rparr>\<rparr>
                                  else set_status ipfsStatus pinInfo1))"

text \<open>
  The \<open>PinInfo\<close> that \<open>StatusAll\<close> builds for a pin of the state that is not answered from an
  operation; \<open>ipfsPins\<close> is the map of the pins the daemon listed.
\<close>

definition StatusAll_info ::
  "IPFSID \<Rightarrow> (cid, IPFSPinStatus) gomap \<Rightarrow> Tracker \<Rightarrow> Pin \<Rightarrow> PinInfo" where
  "StatusAll_info ipfsid ipfsPins spt p =
     (let info =
        \<lparr>pi_Cid = pin_Cid p, pi_Name = po_Name (pin_Options p), pi_Peer = spt_peerID spt,
         pi_Allocations = pin_Allocations p, pi_Origins = po_Origins (pin_Options p),
         pi_Created = pin_Timestamp p, pi_Metadata = po_Metadata (pin_Options p),
         pi_Short = \<lparr>pis_PeerName = spt_peerName spt, pis_IPFS = ipfs_ID ipfsid,
           pis_IPFSAddresses = ipfs_Addresses ipfsid, pis_Status = TrackerStatusUndefined,
           pis_TS = pin_Timestamp p, pis_Error = [], pis_AttemptCount = 0, pis_PriorityPin = False\<rparr>\<rparr>
      in if pin_Type p = MetaType then set_status TrackerStatusSharded info
         else if IsRemotePin p (spt_peerID spt) then set_status TrackerStatusRemote info
         else case map_of ipfsPins (pin_Cid p) of
                Some ipfsStatus \<Rightarrow> set_status (IPFSPinStatus_ToTrackerStatus ipfsStatus) info
              | None \<Rightarrow> info\<lparr>pi_Short := (pi_Short info)
                  \<lparr>pis_Status := TrackerStatusUnexpectedlyUnpinned,
                   pis_Error := errUnexpectedlyUnpinned\<rparr>\<rparr>)"

text \<open>What \<open>StatusAll\<close> sends on its channel for one pin: nothing or one \<open>PinInfo\<close>.\<close>

definition StatusAll_pin ::
  "gotime \<Rightarrow> IPFSID \<Rightarrow> (cid, IPFSPinStatus) gomap \<Rightarrow> TrackerStatus \<Rightarrow> Tracker \<Rightarrow> Pin \<Rightarrow> PinInfo list" where
  "StatusAll_pin now ipfsid ipfsPins flt spt p =
     (let fallback = (let info = StatusAll_info ipfsid ipfsPins spt p
                      in if TrackerStatus_Match flt (pi_Status info) then [info] else [])
      in case opt_GetExists now (spt_optracker spt) (pin_Cid p) ipfsid of
           Some info \<Rightarrow> if TrackerStatus_Match flt (pi_Status info) then [info] else fallback
         | None \<Rightarrow> fallback)"

text \<open>
  \<open>StatusAll\<close>: the result is what is sent before the channel is closed, and the error returned.
  \<open>ipfsLs\<close> is the stream of the daemon's pins or an error.
\<close>

definition StatusAll ::
  "gotime \<Rightarrow> IPFSID \<Rightarrow> string + ReadOnlyState \<Rightarrow> string + (cid \<times> IPFSPinStatus) list \<Rightarrow> TrackerStatus \<Rightarrow>
     Tracker \<Rightarrow> PinInfo list \<times> string option" where
  "StatusAll now ipfsid getState ipfsLs flt spt =
     (if \<not> TrackerStatus_Match flt (TrackerStatusPinned OR TrackerStatusUnexpectedlyUnpinned OR
            TrackerStatusSharded OR TrackerStatusRemote)
      then (GetAllChannel now (spt_optracker spt) flt ipfsid, None)
      else case getState of
             Inl err \<Rightarrow> ([], Some err)
           | Inr st \<Rightarrow>
               if TrackerStatus_Match flt (TrackerStatusPinned OR TrackerStatusUnexpectedlyUnpinned)
               then (case ipfsLs of
                       Inl err \<Rightarrow> ([], Some (''could not get pinset from IPFS: '' @ err))
                     | Inr ls \<Rightarrow>
                         (concat (map (StatusAll_pin now ipfsid
                             (foldl (\<lambda>m (c, t). map_put c t m) [] ls) flt spt) (st_List st)), None))
               else (concat (map (StatusAll_pin now ipfsid [] flt spt) (st_List st)), None))"

section \<open>Recovery\<close>

text \<open>
  \<open>recoverWithPinInfo\<close> returns the new \<open>PinInfo\<close> (\<^term>\<open>None\<close> for the zero one), an error and the
  new state; \<open>Recover\<close> and \<open>RecoverAll\<close> are built from it.
\<close>

definition recoverWithPinInfo ::
  "gotime \<Rightarrow> IPFSID \<Rightarrow> string + ReadOnlyState \<Rightarrow> (Pin \<Rightarrow> string + IPFSPinStatus) \<Rightarrow> PinInfo \<Rightarrow> Tracker \<Rightarrow>
     (PinInfo option \<times> string option) \<times> Tracker" where
  "recoverWithPinInfo now ipfsid getState pinLsCid pinfo spt =
     (let status = (\<lambda>spt. Some (spt_Status now ipfsid getState pinLsCid spt (pi_Cid pinfo)));
          answer = (\<lambda>(err, spt'). ((status spt', err), spt'))
      in case getState of
           Inl err \<Rightarrow> ((None, Some err), spt)
         | Inr st \<Rightarrow>
             if pi_Status pinfo = TrackerStatusPinError \<or> pi_Status pinfo = TrackerStatusUnexpectedlyUnpinned
             then (case st_Get st (pi_Cid pinfo) of
                     Inl err \<Rightarrow> ((status spt, None), spt)
                   | Inr pin \<Rightarrow> answer (enqueue now pin OperationPin spt))
             else if pi_Status pinfo = TrackerStatusUnpinError
             then answer (enqueue now (PinCid now (pi_Cid pinfo)) OperationUnpin spt)
             else ((None, None), spt))"

definition Recover ::
  "gotime \<Rightarrow> IPFSID \<Rightarrow> string + ReadOnlyState \<Rightarrow> (Pin \<Rightarrow> string + IPFSPinStatus) \<Rightarrow> cid \<Rightarrow> Tracker \<Rightarrow>
     (PinInfo \<times> string option) \<times> Tracker" where
  "Recover now ipfsid getState pinLsCid c spt =
     (let pinfo = spt_Status now ipfsid getState pinLsCid spt c
      in case recoverWithPinInfo now ipfsid getState pinLsCid pinfo spt of
           ((recPi, err), spt') \<Rightarrow> ((case recPi of None \<Rightarrow> pinfo | Some p \<Rightarrow> p, err), spt'))"

fun RecoverAll_loop ::
  "gotime \<Rightarrow> IPFSID \<Rightarrow> string + ReadOnlyState \<Rightarrow> (Pin \<Rightarrow> string + IPFSPinStatus) \<Rightarrow> PinInfo list \<Rightarrow> Tracker \<Rightarrow>
     (PinInfo list \<times> string option) \<times> Tracker" where
  "RecoverAll_loop now ipfsid getState pinLsCid [] spt = (([], None), spt)"
| "RecoverAll_loop now ipfsid getState pinLsCid (pinfo # pinfos) spt =
     (case recoverWithPinInfo now ipfsid getState pinLsCid pinfo spt of
        ((p, Some err), spt') \<Rightarrow> (([], Some (''RecoverAll error: '' @ err)), spt')
      | ((p, None), spt') \<Rightarrow>
          (case RecoverAll_loop now ipfsid getState pinLsCid pinfos spt' of
             ((out, err), spt'') \<Rightarrow> (((case p of Some i \<Rightarrow> [i] | None \<Rightarrow> []) @ out, err), spt'')))"

definition RecoverAll ::
  "gotime \<Rightarrow> IPFSID \<Rightarrow> string + ReadOnlyState \<Rightarrow> string + (cid \<times> IPFSPinStatus) list \<Rightarrow>
     (Pin \<Rightarrow> string + IPFSPinStatus) \<Rightarrow> Tracker \<Rightarrow> (PinInfo list \<times> string option) \<times> Tracker" where
  "RecoverAll now ipfsid getState ipfsLs pinLsCid spt =
     RecoverAll_loop now ipfsid getState pinLsCid
       (fst (StatusAll now ipfsid getState ipfsLs TrackerStatusUndefined spt)) spt"

section \<open>Steps\<close>

text \<open>The tracker and its workers as a transition system; every interleaving of steps is a run.\<close>

inductive spt_step :: "Tracker \<Rightarrow> Tracker \<Rightarrow> bool" where
  step_track: "spt_step spt (snd (Track now c spt))"
| step_track_unpinned: "r \<in> set (spt_remoteCalls spt) \<Longrightarrow> spt_step spt (Track_unpinned now r err spt)"
| step_untrack: "spt_step spt (snd (Untrack now c spt))"
| step_recover: "spt_step spt (snd (recoverWithPinInfo now ipfsid getState pinLsCid pinfo spt))"
| step_pin: "length (spt_pinCalls spt) < cfg_ConcurrentPins (spt_config spt) \<Longrightarrow> spt_step spt (opWorker_pin now spt)"
| step_unpin: "spt_unpinCalls spt = [] \<Longrightarrow> spt_step spt (opWorker_unpin now spt)"
| step_pin_return: "r \<in> set (spt_pinCalls spt) \<Longrightarrow> spt_step spt (pin_return now r err spt)"
| step_unpin_return: "r \<in> set (spt_unpinCalls spt) \<Longrightarrow> spt_step spt (unpin_return now r err spt)"

inductive spt_reach :: "StatelessConfig \<Rightarrow> peer_id \<Rightarrow> string \<Rightarrow> Tracker \<Rightarrow> bool" for cfg pid name where
  reach_init: "spt_reach cfg pid name (spt_New cfg pid name)"
| reach_step: "spt_reach cfg pid name spt \<Longrightarrow> spt_step spt spt' \<Longrightarrow> spt_reach cfg pid name spt'"

section \<open>Where the operations are\<close>

text \<open>
  A job is an operation that waits in a channel or whose request to IPFS is under way. The
  invariant \<open>inv_jobs\<close> relates the tracker to the jobs: a waiting operation that is not cancelled
  is the tracked one and in phase Queued; one whose request is under way is in progress, and
  is the tracked one unless it has been cancelled; and a tracked operation that has not failed is
  not cancelled and is a job, so that nothing the tracker reports as queued or in progress has
  been lost.
\<close>

datatype job = InQueue OperationType | InCall OperationType

fun job_type :: "job \<Rightarrow> OperationType" where
  "job_type (InQueue ty) = ty"
| "job_type (InCall ty) = ty"

definition job_ok :: "OperationTracker \<Rightarrow> op_ref \<Rightarrow> job \<Rightarrow> bool" where
  "job_ok opt r j \<longleftrightarrow>
     (let op = op_at opt r in
      r < length (opt_heap opt) \<and> op_opType op = job_type j \<and>
      (case j of
         InQueue ty \<Rightarrow> \<not> op_canceled op \<longrightarrow> r \<in> tracked_refs opt \<and> op_phase op = PhaseQueued
       | InCall ty \<Rightarrow> op_phase op = PhaseInProgress \<and> (\<not> op_canceled op \<longrightarrow> r \<in> tracked_refs opt)))"

definition tracked_ok :: "OperationTracker \<Rightarrow> (op_ref \<rightharpoonup> job) \<Rightarrow> op_ref \<Rightarrow> bool" where
  "tracked_ok opt J r \<longleftrightarrow>
     (let op = op_at opt r in
      op_phase op = PhaseError \<or>
      \<not> op_canceled op \<and> (op_phase op = PhaseQueued \<and> J r = Some (InQueue (op_opType op)) \<or>
                          op_phase op = PhaseInProgress \<and> J r = Some (InCall (op_opType op))))"

definition inv_jobs :: "OperationTracker \<Rightarrow> (op_ref \<rightharpoonup> job) \<Rightarrow> bool" where
  "inv_jobs opt J \<longleftrightarrow>
     wf_opt opt \<and> (\<exists>d \<ge> 0. counters d opt) \<and>
     (\<forall>r j. J r = Some j \<longrightarrow> job_ok opt r j) \<and>
     (\<forall>r \<in> tracked_refs opt. tracked_ok opt J r)"

lemma tracked_refs_less: "wf_opt opt \<Longrightarrow> r \<in> tracked_refs opt \<Longrightarrow> r < length (opt_heap opt)"
  using wf_optD tracked_refs_iff by blast

lemma tracked_refs_Clean:
  assumes "wf_opt opt"
  shows "tracked_refs (Clean r opt) = tracked_refs opt - {r}"
proof -
  have "r' \<in> tracked_refs (Clean r opt) \<longleftrightarrow> r' \<in> tracked_refs opt - {r}" for r'
    unfolding Diff_iff tracked_refs_iff [OF wf_Clean [OF assms]] tracked_refs_iff [OF assms] Clean_operations(1)
    by (cases "r' = r"; cases "op_Cid (op_at opt r') = op_Cid (op_at opt r)") simp_all
  then show ?thesis by blast
qed

text \<open>An operation whose job ends.\<close>

lemma inv_jobs_end:
  assumes inv: "inv_jobs opt J"
    and wf: "wf_opt opt'" and cnt: "\<exists>d \<ge> 0. counters d opt'"
    and len: "length (opt_heap opt') = length (opt_heap opt)"
    and other: "\<And>r'. r' < length (opt_heap opt) \<Longrightarrow> r' \<noteq> r \<Longrightarrow> op_at opt' r' = op_at opt r'"
    and refs: "tracked_refs opt' - {r} = tracked_refs opt - {r}"
    and failed: "r \<in> tracked_refs opt' \<Longrightarrow> op_phase (op_at opt' r) = PhaseError"
  shows "inv_jobs opt' (J(r := None))"
proof -
  have "job_ok opt' r' j" if "(J(r := None)) r' = Some j" for r' j
  proof -
    have "r' \<noteq> r" "job_ok opt r' j" using that inv by (auto simp: inv_jobs_def split: if_splits)
    moreover have "r' \<in> tracked_refs opt' \<longleftrightarrow> r' \<in> tracked_refs opt" using refs \<open>r' \<noteq> r\<close> by blast
    ultimately show ?thesis using other [of r'] by (auto simp: job_ok_def Let_def len split: job.splits)
  qed
  moreover have "tracked_ok opt' (J(r := None)) r'" if "r' \<in> tracked_refs opt'" for r'
  proof (cases "r' = r")
    case True
    with that failed show ?thesis by (simp add: tracked_ok_def)
  next
    case False
    have "r' < length (opt_heap opt)" using tracked_refs_less [OF wf that] len by simp
    moreover have "r' \<in> tracked_refs opt" using that False refs by blast
    ultimately show ?thesis using False inv other [of r'] by (auto simp: inv_jobs_def tracked_ok_def Let_def)
  qed
  ultimately show ?thesis using wf cnt by (simp add: inv_jobs_def)
qed

text \<open>A change of one operation that keeps it tracked and makes it the job \<open>j\<close>.\<close>

lemma inv_jobs_set:
  assumes inv: "inv_jobs opt J"
    and wf: "wf_opt opt'" and cnt: "\<exists>d \<ge> 0. counters d opt'"
    and len: "length (opt_heap opt') = length (opt_heap opt)"
    and other: "\<And>r'. r' < length (opt_heap opt) \<Longrightarrow> r' \<noteq> r \<Longrightarrow> op_at opt' r' = op_at opt r'"
    and refs: "tracked_refs opt' = tracked_refs opt"
    and job: "job_ok opt' r j" and tr: "r \<in> tracked_refs opt \<Longrightarrow> tracked_ok opt' (J(r \<mapsto> j)) r"
  shows "inv_jobs opt' (J(r \<mapsto> j))"
proof -
  have "job_ok opt' r' j'" if "(J(r \<mapsto> j)) r' = Some j'" for r' j'
  proof (cases "r' = r")
    case True
    with that job show ?thesis by simp
  next
    case False
    with that inv have "job_ok opt r' j'" by (auto simp: inv_jobs_def)
    with False other [of r'] show ?thesis by (auto simp: job_ok_def Let_def len refs split: job.splits)
  qed
  moreover have "tracked_ok opt' (J(r \<mapsto> j)) r'" if "r' \<in> tracked_refs opt'" for r'
  proof (cases "r' = r")
    case True
    with that tr refs show ?thesis by simp
  next
    case False
    have "r' < length (opt_heap opt)" using tracked_refs_less [OF wf that] len by simp
    with False inv other [of r'] that show ?thesis
      by (auto simp: inv_jobs_def tracked_ok_def Let_def refs)
  qed
  ultimately show ?thesis using wf cnt by (simp add: inv_jobs_def)
qed

text \<open>Asking for an operation.\<close>

lemma tracked_refs_TrackNew:
  assumes wf: "wf_opt opt" and new: "fst (TrackNewOperation now pin ty ph opt) = Some r"
  shows "r' \<in> tracked_refs (snd (TrackNewOperation now pin ty ph opt)) \<longleftrightarrow>
     r' = r \<or> (r' \<in> tracked_refs opt \<and> map_of (opt_operations opt) (pin_Cid pin) \<noteq> Some r')"
proof -
  let ?opt' = "snd (TrackNewOperation now pin ty ph opt)"
  have refs: "r' \<in> tracked_refs o' \<longleftrightarrow> (\<exists>c. map_of (opt_operations o') c = Some r')" if "wf_opt o'" for o' r'
    using that tracked_refs_iff tracked_refs_mapI by blast
  have "r' \<noteq> r" if "map_of (opt_operations opt) c = Some r'" for c
    using wf_optD [OF wf that] TrackNew_new_op(1) [OF new] by simp
  moreover have "c = c'" if "map_of (opt_operations opt) c = Some r'" "map_of (opt_operations opt) c' = Some r'" for c c'
    using that wf_optD [OF wf] by metis
  ultimately show ?thesis
    by (auto simp: refs [OF TrackNew_wf [OF wf]] refs [OF wf] TrackNew_new_op(3) [OF new]) metis
qed

lemma inv_jobsD:
  assumes "inv_jobs opt J"
  shows "wf_opt opt" "\<exists>d \<ge> 0. counters d opt"
    "J r = Some j \<Longrightarrow> job_ok opt r j" "r \<in> tracked_refs opt \<Longrightarrow> tracked_ok opt J r"
  using assms by (auto simp: inv_jobs_def)

lemma job_less: "inv_jobs opt J \<Longrightarrow> J r = Some j \<Longrightarrow> r < length (opt_heap opt)"
  using inv_jobsD(3) [of opt J r j] by (simp add: job_ok_def Let_def)

lemma inv_jobs_TrackNew_None:
  assumes inv: "inv_jobs opt J" and none: "fst (TrackNewOperation now pin ty ph opt) = None"
  shows "inv_jobs (snd (TrackNewOperation now pin ty ph opt)) J"
proof -
  note wf = inv_jobsD(1) [OF inv]
  obtain r where r: "map_of (opt_operations opt) (pin_Cid pin) = Some r" "ongoing ty (op_at opt r)"
    using none by (auto simp: TrackNew_fst tracked_def split: option.splits if_splits)
  note rr = wf_optD [OF wf r(1)] tracked_refs_mapI [OF r(1)]
  have eq: "snd (TrackNewOperation now pin ty ph opt) = op_write r (\<lambda>op. op\<lparr>op_pin := pin\<rparr>) opt"
    by (simp add: TrackNew_ongoing [OF r])
  have "tracked_ok opt J r" using inv_jobsD(4) [OF inv] rr by blast
  then obtain j where j: "J r = Some j" using r(2) by (auto simp: tracked_ok_def ongoing_def Let_def)
  have "inv_jobs (snd (TrackNewOperation now pin ty ph opt)) (J(r \<mapsto> j))"
  proof (rule inv_jobs_set [OF inv])
    show "wf_opt (snd (TrackNewOperation now pin ty ph opt))" using wf by (rule TrackNew_wf)
    show "\<exists>d\<ge>0. counters d (snd (TrackNewOperation now pin ty ph opt))"
      using inv_jobsD(2) [OF inv] TrackNew_counters [OF wf] by blast
    show "job_ok (snd (TrackNewOperation now pin ty ph opt)) r j"
      using inv_jobsD(3) [OF inv j] rr by (auto simp: eq job_ok_def Let_def split: job.splits)
    show "tracked_ok (snd (TrackNewOperation now pin ty ph opt)) (J(r \<mapsto> j)) r" if "r \<in> tracked_refs opt"
      using inv_jobsD(4) [OF inv that] rr j by (simp add: eq tracked_ok_def Let_def)
  qed (use rr in \<open>simp_all add: eq\<close>)
  moreover have "J(r \<mapsto> j) = J" using j by auto
  ultimately show ?thesis by simp
qed

lemma inv_jobs_TrackNew_Some:
  assumes inv: "inv_jobs opt J" and new: "fst (TrackNewOperation now pin ty ph opt) = Some r"
    and j: "(ph = PhaseQueued \<and> j = InQueue ty) \<or> (ph = PhaseInProgress \<and> j = InCall ty)"
  shows "inv_jobs (snd (TrackNewOperation now pin ty ph opt)) (J(r \<mapsto> j))"
proof -
  note wf = inv_jobsD(1) [OF inv]
  let ?opt' = "snd (TrackNewOperation now pin ty ph opt)"
  have r: "r = length (opt_heap opt)" and op: "op_at ?opt' r = new_op now pin ty ph (tracked opt (pin_Cid pin))"
    using TrackNew_new_op [OF new] by simp_all
  have len: "length (opt_heap ?opt') = Suc (length (opt_heap opt))" using new by (simp add: TrackNew_heap)
  note refs = tracked_refs_TrackNew [OF wf new]
  have ong: "\<not> ongoing ty (op_at opt r0)" if "map_of (opt_operations opt) (pin_Cid pin) = Some r0" for r0
    using that new by (auto simp: TrackNew_fst tracked_def split: if_splits)
  have "job_ok ?opt' r' j'" if "(J(r \<mapsto> j)) r' = Some j'" for r' j'
  proof (cases "r' = r")
    case True
    with that j op len r refs show ?thesis by (auto simp: job_ok_def new_op_def newOperation_def)
  next
    case False
    with that have ok: "job_ok opt r' j'" using inv_jobsD(3) [OF inv] by simp
    then have less: "r' < length (opt_heap opt)" by (simp add: job_ok_def Let_def)
    show ?thesis
      using ok False refs [of r'] TrackNew_old_ops [OF wf less] ong
      by (auto simp: job_ok_def Let_def len split: job.splits if_splits)
  qed
  moreover have "tracked_ok ?opt' (J(r \<mapsto> j)) r'" if "r' \<in> tracked_refs ?opt'" for r'
  proof (cases "r' = r")
    case True
    with j op show ?thesis by (auto simp: tracked_ok_def new_op_def newOperation_def)
  next
    case False
    with that refs have old: "r' \<in> tracked_refs opt" "map_of (opt_operations opt) (pin_Cid pin) \<noteq> Some r'" by auto
    with inv_jobsD(4) [OF inv old(1)] TrackNew_old_ops [OF wf tracked_refs_less [OF wf old(1)]] False
    show ?thesis by (simp add: tracked_ok_def)
  qed
  ultimately show ?thesis
    using TrackNew_wf [OF wf] TrackNew_counters [OF wf] inv_jobsD(2) [OF inv] unfolding inv_jobs_def by blast
qed

lemma inv_jobs_priority:
  assumes inv: "inv_jobs opt J" and j: "J r = Some j"
  shows "inv_jobs (op_SetPriorityPin r b opt) J"
proof -
  note wf = inv_jobsD(1) [OF inv] and less = job_less [OF inv j]
  have "inv_jobs (op_SetPriorityPin r b opt) (J(r \<mapsto> j))"
  proof (rule inv_jobs_set [OF inv])
    show "wf_opt (op_SetPriorityPin r b opt)" using wf less by (simp add: op_SetPriorityPin_def wf_opt_write)
    show "\<exists>d\<ge>0. counters d (op_SetPriorityPin r b opt)"
      using inv_jobsD(2) [OF inv] wf less by (simp add: op_SetPriorityPin_def counters_write phw_def)
    show "job_ok (op_SetPriorityPin r b opt) r j"
      using inv_jobsD(3) [OF inv j] less by (auto simp: op_SetPriorityPin_def job_ok_def Let_def split: job.splits)
    show "tracked_ok (op_SetPriorityPin r b opt) (J(r \<mapsto> j)) r" if "r \<in> tracked_refs opt"
      using inv_jobsD(4) [OF inv that] less j by (simp add: op_SetPriorityPin_def tracked_ok_def Let_def)
  qed (use less in \<open>simp_all add: op_SetPriorityPin_def\<close>)
  moreover have "J(r \<mapsto> j) = J" using j by auto
  ultimately show ?thesis by simp
qed

lemma Cancel_simps [simp]:
  "opt_operations (op_Cancel r opt) = opt_operations opt"
  "length (opt_heap (op_Cancel r opt)) = length (opt_heap opt)"
  "tracked_refs (op_Cancel r opt) = tracked_refs opt"
  "r < length (opt_heap opt) \<Longrightarrow>
     op_at (op_Cancel r opt) r' = (if r' = r then (op_at opt r)\<lparr>op_canceled := True\<rparr> else op_at opt r')"
  by (simp_all add: op_Cancel_def)

lemma Cancel_inv:
  assumes "wf_opt opt" "r < length (opt_heap opt)"
  shows "wf_opt (op_Cancel r opt)" "counters d (op_Cancel r opt) = counters d opt"
  using assms by (simp_all add: op_Cancel_def wf_opt_write counters_write phw_def)

text \<open>The job of \<open>r\<close> ends with an error.\<close>

lemma inv_jobs_fail:
  assumes inv: "inv_jobs opt J" and j: "J r = Some j" and live: "\<not> op_canceled (op_at opt r)"
  shows "inv_jobs (op_Cancel r (op_SetError now r e opt)) (J(r := None))"
proof -
  note wf = inv_jobsD(1) [OF inv] and less = job_less [OF inv j]
  have tr: "r \<in> tracked_refs opt"
    using inv_jobsD(3) [OF inv j] live by (auto simp: job_ok_def Let_def split: job.splits)
  obtain d where d: "d \<ge> 0" "counters d opt" using inv_jobsD(2) [OF inv] by blast
  let ?w = "phase_write r (\<lambda>op. op\<lparr>op_phase := PhaseError, op_error := e, op_ts := now\<rparr>) opt"
  have w: "op_SetError now r e opt = ?w" using less by (rule SetError_eq)
  have wfw: "wf_opt ?w" using wf less by (simp add: wf_phase_write)
  have "counters d ?w" using wf less d tr by (simp add: counters_phase_write(1))
  then have "counters d (op_Cancel r ?w)" using Cancel_inv(2) [OF wfw] less by simp
  then show ?thesis unfolding w using wfw less d(1)
    by (intro inv_jobs_end [OF inv]) (auto simp: Cancel_inv)
qed

lemma inv_jobs_remote_fail:
  assumes inv: "inv_jobs opt J" and j: "J r = Some (InCall OperationRemote)"
  shows "inv_jobs (op_SetError now r e (op_Cancel r opt)) (J(r := None))"
proof -
  note wf = inv_jobsD(1) [OF inv] and less = job_less [OF inv j]
  have ty: "op_opType (op_at opt r) = OperationRemote"
    using inv_jobsD(3) [OF inv j] by (simp add: job_ok_def Let_def)
  obtain d where d: "d \<ge> 0" "counters d opt" using inv_jobsD(2) [OF inv] by blast
  let ?c = "op_Cancel r opt"
  let ?w = "phase_write r (\<lambda>op. op\<lparr>op_phase := PhaseError, op_error := e, op_ts := now\<rparr>) ?c"
  have w: "op_SetError now r e ?c = ?w" using less by (intro SetError_eq) simp
  have c: "wf_opt ?c" "counters d ?c" using Cancel_inv [OF wf less] d by simp_all
  then have "counters d ?w" using less ty counters_phase_write(1,3) [OF c(1) _ _ c(2), of r]
    by (cases "r \<in> tracked_refs ?c") simp_all
  then show ?thesis unfolding w using c less d(1)
    by (intro inv_jobs_end [OF inv]) (auto simp: wf_phase_write)
qed

text \<open>The job of \<open>r\<close> ends well: the operation is done, cancelled and cleaned.\<close>

lemma inv_jobs_done:
  assumes inv: "inv_jobs opt J" and j: "J r = Some (InCall ty)"
  shows "inv_jobs (Clean r (op_Cancel r (op_SetPhase now r PhaseDone opt))) (J(r := None))"
proof -
  note wf = inv_jobsD(1) [OF inv] and less = job_less [OF inv j]
  have op: "op_phase (op_at opt r) = PhaseInProgress"
    using inv_jobsD(3) [OF inv j] by (simp add: job_ok_def Let_def)
  obtain d where d: "d \<ge> 0" "counters d opt" using inv_jobsD(2) [OF inv] by blast
  let ?f = "\<lambda>op. op\<lparr>op_phase := PhaseDone, op_ts := now\<rparr>" let ?w = "phase_write r ?f opt"
  have w: "op_SetPhase now r PhaseDone opt = ?w" using less by (rule SetPhase_eq)
  have wfw: "wf_opt ?w" using wf less by (simp add: wf_phase_write)
  have "counters d ?w \<or> counters (d + 1) ?w"
    using counters_phase_write [OF wf less _ d(2), of ?f] op
    by (cases "r \<in> tracked_refs opt"; cases "op_opType (op_at opt r) = OperationPin") simp_all
  moreover have "0 \<le> d + 1" using d(1) by simp
  ultimately obtain d' where d': "d' \<ge> 0" "counters d' ?w" using d(1) by blast
  let ?c = "op_Cancel r ?w"
  have c: "wf_opt ?c" "counters d' ?c" using Cancel_inv [OF wfw] less d' by simp_all
  have "counters d' (Clean r ?c)" using c less by (intro counters_Clean) simp_all
  then show ?thesis unfolding w using c less d'
    by (intro inv_jobs_end [OF inv]) (auto simp: wf_Clean tracked_refs_Clean)
qed

lemma inv_jobs_remote_done:
  assumes inv: "inv_jobs opt J" and j: "J r = Some (InCall OperationRemote)"
  shows "inv_jobs (Clean r (op_SetPhase now r PhaseDone (op_Cancel r opt))) (J(r := None))"
proof -
  note wf = inv_jobsD(1) [OF inv] and less = job_less [OF inv j]
  have ty: "op_opType (op_at opt r) = OperationRemote"
    using inv_jobsD(3) [OF inv j] by (simp add: job_ok_def Let_def)
  obtain d where d: "d \<ge> 0" "counters d opt" using inv_jobsD(2) [OF inv] by blast
  let ?c = "op_Cancel r opt"
  let ?f = "\<lambda>op. op\<lparr>op_phase := PhaseDone, op_ts := now\<rparr>" let ?w = "phase_write r ?f ?c"
  have w: "op_SetPhase now r PhaseDone ?c = ?w" using less by (intro SetPhase_eq) simp
  have c: "wf_opt ?c" "counters d ?c" using Cancel_inv [OF wf less] d by simp_all
  then have cw: "counters d ?w" using less ty counters_phase_write(1,3) [OF c(1) _ _ c(2), of r]
    by (cases "r \<in> tracked_refs ?c") simp_all
  have wfw: "wf_opt ?w" using c(1) less by (simp add: wf_phase_write)
  have "counters d (Clean r ?w)" using wfw cw less by (intro counters_Clean) simp_all
  then show ?thesis unfolding w using wfw less d(1)
    by (intro inv_jobs_end [OF inv]) (auto simp: wf_Clean tracked_refs_Clean)
qed

text \<open>A cancelled operation is dropped.\<close>

lemma inv_jobs_drop:
  assumes inv: "inv_jobs opt J" and j: "J r = Some j" and canceled: "op_canceled (op_at opt r)"
  shows "inv_jobs opt (J(r := None))"
proof (rule inv_jobs_end [OF inv])
  show "op_phase (op_at opt r) = PhaseError" if "r \<in> tracked_refs opt"
    using inv_jobsD(4) [OF inv that] canceled by (auto simp: tracked_ok_def Let_def)
qed (use inv_jobsD [OF inv] in auto)

text \<open>A worker starts on a waiting operation.\<close>

lemma inv_jobs_start:
  assumes inv: "inv_jobs opt J" and j: "J r = Some (InQueue ty)" and live: "\<not> op_canceled (op_at opt r)"
  shows "inv_jobs (op_IncAttempt r (op_SetPhase now r PhaseInProgress opt)) (J(r \<mapsto> InCall ty))"
proof -
  note wf = inv_jobsD(1) [OF inv] and less = job_less [OF inv j]
  have tr: "r \<in> tracked_refs opt" and ty: "op_opType (op_at opt r) = ty"
    using inv_jobsD(3) [OF inv j] live by (auto simp: job_ok_def Let_def)
  obtain d where d: "d \<ge> 0" "counters d opt" using inv_jobsD(2) [OF inv] by blast
  let ?w = "phase_write r (\<lambda>op. op\<lparr>op_phase := PhaseInProgress, op_ts := now\<rparr>) opt"
  have w: "op_SetPhase now r PhaseInProgress opt = ?w" using less by (rule SetPhase_eq)
  have wfw: "wf_opt ?w" using wf less by (simp add: wf_phase_write)
  have "counters d ?w" using wf less d tr by (simp add: counters_phase_write(1))
  then have "counters d (op_IncAttempt r ?w)" using wfw less by (simp add: op_IncAttempt_def counters_write phw_def)
  then show ?thesis unfolding w using wfw less d(1) tr ty live
    by (intro inv_jobs_set [OF inv])
      (auto simp: op_IncAttempt_def wf_opt_write job_ok_def tracked_ok_def Let_def)
qed

section \<open>The invariant of the tracker\<close>

definition spt_jobs :: "Tracker \<Rightarrow> op_ref \<rightharpoonup> job" where
  "spt_jobs spt r =
     (if r \<in> set (spt_priorityPinCh spt) \<or> r \<in> set (spt_pinCh spt) then Some (InQueue OperationPin)
      else if r \<in> set (spt_unpinCh spt) then Some (InQueue OperationUnpin)
      else if r \<in> set (spt_pinCalls spt) then Some (InCall OperationPin)
      else if r \<in> set (spt_unpinCalls spt) then Some (InCall OperationUnpin)
      else if r \<in> set (spt_remoteCalls spt) then Some (InCall OperationRemote)
      else None)"

definition job_refs :: "Tracker \<Rightarrow> op_ref list" where
  "job_refs spt = spt_priorityPinCh spt @ spt_pinCh spt @ spt_unpinCh spt @ spt_pinCalls spt @
     spt_unpinCalls spt @ spt_remoteCalls spt"

definition spt_bounds :: "Tracker \<Rightarrow> bool" where
  "spt_bounds spt \<longleftrightarrow>
     length (spt_priorityPinCh spt) \<le> cfg_MaxPinQueueSize (spt_config spt) \<and>
     length (spt_pinCh spt) \<le> cfg_MaxPinQueueSize (spt_config spt) \<and>
     length (spt_unpinCh spt) \<le> cfg_MaxPinQueueSize (spt_config spt) \<and>
     length (spt_pinCalls spt) \<le> cfg_ConcurrentPins (spt_config spt) \<and>
     length (spt_unpinCalls spt) \<le> 1"

definition spt_inv :: "Tracker \<Rightarrow> bool" where
  "spt_inv spt \<longleftrightarrow> inv_jobs (spt_optracker spt) (spt_jobs spt) \<and> distinct (job_refs spt) \<and> spt_bounds spt"

lemma spt_jobs_None: "spt_jobs spt r = None \<longleftrightarrow> r \<notin> set (job_refs spt)"
  by (auto simp: spt_jobs_def job_refs_def)

lemma spt_jobs_opt [simp]: "spt_jobs (spt\<lparr>spt_optracker := opt\<rparr>) = spt_jobs spt"
  "job_refs (spt\<lparr>spt_optracker := opt\<rparr>) = job_refs spt"
  "spt_bounds (spt\<lparr>spt_optracker := opt\<rparr>) = spt_bounds spt"
  by (simp_all add: spt_jobs_def fun_eq_iff job_refs_def spt_bounds_def)

lemma TrackNew_not_job:
  assumes "inv_jobs opt J" "fst (TrackNewOperation now pin ty ph opt) = Some r"
  shows "J r = None"
  using job_less [OF assms(1), of r] TrackNew_new_op(1) [OF assms(2)] by (cases "J r") auto

lemma TrackNew_live:
  assumes "fst (TrackNewOperation now pin ty ph opt) = Some r"
  shows "\<not> op_canceled (op_at (snd (TrackNewOperation now pin ty ph opt)) r)"
  using TrackNew_new_op(2) [OF assms] by (simp add: new_op_def newOperation_def)

text \<open>A full queue undoes the request.\<close>

lemma inv_jobs_full:
  assumes inv: "inv_jobs opt (J(r \<mapsto> j))" and r: "J r = None" and live: "\<not> op_canceled (op_at opt r)"
  shows "inv_jobs (op_Cancel r (op_SetError now r e opt)) J"
proof -
  have "J(r := None) = J" using r by auto
  with inv_jobs_fail [OF inv _ live] show ?thesis by simp
qed

lemma priority_live:
  "r < length (opt_heap opt) \<Longrightarrow> op_canceled (op_at (op_SetPriorityPin r b opt) r) = op_canceled (op_at opt r)"
  by (simp add: op_SetPriorityPin_def)

lemma spt_inv_enqueue:
  assumes inv: "spt_inv spt" and ty: "ty = OperationPin \<or> ty = OperationUnpin"
  shows "spt_inv (snd (enqueue now c ty spt))"
proof -
  let ?opt = "spt_optracker spt" and ?J = "spt_jobs spt"
  let ?T = "TrackNewOperation now c ty PhaseQueued ?opt"
  have J: "inv_jobs ?opt ?J" and dist: "distinct (job_refs spt)" and b: "spt_bounds spt"
    using inv by (simp_all add: spt_inv_def)
  show ?thesis
  proof (cases "fst ?T")
    case None
    then show ?thesis using inv_jobs_TrackNew_None [OF J None] dist b
      by (simp add: enqueue_def spt_inv_def case_prod_unfold)
  next
    case (Some r)
    have J1: "inv_jobs (snd ?T) (?J(r \<mapsto> InQueue ty))"
      using inv_jobs_TrackNew_Some [OF J Some] by simp
    note r = TrackNew_not_job [OF J Some] and live = TrackNew_live [OF Some]
    have fresh: "r \<notin> set (job_refs spt)" using r by (simp add: spt_jobs_None)
    have less: "r < length (opt_heap (snd ?T))" by (rule job_less [OF J1]) simp
    note J2 = inv_jobs_priority [OF J1, of r "InQueue ty", simplified]
    note full = inv_jobs_full [OF J1 r live] inv_jobs_full [OF J2 r]
    have jobs:
      "spt_jobs (spt\<lparr>spt_optracker := o', spt_priorityPinCh := spt_priorityPinCh spt @ [r]\<rparr>) = ?J(r \<mapsto> InQueue OperationPin)"
      "spt_jobs (spt\<lparr>spt_optracker := o', spt_pinCh := spt_pinCh spt @ [r]\<rparr>) = ?J(r \<mapsto> InQueue OperationPin)"
      "spt_jobs (spt\<lparr>spt_optracker := o', spt_unpinCh := spt_unpinCh spt @ [r]\<rparr>) = ?J(r \<mapsto> InQueue OperationUnpin)" for o'
      using fresh by (auto simp: spt_jobs_def fun_eq_iff job_refs_def)
    have refs:
      "distinct (job_refs (spt\<lparr>spt_optracker := o', spt_priorityPinCh := spt_priorityPinCh spt @ [r]\<rparr>))"
      "distinct (job_refs (spt\<lparr>spt_optracker := o', spt_pinCh := spt_pinCh spt @ [r]\<rparr>))"
      "distinct (job_refs (spt\<lparr>spt_optracker := o', spt_unpinCh := spt_unpinCh spt @ [r]\<rparr>))" for o'
      using fresh dist by (auto simp: job_refs_def)
    from ty show ?thesis
    proof
      assume [simp]: "ty = OperationPin"
      show ?thesis using Some J2 full(2) jobs refs dist b priority_live [OF less] live
        by (simp add: enqueue_def enqueue_full_def case_prod_unfold Let_def spt_inv_def)
          (simp add: spt_bounds_def)
    next
      assume [simp]: "ty = OperationUnpin"
      show ?thesis using Some J1 full(1) jobs refs dist b
        by (simp add: enqueue_def enqueue_full_def case_prod_unfold Let_def spt_inv_def)
          (simp add: spt_bounds_def)
    qed
  qed
qed

lemma spt_inv_Track:
  assumes inv: "spt_inv spt"
  shows "spt_inv (snd (Track now c spt))"
proof -
  let ?opt = "spt_optracker spt" and ?T = "TrackNewOperation now c OperationRemote PhaseInProgress (spt_optracker spt)"
  have J: "inv_jobs ?opt (spt_jobs spt)" and dist: "distinct (job_refs spt)" and b: "spt_bounds spt"
    using inv by (simp_all add: spt_inv_def)
  have "spt_inv (spt\<lparr>spt_optracker := snd ?T\<rparr>)" if "fst ?T = None"
    using inv_jobs_TrackNew_None [OF J that] dist b by (simp add: spt_inv_def)
  moreover have "spt_inv (spt\<lparr>spt_optracker := snd ?T, spt_remoteCalls := spt_remoteCalls spt @ [r]\<rparr>)"
    if r: "fst ?T = Some r" for r
  proof -
    have fresh: "r \<notin> set (job_refs spt)" using TrackNew_not_job [OF J r] by (simp add: spt_jobs_None)
    have "spt_jobs (spt\<lparr>spt_optracker := snd ?T, spt_remoteCalls := spt_remoteCalls spt @ [r]\<rparr>)
        = (spt_jobs spt)(r \<mapsto> InCall OperationRemote)"
      using fresh by (auto simp: spt_jobs_def fun_eq_iff job_refs_def)
    moreover have "distinct (job_refs (spt\<lparr>spt_optracker := snd ?T, spt_remoteCalls := spt_remoteCalls spt @ [r]\<rparr>))"
      using fresh dist by (auto simp: job_refs_def)
    ultimately show ?thesis using inv_jobs_TrackNew_Some [OF J r] b
      by (simp add: spt_inv_def) (simp add: spt_bounds_def)
  qed
  ultimately show ?thesis
    using inv spt_inv_enqueue [OF inv] by (simp add: Track_def case_prod_unfold split: option.split)
qed

lemma spt_jobs_call:
  assumes "distinct (job_refs spt)"
  shows "r \<in> set (spt_pinCalls spt) \<Longrightarrow> spt_jobs spt r = Some (InCall OperationPin)"
    "r \<in> set (spt_unpinCalls spt) \<Longrightarrow> spt_jobs spt r = Some (InCall OperationUnpin)"
    "r \<in> set (spt_remoteCalls spt) \<Longrightarrow> spt_jobs spt r = Some (InCall OperationRemote)"
  using assms by (auto simp: spt_jobs_def job_refs_def)

text \<open>The end of a request removes the operation from the jobs.\<close>

lemma spt_inv_end:
  assumes inv: "spt_inv spt" and J: "inv_jobs opt ((spt_jobs spt)(r := None))"
  shows "r \<in> set (spt_pinCalls spt) \<Longrightarrow>
      spt_inv (spt\<lparr>spt_pinCalls := remove1 r (spt_pinCalls spt), spt_optracker := opt\<rparr>)"
    "r \<in> set (spt_unpinCalls spt) \<Longrightarrow>
      spt_inv (spt\<lparr>spt_unpinCalls := remove1 r (spt_unpinCalls spt), spt_optracker := opt\<rparr>)"
    "r \<in> set (spt_remoteCalls spt) \<Longrightarrow>
      spt_inv (spt\<lparr>spt_remoteCalls := remove1 r (spt_remoteCalls spt), spt_optracker := opt\<rparr>)"
proof -
  have dist: "distinct (job_refs spt)" and b: "spt_bounds spt" using inv by (simp_all add: spt_inv_def)
  have len: "length (remove1 r xs) \<le> length xs" for xs :: "op_ref list" by (simp add: length_remove1)
  have fin: "spt_inv spt'" if "spt_optracker spt' = opt" "spt_jobs spt' = (spt_jobs spt)(r := None)"
      "distinct (job_refs spt')" "spt_bounds spt'" for spt'
    using that J by (simp add: spt_inv_def)
  show "spt_inv (spt\<lparr>spt_pinCalls := remove1 r (spt_pinCalls spt), spt_optracker := opt\<rparr>)"
    if "r \<in> set (spt_pinCalls spt)"
    using that dist b len by (intro fin)
      (auto simp: spt_jobs_def fun_eq_iff job_refs_def spt_bounds_def dest: notin_set_remove1 intro: order_trans)
  show "spt_inv (spt\<lparr>spt_unpinCalls := remove1 r (spt_unpinCalls spt), spt_optracker := opt\<rparr>)"
    if "r \<in> set (spt_unpinCalls spt)"
    using that dist b len by (intro fin)
      (auto simp: spt_jobs_def fun_eq_iff job_refs_def spt_bounds_def dest: notin_set_remove1 intro: order_trans)
  show "spt_inv (spt\<lparr>spt_remoteCalls := remove1 r (spt_remoteCalls spt), spt_optracker := opt\<rparr>)"
    if "r \<in> set (spt_remoteCalls spt)"
    using that dist b len by (intro fin)
      (auto simp: spt_jobs_def fun_eq_iff job_refs_def spt_bounds_def dest: notin_set_remove1 intro: order_trans)
qed

lemma inv_jobs_apply:
  assumes "inv_jobs opt J" "J r = Some (InCall ty)"
  shows "inv_jobs (opWorker_apply now r err opt) (J(r := None))"
  using inv_jobs_done [OF assms] inv_jobs_fail [OF assms] inv_jobs_drop [OF assms]
  by (cases err) (auto simp: opWorker_apply_def applyPinF_finish_def)

lemma spt_inv_returns:
  assumes inv: "spt_inv spt"
  shows "r \<in> set (spt_pinCalls spt) \<Longrightarrow> spt_inv (pin_return now r err spt)"
    "r \<in> set (spt_unpinCalls spt) \<Longrightarrow> spt_inv (unpin_return now r err spt)"
    "r \<in> set (spt_remoteCalls spt) \<Longrightarrow> spt_inv (Track_unpinned now r err spt)"
proof -
  have J: "inv_jobs (spt_optracker spt) (spt_jobs spt)" and dist: "distinct (job_refs spt)"
    using inv by (simp_all add: spt_inv_def)
  note call = spt_jobs_call [OF dist]
  show "spt_inv (pin_return now r err spt)" if "r \<in> set (spt_pinCalls spt)"
    using spt_inv_end(1) [OF inv inv_jobs_apply [OF J call(1) [OF that]] that] by (simp add: pin_return_def)
  show "spt_inv (unpin_return now r err spt)" if "r \<in> set (spt_unpinCalls spt)"
    using spt_inv_end(2) [OF inv inv_jobs_apply [OF J call(2) [OF that]] that] by (simp add: unpin_return_def)
  show "spt_inv (Track_unpinned now r err spt)" if "r \<in> set (spt_remoteCalls spt)"
    using spt_inv_end(3) [OF inv inv_jobs_remote_done [OF J call(3) [OF that]] that]
      spt_inv_end(3) [OF inv inv_jobs_remote_fail [OF J call(3) [OF that]] that]
    by (cases err) (simp_all add: Track_unpinned_def Let_def)
qed

lemma spt_inv_recover:
  assumes "spt_inv spt"
  shows "spt_inv (snd (recoverWithPinInfo now ipfsid getState pinLsCid pinfo spt))"
  using assms spt_inv_enqueue [OF assms]
  by (auto simp: recoverWithPinInfo_def Let_def case_prod_unfold split: sum.split)

lemma inv_jobs_applyStart:
  assumes "inv_jobs opt J" "J r = Some (InQueue ty)"
  shows "inv_jobs (snd (applyPinF_start now r opt))
    (if fst (applyPinF_start now r opt) then J(r \<mapsto> InCall ty) else J(r := None))"
  using inv_jobs_start [OF assms] inv_jobs_drop [OF assms] by (simp add: applyPinF_start_def)

text \<open>A pin worker takes the head of a channel; \<open>rest\<close> is the state without it.\<close>

lemma spt_inv_take_pin:
  assumes J: "inv_jobs opt ((spt_jobs rest)(r := (if called then Some (InCall OperationPin) else None)))"
    and r: "r \<notin> set (job_refs rest)" and dist: "distinct (job_refs rest)" and b: "spt_bounds rest"
    and free: "length (spt_pinCalls rest) < cfg_ConcurrentPins (spt_config rest)"
  shows "spt_inv (rest\<lparr>spt_optracker := opt,
    spt_pinCalls := (if called then spt_pinCalls rest @ [r] else spt_pinCalls rest)\<rparr>)"
proof -
  have "spt_jobs (rest\<lparr>spt_optracker := opt, spt_pinCalls := (if called then spt_pinCalls rest @ [r] else spt_pinCalls rest)\<rparr>)
      = (spt_jobs rest)(r := (if called then Some (InCall OperationPin) else None))"
    using r by (auto simp: spt_jobs_def fun_eq_iff job_refs_def)
  moreover have "distinct (job_refs (rest\<lparr>spt_optracker := opt, spt_pinCalls := (if called then spt_pinCalls rest @ [r] else spt_pinCalls rest)\<rparr>))"
    using r dist by (auto simp: job_refs_def)
  ultimately show ?thesis using J b free by (auto simp: spt_inv_def spt_bounds_def)
qed

lemma spt_inv_opWorker_pin:
  assumes inv: "spt_inv spt" and free: "length (spt_pinCalls spt) < cfg_ConcurrentPins (spt_config spt)"
  shows "spt_inv (opWorker_pin now spt)"
proof -
  have J: "inv_jobs (spt_optracker spt) (spt_jobs spt)" and dist: "distinct (job_refs spt)" and b: "spt_bounds spt"
    using inv by (simp_all add: spt_inv_def)
  have take: "spt_inv (rest\<lparr>spt_optracker := snd (applyPinF_start now r (spt_optracker rest)),
      spt_pinCalls := (if fst (applyPinF_start now r (spt_optracker rest)) then spt_pinCalls rest @ [r] else spt_pinCalls rest)\<rparr>)"
    if rest: "spt_optracker rest = spt_optracker spt" "spt_jobs rest = (spt_jobs spt)(r := None)"
      "spt_jobs spt r = Some (InQueue OperationPin)" "distinct (job_refs rest)" "spt_bounds rest"
      "spt_pinCalls rest = spt_pinCalls spt" "spt_config rest = spt_config spt" for rest r
  proof (rule spt_inv_take_pin)
    show "r \<notin> set (job_refs rest)" using rest(2) spt_jobs_None [of rest r] by simp
    show "inv_jobs (snd (applyPinF_start now r (spt_optracker rest))) ((spt_jobs rest)
        (r := (if fst (applyPinF_start now r (spt_optracker rest)) then Some (InCall OperationPin) else None)))"
      using inv_jobs_applyStart [OF J rest(3), of now] unfolding rest(1,2) by (simp split: if_splits)
  qed (use rest free in simp_all)
  show ?thesis
  proof (cases "spt_priorityPinCh spt")
    case (Cons r rs)
    have "spt_inv ((spt\<lparr>spt_priorityPinCh := rs\<rparr>)\<lparr>spt_optracker := snd (applyPinF_start now r (spt_optracker spt)),
      spt_pinCalls := (if fst (applyPinF_start now r (spt_optracker spt)) then spt_pinCalls spt @ [r] else spt_pinCalls spt)\<rparr>)"
      using take [of "spt\<lparr>spt_priorityPinCh := rs\<rparr>" r] Cons dist b
      by (auto simp: spt_jobs_def fun_eq_iff job_refs_def spt_bounds_def)
    with Cons show ?thesis by (simp add: opWorker_pin_def Let_def case_prod_unfold split: if_splits)
  next
    case Nil
    show ?thesis
    proof (cases "spt_pinCh spt")
      case (Cons r rs)
      have "spt_inv ((spt\<lparr>spt_pinCh := rs\<rparr>)\<lparr>spt_optracker := snd (applyPinF_start now r (spt_optracker spt)),
        spt_pinCalls := (if fst (applyPinF_start now r (spt_optracker spt)) then spt_pinCalls spt @ [r] else spt_pinCalls spt)\<rparr>)"
        using take [of "spt\<lparr>spt_pinCh := rs\<rparr>" r] Cons Nil dist b
        by (auto simp: spt_jobs_def fun_eq_iff job_refs_def spt_bounds_def)
      with Cons Nil show ?thesis by (simp add: opWorker_pin_def Let_def case_prod_unfold split: if_splits)
    next
      case Nil
      with \<open>spt_priorityPinCh spt = []\<close> inv show ?thesis by (simp add: opWorker_pin_def)
    qed
  qed
qed

lemma spt_inv_opWorker_unpin:
  assumes inv: "spt_inv spt" and free: "spt_unpinCalls spt = []"
  shows "spt_inv (opWorker_unpin now spt)"
proof (cases "spt_unpinCh spt")
  case Nil
  with inv show ?thesis by (simp add: opWorker_unpin_def)
next
  case (Cons r rs)
  have J: "inv_jobs (spt_optracker spt) (spt_jobs spt)" and dist: "distinct (job_refs spt)" and b: "spt_bounds spt"
    using inv by (simp_all add: spt_inv_def)
  have jr: "spt_jobs spt r = Some (InQueue OperationUnpin)" using Cons dist by (auto simp: spt_jobs_def job_refs_def)
  let ?s = "applyPinF_start now r (spt_optracker spt)"
  let ?spt' = "spt\<lparr>spt_unpinCh := rs, spt_optracker := snd ?s,
      spt_unpinCalls := (if fst ?s then spt_unpinCalls spt @ [r] else spt_unpinCalls spt)\<rparr>"
  have "spt_jobs ?spt' = (if fst ?s then (spt_jobs spt)(r \<mapsto> InCall OperationUnpin) else (spt_jobs spt)(r := None))"
    using Cons dist by (auto simp: spt_jobs_def fun_eq_iff job_refs_def)
  moreover have "distinct (job_refs ?spt')" using Cons dist free by (auto simp: job_refs_def)
  moreover have "spt_bounds ?spt'" using Cons b free by (auto simp: spt_bounds_def)
  ultimately have "spt_inv ?spt'" using inv_jobs_applyStart [OF J jr, of now] by (simp add: spt_inv_def)
  with Cons show ?thesis by (simp add: opWorker_unpin_def case_prod_unfold split: if_splits)
qed

lemma spt_inv_New: "spt_inv (spt_New cfg pid name)"
proof -
  have "tracked_refs (NewOperationTracker pid name) = {}" by (simp add: tracked_refs_def NewOperationTracker_def)
  moreover have "spt_jobs (spt_New cfg pid name) = Map.empty" by (auto simp: spt_jobs_def spt_New_def)
  ultimately show ?thesis
    using wf_NewOperationTracker counters_New [of pid name]
    by (auto simp: spt_inv_def inv_jobs_def job_refs_def spt_bounds_def spt_New_def)
qed

lemma spt_inv_step: "spt_step spt spt' \<Longrightarrow> spt_inv spt \<Longrightarrow> spt_inv spt'"
proof (induction rule: spt_step.induct)
  case (step_untrack spt now c)
  then show ?case by (simp add: Untrack_def spt_inv_enqueue)
qed (simp_all add: spt_inv_Track spt_inv_returns spt_inv_recover spt_inv_opWorker_pin spt_inv_opWorker_unpin)

lemma spt_inv_reach: "spt_reach cfg pid name spt \<Longrightarrow> spt_inv spt"
  by (induction rule: spt_reach.induct) (auto simp: spt_inv_New intro: spt_inv_step)

section \<open>Properties\<close>

text \<open>
  C1. No operation is lost. In every reachable state, whatever the interleaving of requests and
  workers, the operation the tracker reports for a CID has failed, or it is not cancelled and it is
  where its phase says: queued and in the channel of its type, or in progress with a request to
  IPFS under way.
\<close>

theorem tracker_no_lost_operation:
  assumes "spt_reach cfg pid name spt" "tracked (spt_optracker spt) c = Some op"
  shows "op_phase op = PhaseError \<or>
    (\<not> op_canceled op \<and> (\<exists>r. op_at (spt_optracker spt) r = op \<and>
       (op_phase op = PhaseQueued \<and> spt_jobs spt r = Some (InQueue (op_opType op)) \<or>
        op_phase op = PhaseInProgress \<and> spt_jobs spt r = Some (InCall (op_opType op)))))"
proof -
  obtain r where r: "map_of (opt_operations (spt_optracker spt)) c = Some r" "op = op_at (spt_optracker spt) r"
    using assms(2) by (auto simp: tracked_def)
  have "tracked_ok (spt_optracker spt) (spt_jobs spt) r"
    using spt_inv_reach [OF assms(1)] tracked_refs_mapI [OF r(1)] by (auto simp: spt_inv_def inv_jobs_def)
  then show ?thesis using r(2) by (auto simp: tracked_ok_def Let_def)
qed

definition example_cfg :: StatelessConfig where
  "example_cfg = \<lparr>cfg_MaxPinQueueSize = 2, cfg_ConcurrentPins = 1, cfg_PriorityPinMaxAge = 10 * second,
     cfg_PriorityPinMaxRetries = 1\<rparr>"

definition example_data_pin :: "cid \<Rightarrow> Pin" where
  "example_data_pin c = (PinCid 0 c)\<lparr>pin_Allocations := [''p1'']\<rparr>"

definition example_run1 :: Tracker where
  "example_run1 = opWorker_pin 1 (snd (Track 0 (example_data_pin ''Qm'') (spt_New example_cfg ''p1'' ''n'')))"

lemma example_run1_reach: "spt_reach example_cfg ''p1'' ''n'' example_run1"
proof -
  let ?s = "snd (Track 0 (example_data_pin ''Qm'') (spt_New example_cfg ''p1'' ''n''))"
  have "spt_reach example_cfg ''p1'' ''n'' ?s" by (rule reach_step [OF reach_init step_track])
  moreover have "length (spt_pinCalls ?s) < cfg_ConcurrentPins (spt_config ?s)" by code_simp
  ultimately show ?thesis unfolding example_run1_def by (blast intro: reach_step step_pin)
qed

theorem tracker_no_lost_operation_witness:
  "\<exists>op r. tracked (spt_optracker example_run1) ''Qm'' = Some op \<and> op_at (spt_optracker example_run1) r = op \<and>
     spt_jobs example_run1 r = Some (InCall OperationPin)"
proof -
  obtain op where op: "tracked (spt_optracker example_run1) ''Qm'' = Some op"
      "op_phase op = PhaseInProgress" "op_opType op = OperationPin"
  proof -
    have "map_option (\<lambda>op. (op_phase op, op_opType op)) (tracked (spt_optracker example_run1) ''Qm'')
        = Some (PhaseInProgress, OperationPin)" by code_simp
    then show thesis using that by auto
  qed
  with tracker_no_lost_operation [OF example_run1_reach op(1)] show ?thesis by auto
qed



text \<open>
  The exported counters. In every reachable state \<open>PinQueueSize\<close> is the number of CIDs whose
  tracked operation is a queued pin, the error counter is the number of those in error, and the
  counter of pins in progress never exceeds their number.
\<close>

theorem tracker_counters:
  assumes "spt_reach cfg pid name spt"
  shows "PinQueueSize (spt_optracker spt) = phase_count PhaseQueued (tracked (spt_optracker spt)) \<and>
    opt_pinErrorCount (spt_optracker spt) = phase_count PhaseError (tracked (spt_optracker spt)) \<and>
    opt_pinningCount (spt_optracker spt) \<le> phase_count PhaseInProgress (tracked (spt_optracker spt))"
proof -
  obtain d where "d \<ge> 0" "counters d (spt_optracker spt)"
    using spt_inv_reach [OF assms] by (auto simp: spt_inv_def inv_jobs_def)
  then show ?thesis by (simp add: counters_def counter.simps PinQueueSize_def)
qed

theorem tracker_counters_witness:
  "PinQueueSize (spt_optracker example_run1) = phase_count PhaseQueued (tracked (spt_optracker example_run1))"
  using tracker_counters [OF example_run1_reach] by simp

text \<open>
  The counter of pins in progress can be wrong. If a pin in progress is unpinned and its request
  to IPFS still succeeds, the counter is decremented by the replacement and again by the worker:
  there is a run after which no pin is in progress and the counter is -1.
\<close>

theorem tracker_pinningCount_drift:
  "\<exists>spt. spt_reach example_cfg ''p1'' ''n'' spt \<and>
     list_all (\<lambda>(c, r). op_phase (op_at (spt_optracker spt) r) \<noteq> PhaseInProgress) (opt_operations (spt_optracker spt)) \<and>
     opt_pinningCount (spt_optracker spt) = -1"
proof -
  let ?s = "snd (Untrack 2 ''Qm'' example_run1)"
  have "spt_reach example_cfg ''p1'' ''n'' ?s" by (rule reach_step [OF example_run1_reach step_untrack])
  moreover have "0 \<in> set (spt_pinCalls ?s)" by code_simp
  ultimately have "spt_reach example_cfg ''p1'' ''n'' (pin_return 3 0 None ?s)"
    by (blast intro: reach_step step_pin_return)
  moreover have "list_all (\<lambda>(c, r). op_phase (op_at (spt_optracker (pin_return 3 0 None ?s)) r) \<noteq> PhaseInProgress)
      (opt_operations (spt_optracker (pin_return 3 0 None ?s)))" by code_simp
  moreover have "opt_pinningCount (spt_optracker (pin_return 3 0 None ?s)) = -1" by code_simp
  ultimately show ?thesis by blast
qed






definition example_ipfsid :: IPFSID where
  "example_ipfsid = \<lparr>ipfs_ID = ''ipfs1'', ipfs_Addresses = []\<rparr>"

definition example_state :: ReadOnlyState where
  "example_state = \<lparr>st_Get = (\<lambda>c. if c = ''Qa'' \<or> c = ''Qm'' then Inr (example_data_pin c) else Inl ErrNotFound),
     st_List = [example_data_pin ''Qa'', example_data_pin ''Qm'']\<rparr>"

definition example_pinLsCid :: "Pin \<Rightarrow> string + IPFSPinStatus" where
  "example_pinLsCid p = Inr (if pin_Cid p = ''Qa'' then IPFSPinStatusRecursive else IPFSPinStatusUnpinned)"


text \<open>
  With a filter they need not agree. In a reachable state where a pin is in progress, \<open>Status\<close>
  reports \<open>pinning\<close> for it and \<open>StatusAll\<close> filtered by \<open>unexpectedly_unpinned\<close> reports the same
  CID as \<open>unexpectedly_unpinned\<close>: an operation whose status does not match the filter is
  ignored and the item is judged as if there were none.
\<close>

theorem StatusAll_filter_ignores_operation:
  "spt_reach example_cfg ''p1'' ''n'' example_run1 \<and>
   pi_Status (spt_Status 5 example_ipfsid (Inr example_state) example_pinLsCid example_run1 ''Qm'')
     = TrackerStatusPinning \<and>
   map (\<lambda>i. (pi_Cid i, pi_Status i))
     (fst (StatusAll 5 example_ipfsid (Inr example_state) (Inr [(''Qa'', IPFSPinStatusRecursive)])
        TrackerStatusUnexpectedlyUnpinned example_run1))
     = [(''Qm'', TrackerStatusUnexpectedlyUnpinned)]"
proof -
  have "pi_Status (spt_Status 5 example_ipfsid (Inr example_state) example_pinLsCid example_run1 ''Qm'')
     = TrackerStatusPinning" by code_simp
  moreover have "map (\<lambda>i. (pi_Cid i, pi_Status i))
     (fst (StatusAll 5 example_ipfsid (Inr example_state) (Inr [(''Qa'', IPFSPinStatusRecursive)])
        TrackerStatusUnexpectedlyUnpinned example_run1))
     = [(''Qm'', TrackerStatusUnexpectedlyUnpinned)]" by code_simp
  ultimately show ?thesis using example_run1_reach by blast
qed

definition queues_have_room :: "Tracker \<Rightarrow> bool" where
  "queues_have_room spt \<longleftrightarrow>
     length (spt_priorityPinCh spt) < cfg_MaxPinQueueSize (spt_config spt) \<and>
     length (spt_pinCh spt) < cfg_MaxPinQueueSize (spt_config spt) \<and>
     length (spt_unpinCh spt) < cfg_MaxPinQueueSize (spt_config spt)"

lemma enqueue_new:
  assumes wf: "wf_opt (spt_optracker spt)" and ty: "ty = OperationPin \<or> ty = OperationUnpin"
    and room: "queues_have_room spt"
    and new: "\<And>op. tracked (spt_optracker spt) (pin_Cid c) = Some op \<Longrightarrow> \<not> ongoing ty op"
  shows "fst (enqueue now c ty spt) = None"
    "\<exists>op. tracked (spt_optracker (snd (enqueue now c ty spt))) (pin_Cid c) = Some op \<and>
      op\<lparr>op_priority := False\<rparr> = new_op now c ty PhaseQueued (tracked (spt_optracker spt) (pin_Cid c))"
proof -
  let ?T = "TrackNewOperation now c ty PhaseQueued (spt_optracker spt)"
  let ?op = "new_op now c ty PhaseQueued (tracked (spt_optracker spt) (pin_Cid c))"
  have "fst ?T = Some (length (opt_heap (spt_optracker spt)))"
    using new by (cases "tracked (spt_optracker spt) (pin_Cid c)") (simp_all add: TrackNew_fst)
  then obtain r where r: "fst ?T = Some r" by blast
  note nw = TrackNew_new_op [OF r]
  have tr: "tracked (snd ?T) (pin_Cid c) = Some ?op" using nw by (simp add: tracked_def)
  have less: "r < length (opt_heap (snd ?T))" using r nw(1) by (simp add: TrackNew_heap)
  have trp: "tracked (op_SetPriorityPin r b (snd ?T)) (pin_Cid c) = Some (?op\<lparr>op_priority := b\<rparr>)" for b
    using less nw by (simp add: tracked_def op_SetPriorityPin_def)
  have np: "?op\<lparr>op_priority := False\<rparr> = ?op" by (simp add: new_op_def newOperation_def)
  from ty room r show "fst (enqueue now c ty spt) = None"
    by (auto simp: enqueue_def case_prod_unfold Let_def queues_have_room_def)
  from ty show "\<exists>op. tracked (spt_optracker (snd (enqueue now c ty spt))) (pin_Cid c) = Some op \<and>
      op\<lparr>op_priority := False\<rparr> = ?op"
  proof
    assume [simp]: "ty = OperationPin"
    show ?thesis using room r trp np by (simp add: enqueue_def case_prod_unfold Let_def queues_have_room_def)
  next
    assume [simp]: "ty = OperationUnpin"
    show ?thesis using room r tr np by (simp add: enqueue_def case_prod_unfold Let_def queues_have_room_def)
  qed
qed

lemma Status_tracked:
  assumes "tracked (spt_optracker spt) c = Some op"
  shows "pi_Status (spt_Status now ipfsid getState pinLsCid spt c) = ToTrackerStatus op"
    "pi_Cid (spt_Status now ipfsid getState pinLsCid spt c) = op_Cid op"
  using assms by (auto simp: spt_Status_def opt_GetExists_def tracked_def unsafePinInfo_def)

text \<open>
  Recovering a failed pin. If the pin operation of a CID has failed, the pin is still in the
  shared state and the queues have room, then \<open>Recover\<close> succeeds, reports the CID as
  \<open>pin_queued\<close>, and leaves a fresh, uncancelled pin operation for the pin of the state that
  keeps the number of attempts.
\<close>

theorem Recover_requeues_pin:
  assumes wf: "wf_opt (spt_optracker spt)" and room: "queues_have_room spt"
    and op: "tracked (spt_optracker spt) c = Some op" "op_opType op = OperationPin" "op_phase op = PhaseError"
    and pin: "st_Get st c = Inr pin" "pin_Cid pin = c"
  shows "\<exists>info spt' op'. Recover now ipfsid (Inr st) pinLsCid c spt = ((info, None), spt') \<and>
    pi_Status info = TrackerStatusPinQueued \<and> tracked (spt_optracker spt') c = Some op' \<and>
    op_pin op' = pin \<and> op_opType op' = OperationPin \<and> op_phase op' = PhaseQueued \<and>
    \<not> op_canceled op' \<and> op_attemptCount op' = op_attemptCount op"
proof -
  let ?E = "enqueue now pin OperationPin spt"
  have cid: "op_Cid op = c" using op(1) wf_optD [OF wf] by (auto simp: tracked_def)
  have "\<not> ongoing OperationPin op'" if "tracked (spt_optracker spt) (pin_Cid pin) = Some op'" for op'
    using that op pin(2) by (simp add: ongoing_def)
  note e = enqueue_new [OF wf _ room this, of pin, simplified]
  obtain op' where op': "tracked (spt_optracker (snd ?E)) c = Some op'"
      "op'\<lparr>op_priority := False\<rparr> = new_op now pin OperationPin PhaseQueued (Some op)"
    using e(2) [of now] pin(2) op(1) by auto
  have f: "op_pin op' = pin" "op_opType op' = OperationPin" "op_phase op' = PhaseQueued"
      "\<not> op_canceled op'" "op_attemptCount op' = op_attemptCount op"
    using op'(2) op(2) by (cases op', simp add: new_op_def newOperation_def)+
  have rec: "recoverWithPinInfo now ipfsid (Inr st) pinLsCid (spt_Status now ipfsid (Inr st) pinLsCid spt c) spt =
      ((Some (spt_Status now ipfsid (Inr st) pinLsCid (snd ?E) c), None), snd ?E)"
    using op pin e(1) [of now] Status_tracked [OF op(1)] cid
    by (simp add: recoverWithPinInfo_def ToTrackerStatus_def case_prod_unfold)
  have "pi_Status (spt_Status now ipfsid (Inr st) pinLsCid (snd ?E) c) = TrackerStatusPinQueued"
    using Status_tracked(1) [OF op'(1)] f by (simp add: ToTrackerStatus_def)
  with rec op'(1) f show ?thesis by (simp add: Recover_def)
qed

definition example_failed :: Tracker where
  "example_failed = pin_return 2 0 (Some ''context deadline exceeded'') example_run1"

theorem Recover_requeues_pin_witness:
  "\<exists>info spt'. Recover 3 example_ipfsid (Inr example_state) example_pinLsCid ''Qm'' example_failed = ((info, None), spt') \<and>
     pi_Status info = TrackerStatusPinQueued"
proof -
  have "0 \<in> set (spt_pinCalls example_run1)" by code_simp
  then have "spt_reach example_cfg ''p1'' ''n'' example_failed"
    unfolding example_failed_def by (blast intro: reach_step example_run1_reach step_pin_return)
  then have wf: "wf_opt (spt_optracker example_failed)"
    using spt_inv_reach by (auto simp: spt_inv_def inv_jobs_def)
  have room: "queues_have_room example_failed" by code_simp
  have "map_option (\<lambda>op. (op_phase op, op_opType op)) (tracked (spt_optracker example_failed) ''Qm'')
      = Some (PhaseError, OperationPin)" by code_simp
  then obtain op where op: "tracked (spt_optracker example_failed) ''Qm'' = Some op"
      "op_opType op = OperationPin" "op_phase op = PhaseError" by auto
  have pin: "st_Get example_state ''Qm'' = Inr (example_data_pin ''Qm'')" "pin_Cid (example_data_pin ''Qm'') = ''Qm''"
    by (simp_all add: example_state_def example_data_pin_def PinCid_def)
  show ?thesis
    using Recover_requeues_pin [OF wf room op pin, of 3 example_ipfsid example_pinLsCid] by blast
qed

end
