(* ===== verification/Ds_State.thy ===== *)
theory Ds_State
  imports State_Interface
begin

text \<open>
  \<open>state/dsstate/datastore.go\<close>: the shared state kept in a go-datastore. The datastore, its keys and
  the snapshot encoding are libraries; they are the record \<open>ds_env\<close>, with what is expected of them in
  \<open>ds_ok\<close> and \<open>keys_ok\<close>. The lemmas show that the state implements the contract \<open>pin_state\<close> of the
  \<open>State\<close> interface, that listing and snapshots are faithful, that the batching variant shows its
  writes only after \<open>Commit\<close>, and when the pin counter is right.
\<close>

section \<open>The datastore\<close>

datatype ds_error = ds_ErrNotFound | ds_Error string

record serialEntry =
  se_Key :: string
  se_Value :: bytes

text \<open>
  \<open>'d\<close> is the content of the datastore. A query yields entries and errors in the order of its channel.
  \<open>dk_FromBinary\<close> and \<open>dk_ToBinary\<close> are \<open>dshelp.NewKeyFromBinary\<close> and \<open>dshelp.BinaryFromDsKey\<close>.
\<close>

record 'd ds_env =
  dse_Get :: "'d \<Rightarrow> string \<Rightarrow> ds_error + bytes"
  dse_Has :: "'d \<Rightarrow> string \<Rightarrow> ds_error + bool"
  dse_Put :: "string \<Rightarrow> bytes \<Rightarrow> 'd \<Rightarrow> ds_error option \<times> 'd"
  dse_Delete :: "string \<Rightarrow> 'd \<Rightarrow> ds_error option \<times> 'd"
  dse_Query :: "'d \<Rightarrow> string \<Rightarrow> ds_error + (ds_error + string \<times> bytes) list"
  dk_NewKey :: "string \<Rightarrow> string"
  dk_Child :: "string \<Rightarrow> string \<Rightarrow> string"
  dk_BaseNamespace :: "string \<Rightarrow> string"
  dk_FromBinary :: "bytes \<Rightarrow> string"
  dk_ToBinary :: "string \<Rightarrow> string + bytes"
  dse_codec :: codec
  dse_Encode :: "serialEntry \<Rightarrow> string + bytes"
  dse_Decode :: "bytes \<Rightarrow> string + serialEntry"

record 'd dsState =
  dst_env :: "'d ds_env"
  dst_data :: 'd
  dst_namespace :: string
  dst_totalPins :: int

section \<open>The operations\<close>

definition dsstate_New :: "'d ds_env \<Rightarrow> 'd \<Rightarrow> string \<Rightarrow> 'd dsState" where
  "dsstate_New env dstore namespace =
     \<lparr>dst_env = env, dst_data = dstore, dst_namespace = dk_NewKey env namespace, dst_totalPins = 0\<rparr>"

definition cidToDsKey :: "'d ds_env \<Rightarrow> cid \<Rightarrow> string" where
  "cidToDsKey env c = dk_FromBinary env (cid_Bytes (dse_codec env) c)"

definition dsKeyToCid :: "'d ds_env \<Rightarrow> string \<Rightarrow> string + cid" where
  "dsKeyToCid env k =
     (case dk_ToBinary env k of
        Inl err \<Rightarrow> Inl err
      | Inr kb \<Rightarrow> cid_Cast (dse_codec env) kb)"

definition ds_key :: "'d dsState \<Rightarrow> cid \<Rightarrow> string" where
  "ds_key st c = dk_Child (dst_env st) (dst_namespace st) (cidToDsKey (dst_env st) c)"

definition ds_unkey :: "'d dsState \<Rightarrow> string \<Rightarrow> string + cid" where
  "ds_unkey st k = dsKeyToCid (dst_env st) (dk_NewKey (dst_env st) (dk_BaseNamespace (dst_env st) k))"

definition serializePin :: "'d dsState \<Rightarrow> Pin \<Rightarrow> string + bytes" where
  "serializePin st c = ProtoMarshal (dse_codec (dst_env st)) c"

definition deserializePin :: "'d dsState \<Rightarrow> cid \<Rightarrow> bytes \<Rightarrow> string + Pin" where
  "deserializePin st c buf =
     (case ProtoUnmarshal (dse_codec (dst_env st)) zero_Pin buf of
        Inl err \<Rightarrow> Inl err
      | Inr p \<Rightarrow> Inr (p\<lparr>pin_Cid := c\<rparr>))"

fun ds_state_error :: "ds_error \<Rightarrow> state_error" where
  "ds_state_error ds_ErrNotFound = StateError ''datastore: key not found''"
| "ds_state_error (ds_Error err) = StateError err"

definition ds_Has :: "'d dsState \<Rightarrow> cid \<Rightarrow> state_error + bool" where
  "ds_Has st c =
     (case dse_Has (dst_env st) (dst_data st) (ds_key st c) of
        Inl err \<Rightarrow> Inl (ds_state_error err)
      | Inr ok \<Rightarrow> Inr ok)"

definition ds_Add :: "Pin \<Rightarrow> 'd dsState \<Rightarrow> state_error option \<times> 'd dsState" where
  "ds_Add c st =
     (case serializePin st c of
        Inl err \<Rightarrow> (Some (StateError err), st)
      | Inr ps \<Rightarrow>
          let has = (case ds_Has st (pin_Cid c) of Inl err \<Rightarrow> False | Inr ok \<Rightarrow> ok)
          in case dse_Put (dst_env st) (ds_key st (pin_Cid c)) ps (dst_data st) of
               (Some err, d) \<Rightarrow> (Some (ds_state_error err), st\<lparr>dst_data := d\<rparr>)
             | (None, d) \<Rightarrow>
                 (None, if \<not> has then st\<lparr>dst_data := d, dst_totalPins := wrap_int64 (dst_totalPins st + 1)\<rparr>
                        else st\<lparr>dst_data := d\<rparr>))"

definition ds_Rm :: "cid \<Rightarrow> 'd dsState \<Rightarrow> state_error option \<times> 'd dsState" where
  "ds_Rm c st =
     (case dse_Delete (dst_env st) (ds_key st c) (dst_data st) of
        (Some ds_ErrNotFound, d) \<Rightarrow> (None, st\<lparr>dst_data := d\<rparr>)
      | (Some err, d) \<Rightarrow> (Some (ds_state_error err), st\<lparr>dst_data := d\<rparr>)
      | (None, d) \<Rightarrow> (None, st\<lparr>dst_data := d, dst_totalPins := wrap_int64 (dst_totalPins st - 1)\<rparr>))"

definition ds_Get :: "'d dsState \<Rightarrow> cid \<Rightarrow> state_error + Pin" where
  "ds_Get st c =
     (case dse_Get (dst_env st) (dst_data st) (ds_key st c) of
        Inl ds_ErrNotFound \<Rightarrow> Inl ErrNotFound
      | Inl err \<Rightarrow> Inl (ds_state_error err)
      | Inr v \<Rightarrow>
          (case deserializePin st c v of
             Inl err \<Rightarrow> Inl (StateError err)
           | Inr p \<Rightarrow> Inr p))"

text \<open>
  \<open>List\<close>: the pins sent and the error. \<open>isDone n\<close> says whether the context is found done before the
  \<open>n\<close>-th result. The total is stored only when the loop ends.
\<close>

fun ds_List_loop ::
  "'d dsState \<Rightarrow> (nat \<Rightarrow> bool) \<Rightarrow> nat \<Rightarrow> (ds_error + string \<times> bytes) list \<Rightarrow> int \<Rightarrow> Pin list \<times> state_error option \<times> int" where
  "ds_List_loop st isDone n [] tot = ([], None, tot)"
| "ds_List_loop st isDone n (r # rs) tot =
     (if isDone n then ([], Some (StateError ''full pinset listing aborted''), tot)
      else case r of
             Inl err \<Rightarrow> ([], Some (StateError ''error in query result''), tot)
           | Inr (key, value) \<Rightarrow>
               (case ds_unkey st (dk_NewKey (dst_env st) key) of
                  Inl err \<Rightarrow> ds_List_loop st isDone (n + 1) rs tot
                | Inr ci \<Rightarrow>
                    (case deserializePin st ci value of
                       Inl err \<Rightarrow> ds_List_loop st isDone (n + 1) rs tot
                     | Inr p \<Rightarrow>
                         (case ds_List_loop st isDone (n + 1) rs (tot + 1) of
                            (ps, err, tot') \<Rightarrow> (p # ps, err, tot')))))"

definition ds_List :: "(nat \<Rightarrow> bool) \<Rightarrow> 'd dsState \<Rightarrow> Pin list \<times> state_error option \<times> 'd dsState" where
  "ds_List isDone st =
     (case dse_Query (dst_env st) (dst_data st) (dst_namespace st) of
        Inl err \<Rightarrow> ([], Some (ds_state_error err), st)
      | Inr results \<Rightarrow>
          (case ds_List_loop st isDone 0 results 0 of
             (ps, Some err, tot) \<Rightarrow> (ps, Some err, st)
           | (ps, None, tot) \<Rightarrow> (ps, None, st\<lparr>dst_totalPins := tot\<rparr>)))"

text \<open>The state as a reader sees it.\<close>

definition ds_ReadOnly :: "'d dsState \<Rightarrow> ReadOnlyState" where
  "ds_ReadOnly st = \<lparr>st_Get = ds_Get st, st_List = fst (ds_List (\<lambda>_. False) st)\<rparr>"

definition ds_Migrate :: "'d dsState \<Rightarrow> state_error option \<times> 'd dsState" where
  "ds_Migrate st = (None, st)"

section \<open>Snapshots\<close>

text \<open>\<open>Marshal\<close>: the encoded entries written, and the error.\<close>

fun ds_Marshal_loop :: "'d dsState \<Rightarrow> (ds_error + string \<times> bytes) list \<Rightarrow> bytes list \<times> state_error option" where
  "ds_Marshal_loop st [] = ([], None)"
| "ds_Marshal_loop st (r # rs) =
     (case r of
        Inl err \<Rightarrow> ([], Some (ds_state_error err))
      | Inr (key, value) \<Rightarrow>
          let k = dk_NewKey (dst_env st) key
          in case dse_Encode (dst_env st) \<lparr>se_Key = dk_BaseNamespace (dst_env st) k, se_Value = value\<rparr> of
               Inl err \<Rightarrow> ([], Some (StateError err))
             | Inr bs \<Rightarrow> (case ds_Marshal_loop st rs of (w, err) \<Rightarrow> (bs # w, err)))"

definition ds_Marshal :: "'d dsState \<Rightarrow> bytes list \<times> state_error option" where
  "ds_Marshal st =
     (case dse_Query (dst_env st) (dst_data st) (dst_namespace st) of
        Inl err \<Rightarrow> ([], Some (ds_state_error err))
      | Inr results \<Rightarrow> ds_Marshal_loop st results)"

fun ds_Unmarshal :: "bytes list \<Rightarrow> 'd dsState \<Rightarrow> state_error option \<times> 'd dsState" where
  "ds_Unmarshal [] st = (None, st)"
| "ds_Unmarshal (b # bs) st =
     (case dse_Decode (dst_env st) b of
        Inl err \<Rightarrow> (Some (StateError err), st)
      | Inr entry \<Rightarrow>
          let k = dk_Child (dst_env st) (dst_namespace st) (dk_NewKey (dst_env st) (se_Key entry))
          in case dse_Put (dst_env st) k (se_Value entry) (dst_data st) of
               (Some err, d) \<Rightarrow> (Some (ds_state_error err), st\<lparr>dst_data := d\<rparr>)
             | (None, d) \<Rightarrow> ds_Unmarshal bs (st\<lparr>dst_data := d\<rparr>))"

section \<open>Batching\<close>

text \<open>
  \<open>BatchingState\<close>: the same operations, reading from the datastore and writing to a batch of it.
  \<open>'b\<close> is the batch; \<open>Commit\<close> is the batch's.
\<close>

record ('d, 'b) batch_env =
  be_Put :: "string \<Rightarrow> bytes \<Rightarrow> 'b \<Rightarrow> ds_error option \<times> 'b"
  be_Delete :: "string \<Rightarrow> 'b \<Rightarrow> ds_error option \<times> 'b"
  be_Commit :: "'b \<Rightarrow> 'd \<Rightarrow> ds_error option \<times> 'd \<times> 'b"

definition batching_env :: "'d ds_env \<Rightarrow> ('d, 'b) batch_env \<Rightarrow> ('d \<times> 'b) ds_env" where
  "batching_env env be =
     \<lparr>dse_Get = (\<lambda>d. dse_Get env (fst d)), dse_Has = (\<lambda>d. dse_Has env (fst d)),
      dse_Put = (\<lambda>k v (d, b). case be_Put be k v b of (e, b') \<Rightarrow> (e, (d, b'))),
      dse_Delete = (\<lambda>k (d, b). case be_Delete be k b of (e, b') \<Rightarrow> (e, (d, b'))),
      dse_Query = (\<lambda>d. dse_Query env (fst d)),
      dk_NewKey = dk_NewKey env, dk_Child = dk_Child env, dk_BaseNamespace = dk_BaseNamespace env,
      dk_FromBinary = dk_FromBinary env, dk_ToBinary = dk_ToBinary env, dse_codec = dse_codec env,
      dse_Encode = dse_Encode env, dse_Decode = dse_Decode env\<rparr>"

definition NewBatching :: "'d ds_env \<Rightarrow> ('d, 'b) batch_env \<Rightarrow> 'd \<Rightarrow> 'b \<Rightarrow> string \<Rightarrow> ('d \<times> 'b) dsState" where
  "NewBatching env be dstore batch namespace = dsstate_New (batching_env env be) (dstore, batch) namespace"

definition bst_Commit :: "('d, 'b) batch_env \<Rightarrow> ('d \<times> 'b) dsState \<Rightarrow> state_error option \<times> ('d \<times> 'b) dsState" where
  "bst_Commit be bst =
     (case dst_data bst of (d, b) \<Rightarrow>
        (case be_Commit be b d of
           (e, d', b') \<Rightarrow> (map_option ds_state_error e, bst\<lparr>dst_data := (d', b')\<rparr>)))"

section \<open>What is expected of the datastore\<close>

text \<open>The bytes a datastore holds for a key.\<close>

definition ds_view :: "'d ds_env \<Rightarrow> 'd \<Rightarrow> string \<rightharpoonup> bytes" where
  "ds_view env d k = (case dse_Get env d k of Inl err \<Rightarrow> None | Inr v \<Rightarrow> Some v)"

text \<open>
  A working datastore: reads do not fail, a write that reports an error has not written, a deleted key
  is gone, and a query of the namespace yields each of its entries once.
\<close>

definition ds_ok :: "'d ds_env \<Rightarrow> string \<Rightarrow> bool" where
  "ds_ok env ns \<longleftrightarrow>
     (\<forall>d k. dse_Get env d k = (case ds_view env d k of None \<Rightarrow> Inl ds_ErrNotFound | Some v \<Rightarrow> Inr v)) \<and>
     (\<forall>d k. dse_Has env d k = Inr (ds_view env d k \<noteq> None)) \<and>
     (\<forall>d k v e d'. dse_Put env k v d = (e, d') \<longrightarrow>
        ds_view env d' = (if e = None then (ds_view env d)(k \<mapsto> v) else ds_view env d)) \<and>
     (\<forall>d k e d'. dse_Delete env k d = (e, d') \<longrightarrow>
        ds_view env d' = (if e = None \<or> e = Some ds_ErrNotFound then (ds_view env d)(k := None) else ds_view env d) \<and>
        (e = Some ds_ErrNotFound \<longrightarrow> ds_view env d k = None)) \<and>
     (\<forall>d. \<exists>rs. dse_Query env d ns = Inr (map Inr rs) \<and> distinct (map fst rs) \<and>
        (\<forall>k v. (k, v) \<in> set rs \<longleftrightarrow> ds_view env d k = Some v \<and> (\<exists>x. k = dk_Child env ns x)))"

text \<open>
  Keys: a key that was built is read back as it is, and the name below the namespace is found again.
  CIDs: those that are defined are read back from their bytes.
\<close>

definition keys_ok :: "'d ds_env \<Rightarrow> string \<Rightarrow> bool" where
  "keys_ok env ns \<longleftrightarrow>
     (\<forall>x. dk_NewKey env (dk_Child env ns x) = dk_Child env ns x) \<and>
     (\<forall>b. dk_NewKey env (dk_BaseNamespace env (dk_Child env ns (dk_FromBinary env b))) = dk_FromBinary env b) \<and>
     (\<forall>b. dk_ToBinary env (dk_FromBinary env b) = Inr b) \<and>
     (\<forall>c. c \<noteq> CidUndef \<longrightarrow> cid_Cast (dse_codec env) (cid_Bytes (dse_codec env) c) = Inr c) \<and>
     cid_Bytes (dse_codec env) CidUndef = [] \<and> (\<exists>e. cid_Cast (dse_codec env) [] = Inl e)"

lemma ds_okD:
  assumes "ds_ok env ns"
  shows "dse_Get env d k = (case ds_view env d k of None \<Rightarrow> Inl ds_ErrNotFound | Some v \<Rightarrow> Inr v)"
    and "dse_Has env d k = Inr (ds_view env d k \<noteq> None)"
    and "dse_Put env k v d = (e, d') \<Longrightarrow> ds_view env d' = (if e = None then (ds_view env d)(k \<mapsto> v) else ds_view env d)"
    and "dse_Delete env k d = (e, d') \<Longrightarrow>
      ds_view env d' = (if e = None \<or> e = Some ds_ErrNotFound then (ds_view env d)(k := None) else ds_view env d) \<and>
      (e = Some ds_ErrNotFound \<longrightarrow> ds_view env d k = None)"
    and "\<exists>rs. dse_Query env d ns = Inr (map Inr rs) \<and> distinct (map fst rs) \<and>
        (\<forall>k v. (k, v) \<in> set rs \<longleftrightarrow> ds_view env d k = Some v \<and> (\<exists>x. k = dk_Child env ns x))"
  using assms unfolding ds_ok_def by blast+

text \<open>The pin set a state stands for, and the states in which every entry of the namespace is a pin.\<close>

abbreviation dst_view :: "'d dsState \<Rightarrow> string \<rightharpoonup> bytes" where
  "dst_view st \<equiv> ds_view (dst_env st) (dst_data st)"

definition ds_pins :: "'d dsState \<Rightarrow> cid \<rightharpoonup> Pin" where
  "ds_pins st c =
     (case dst_view st (ds_key st c) of
        None \<Rightarrow> None
      | Some v \<Rightarrow> (case deserializePin st c v of Inl err \<Rightarrow> None | Inr p \<Rightarrow> Some p))"

definition dsst_inv :: "'d dsState \<Rightarrow> bool" where
  "dsst_inv st \<longleftrightarrow> ds_ok (dst_env st) (dst_namespace st) \<and> keys_ok (dst_env st) (dst_namespace st) \<and>
     (\<forall>x v. dst_view st (dk_Child (dst_env st) (dst_namespace st) x) = Some v \<longrightarrow>
        (\<exists>c p. c \<noteq> CidUndef \<and> dk_Child (dst_env st) (dst_namespace st) x = ds_key st c \<and> deserializePin st c v = Inr p))"

definition ds_storable :: "'d dsState \<Rightarrow> Pin \<Rightarrow> bool" where
  "ds_storable st p \<longleftrightarrow> codec_ok (dse_codec (dst_env st)) p \<and> serialisable p \<and> pin_Cid p \<noteq> CidUndef"

lemma ds_unkey_key:
  assumes "keys_ok (dst_env st) (dst_namespace st)" "c \<noteq> CidUndef"
  shows "ds_unkey st (dk_NewKey (dst_env st) (ds_key st c)) = Inr c"
  using assms by (simp add: keys_ok_def ds_unkey_def ds_key_def dsKeyToCid_def cidToDsKey_def)

lemma ds_key_inj:
  assumes k: "keys_ok (dst_env st) (dst_namespace st)" and eq: "ds_key st c = ds_key st c'"
  shows "c = c'"
proof -
  let ?cast = "\<lambda>c. cid_Cast (dse_codec (dst_env st)) (cid_Bytes (dse_codec (dst_env st)) c)"
  have "ds_unkey st (ds_key st x) = ?cast x" for x
    using k by (simp add: keys_ok_def ds_unkey_def ds_key_def dsKeyToCid_def cidToDsKey_def)
  with eq have "?cast c = ?cast c'" by metis
  then show ?thesis using k unfolding keys_ok_def by (metis Inl_Inr_False sum.inject(2))
qed

lemma deserialize_pin_upd [simp]:
  "deserializePin (st\<lparr>dst_data := d\<rparr>) = deserializePin st" "deserializePin (st\<lparr>dst_totalPins := n\<rparr>) = deserializePin st"
  "ds_key (st\<lparr>dst_data := d\<rparr>) = ds_key st" "ds_key (st\<lparr>dst_totalPins := n\<rparr>) = ds_key st"
  by (simp_all add: deserializePin_def ds_key_def fun_eq_iff)

lemma ds_pins_total [simp]: "ds_pins (st\<lparr>dst_totalPins := n\<rparr>) = ds_pins st"
  by (simp add: ds_pins_def fun_eq_iff split: option.split)

lemma dsst_inv_total [simp]: "dsst_inv (st\<lparr>dst_totalPins := n\<rparr>) = dsst_inv st"
  by (simp add: dsst_inv_def)

lemma ds_storable_upd [simp]:
  "ds_storable (st\<lparr>dst_data := d\<rparr>) = ds_storable st" "ds_storable (st\<lparr>dst_totalPins := n\<rparr>) = ds_storable st"
  by (simp_all add: ds_storable_def fun_eq_iff)

lemma dsst_invD:
  assumes "dsst_inv st"
  shows "ds_ok (dst_env st) (dst_namespace st)" "keys_ok (dst_env st) (dst_namespace st)"
  using assms unfolding dsst_inv_def by blast+

lemma ds_view_inv:
  assumes "dsst_inv st" "dst_view st (ds_key st c) = Some v"
  shows "c \<noteq> CidUndef \<and> (\<exists>p. deserializePin st c v = Inr p \<and> ds_pins st c = Some p)"
proof -
  obtain c' p where c': "c' \<noteq> CidUndef" "ds_key st c = ds_key st c'" "deserializePin st c' v = Inr p"
    using assms unfolding dsst_inv_def by (metis ds_key_def)
  have "c = c'" by (rule ds_key_inj [OF dsst_invD(2) [OF assms(1)] c'(2)])
  with c' assms(2) show ?thesis by (simp add: ds_pins_def)
qed

lemma ds_Get_pins:
  assumes "dsst_inv st"
  shows "ds_Get st c = (case ds_pins st c of None \<Rightarrow> Inl ErrNotFound | Some p \<Rightarrow> Inr p)"
proof -
  note ok = dsst_invD(1) [OF assms]
  show ?thesis
  proof (cases "dst_view st (ds_key st c)")
    case None
    then show ?thesis by (simp add: ds_Get_def ds_pins_def ds_okD(1) [OF ok])
  next
    case (Some v)
    then obtain p where "deserializePin st c v = Inr p" "ds_pins st c = Some p" using ds_view_inv [OF assms] by blast
    with Some show ?thesis by (simp add: ds_Get_def ds_okD(1) [OF ok])
  qed
qed

text \<open>Replacing or deleting the entry of one CID.\<close>

lemma ds_pins_put:
  assumes inv: "dsst_inv st" and c: "c \<noteq> CidUndef" and p: "deserializePin st c v = Inr p"
    and d: "ds_view (dst_env st) d = (dst_view st)(ds_key st c \<mapsto> v)"
  shows "ds_pins (st\<lparr>dst_data := d\<rparr>) = (ds_pins st)(c \<mapsto> p)" "dsst_inv (st\<lparr>dst_data := d\<rparr>)"
proof -
  note k = dsst_invD(2) [OF inv]
  show "ds_pins (st\<lparr>dst_data := d\<rparr>) = (ds_pins st)(c \<mapsto> p)"
    using ds_key_inj [OF k] p by (auto simp: ds_pins_def d fun_eq_iff split: option.split)
  show "dsst_inv (st\<lparr>dst_data := d\<rparr>)"
    using inv c p unfolding dsst_inv_def by (auto simp: d split: if_splits)
qed

lemma ds_pins_delete:
  assumes inv: "dsst_inv st" and d: "ds_view (dst_env st) d = (dst_view st)(ds_key st c := None)"
  shows "ds_pins (st\<lparr>dst_data := d\<rparr>) = (ds_pins st)(c := None)" "dsst_inv (st\<lparr>dst_data := d\<rparr>)"
proof -
  note k = dsst_invD(2) [OF inv]
  show "ds_pins (st\<lparr>dst_data := d\<rparr>) = (ds_pins st)(c := None)"
    using ds_key_inj [OF k] by (auto simp: ds_pins_def d fun_eq_iff split: option.split)
  show "dsst_inv (st\<lparr>dst_data := d\<rparr>)"
    using inv unfolding dsst_inv_def by (auto simp: d split: if_splits)
qed

lemma ds_pins_same:
  assumes inv: "dsst_inv st" and d: "ds_view (dst_env st) d = dst_view st"
  shows "ds_pins (st\<lparr>dst_data := d\<rparr>) = ds_pins st" "dsst_inv (st\<lparr>dst_data := d\<rparr>)"
  using inv by (simp_all add: ds_pins_def d fun_eq_iff dsst_inv_def split: option.split)

lemma deserialize_serialize:
  assumes "ds_storable st p" "serializePin st p = Inr ps"
  shows "deserializePin st (pin_Cid p) ps = Inr (stored_pin zero_Pin p)"
  using assms ProtoMarshal_stored [of "dse_codec (dst_env st)" p ps zero_Pin]
  by (simp add: ds_storable_def serializePin_def deserializePin_def stored_pin_def Let_def)

lemma ds_Add_pins:
  assumes inv: "dsst_inv st" and p: "ds_storable st p" and r: "ds_Add p st = (e, st')"
  shows "dsst_inv st' \<and> ds_storable st' = ds_storable st \<and>
    ds_pins st' = (if e = None then (ds_pins st)(pin_Cid p \<mapsto> stored_pin zero_Pin p) else ds_pins st)"
proof (cases "serializePin st p")
  case (Inl err)
  then show ?thesis using r inv by (auto simp: ds_Add_def)
next
  case (Inr ps)
  note ok = dsst_invD(1) [OF inv]
  obtain e' d where put: "dse_Put (dst_env st) (ds_key st (pin_Cid p)) ps (dst_data st) = (e', d)"
    by (cases "dse_Put (dst_env st) (ds_key st (pin_Cid p)) ps (dst_data st)")
  note view = ds_okD(3) [OF ok put]
  show ?thesis
  proof (cases e')
    case None
    have "pin_Cid p \<noteq> CidUndef" using p by (simp add: ds_storable_def)
    from ds_pins_put [OF inv this deserialize_serialize [OF p Inr], of d] show ?thesis
      using r put None view by (auto simp: ds_Add_def Inr Let_def split: if_splits)
  next
    case (Some err)
    then show ?thesis using r put view ds_pins_same [OF inv, of d] by (auto simp: ds_Add_def Inr Let_def)
  qed
qed

lemma ds_Rm_pins:
  assumes inv: "dsst_inv st" and r: "ds_Rm c st = (e, st')"
  shows "dsst_inv st' \<and> ds_storable st' = ds_storable st \<and>
    ds_pins st' = (if e = None then (ds_pins st)(c := None) else ds_pins st)"
proof -
  note ok = dsst_invD(1) [OF inv]
  obtain e' d where del: "dse_Delete (dst_env st) (ds_key st c) (dst_data st) = (e', d)"
    by (cases "dse_Delete (dst_env st) (ds_key st c) (dst_data st)")
  note view = ds_okD(4) [OF ok del]
  consider "e' = None" | "e' = Some ds_ErrNotFound" | err where "e' = Some (ds_Error err)"
    by (cases e') (auto, metis ds_error.exhaust)
  then show ?thesis
    using r del view ds_pins_delete [OF inv, of d c] ds_pins_same [OF inv, of d]
    by cases (auto simp: ds_Rm_def)
qed

interpretation dss: pin_state dsst_inv ds_storable "stored_pin zero_Pin" ds_pins ds_Get ds_Add ds_Rm
proof
  fix st c p e and st' :: "'a dsState"
  show "dsst_inv st \<Longrightarrow> ds_Get st c = (case ds_pins st c of None \<Rightarrow> Inl ErrNotFound | Some p \<Rightarrow> Inr p)"
    by (rule ds_Get_pins)
qed (rule ds_Add_pins ds_Rm_pins; assumption)+

text \<open>
  C8. The datastore state is a pin set. Starting from a state whose datastore works and whose entries are
  pins, after any log of \<open>Add\<close> and \<open>Rm\<close> calls for pins that can be serialised, \<open>Get\<close> returns for every CID
  the pin that the successful calls leave in a map, in its stored form, and \<open>ErrNotFound\<close> for the
  others. Calls that fail change nothing.
\<close>

theorem dsstate_refines_pinset:
  assumes "dsst_inv st" "\<forall>q \<in> set ops. op_storable (ds_storable st) q"
  shows "\<exists>st' ok. state_apply ds_Add ds_Rm st ops = (st', ok) \<and>
    (\<forall>c. ds_Get st' c = (case foldl (pinset_step (stored_pin zero_Pin)) (ds_pins st) ok c of
        None \<Rightarrow> Inl ErrNotFound | Some p \<Rightarrow> Inr p))"
  using dss.log_pins [OF assms] dss.get_pins by metis

section \<open>Listing and counting\<close>

lemma deserialize_cid: "deserializePin st c v = Inr p \<Longrightarrow> pin_Cid p = c"
  by (auto simp: deserializePin_def split: sum.splits)

lemma ds_pins_cid: "ds_pins st c = Some p \<Longrightarrow> pin_Cid p = c"
  by (auto simp: ds_pins_def deserialize_cid split: option.splits sum.splits)

text \<open>The pins that the entries of a query stand for.\<close>

definition entry_pin :: "'d dsState \<Rightarrow> string \<times> bytes \<Rightarrow> Pin \<Rightarrow> bool" where
  "entry_pin st e p \<longleftrightarrow> pin_Cid p \<noteq> CidUndef \<and> fst e = ds_key st (pin_Cid p) \<and> deserializePin st (pin_Cid p) (snd e) = Inr p"

lemma ds_query:
  assumes "dsst_inv st"
  obtains rs ps where "dse_Query (dst_env st) (dst_data st) (dst_namespace st) = Inr (map Inr rs)"
    "list_all2 (entry_pin st) rs ps" "distinct (map pin_Cid ps)"
    "\<forall>c p. ds_pins st c = Some p \<longleftrightarrow> p \<in> set ps \<and> pin_Cid p = c"
proof -
  let ?Child = "dk_Child (dst_env st) (dst_namespace st)"
  obtain rs where rs: "dse_Query (dst_env st) (dst_data st) (dst_namespace st) = Inr (map Inr rs)"
      "distinct (map fst rs)" "\<forall>k v. (k, v) \<in> set rs \<longleftrightarrow> dst_view st k = Some v \<and> (\<exists>x. k = ?Child x)"
    using ds_okD(5) [OF dsst_invD(1) [OF assms]] by blast
  have entry: "\<exists>p. entry_pin st e p" if "e \<in> set rs" for e
  proof -
    obtain k v where e: "e = (k, v)" by (cases e)
    then have "dst_view st k = Some v" "\<exists>x. k = ?Child x" using rs(3) that by blast+
    then obtain c p where "c \<noteq> CidUndef" "k = ds_key st c" "deserializePin st c v = Inr p"
      using assms unfolding dsst_inv_def by blast
    with e show ?thesis using deserialize_cid unfolding entry_pin_def by fastforce
  qed
  then obtain f where f: "\<forall>e \<in> set rs. entry_pin st e (f e)" by metis
  let ?ps = "map f rs"
  have "map fst rs = map (ds_key st) (map pin_Cid ?ps)" using f by (auto simp: entry_pin_def)
  then have "distinct (map pin_Cid ?ps)" using rs(2) distinct_map by metis
  moreover have "ds_pins st c = Some p \<longleftrightarrow> p \<in> set ?ps \<and> pin_Cid p = c" for c p
  proof
    assume p: "ds_pins st c = Some p"
    then obtain v where v: "dst_view st (ds_key st c) = Some v" "deserializePin st c v = Inr p"
      by (auto simp: ds_pins_def split: option.splits sum.splits)
    then have in_rs: "(ds_key st c, v) \<in> set rs" using rs(3) by (auto simp: ds_key_def)
    then have "entry_pin st (ds_key st c, v) (f (ds_key st c, v))" using f by blast
    then have "f (ds_key st c, v) = p"
      using v(2) ds_key_inj [OF dsst_invD(2) [OF assms]] unfolding entry_pin_def by (metis fst_conv snd_conv sum.inject(2))
    then show "p \<in> set ?ps \<and> pin_Cid p = c" using in_rs ds_pins_cid [OF p] by force
  next
    assume "p \<in> set ?ps \<and> pin_Cid p = c"
    then obtain e where e: "e \<in> set rs" "p = f e" "pin_Cid p = c" by auto
    then have "entry_pin st e p" using f by blast
    moreover have "dst_view st (fst e) = Some (snd e)" using rs(3) e(1) by (metis prod.collapse)
    ultimately show "ds_pins st c = Some p" using e(3) by (simp add: entry_pin_def ds_pins_def)
  qed
  moreover have "list_all2 (entry_pin st) rs ?ps" using f by (simp add: list_all2_conv_all_nth)
  ultimately show thesis using that rs(1) by blast
qed

lemma ds_List_loop_entries:
  assumes "keys_ok (dst_env st) (dst_namespace st)" "list_all2 (entry_pin st) rs ps"
  shows "ds_List_loop st (\<lambda>_. False) n (map Inr rs) t = (ps, None, t + int (length ps))"
  using assms(2)
proof (induction rs ps arbitrary: n t rule: list_all2_induct)
  case (Cons e rs p ps)
  have "ds_unkey st (dk_NewKey (dst_env st) (fst e)) = Inr (pin_Cid p)"
    using ds_unkey_key [OF assms(1), of "pin_Cid p"] Cons(1) by (simp add: entry_pin_def)
  then show ?case using Cons by (cases e) (simp add: entry_pin_def)
qed simp

definition counter_ok :: "'d dsState \<Rightarrow> bool" where
  "counter_ok st \<longleftrightarrow> dst_totalPins st = int (card (dom (ds_pins st)))"

lemma ds_dom:
  assumes "distinct (map pin_Cid ps)" "\<forall>c p. ds_pins st c = Some p \<longleftrightarrow> p \<in> set ps \<and> pin_Cid p = c"
  shows "dom (ds_pins st) = pin_Cid ` set ps" "card (dom (ds_pins st)) = length ps"
proof -
  show "dom (ds_pins st) = pin_Cid ` set ps" using assms(2) by (auto simp: dom_def)
  then show "card (dom (ds_pins st)) = length ps" using distinct_card [OF assms(1)] by simp
qed

lemma finite_pins: "dsst_inv st \<Longrightarrow> finite (dom (ds_pins st))"
  by (rule ds_query [of st]) (auto simp: ds_dom)

lemma ds_List_pins:
  assumes "dsst_inv st"
  shows "\<exists>ps. ds_List (\<lambda>_. False) st = (ps, None, st\<lparr>dst_totalPins := int (length ps)\<rparr>) \<and> distinct (map pin_Cid ps) \<and>
    (\<forall>c p. ds_pins st c = Some p \<longleftrightarrow> p \<in> set ps \<and> pin_Cid p = c)"
proof (rule ds_query [OF assms])
  fix rs ps
  assume q: "dse_Query (dst_env st) (dst_data st) (dst_namespace st) = Inr (map Inr rs)"
    "list_all2 (entry_pin st) rs ps" "distinct (map pin_Cid ps)"
    "\<forall>c p. ds_pins st c = Some p \<longleftrightarrow> p \<in> set ps \<and> pin_Cid p = c"
  have "ds_List (\<lambda>_. False) st = (ps, None, st\<lparr>dst_totalPins := int (length ps)\<rparr>)"
    using ds_List_loop_entries [OF dsst_invD(2) [OF assms] q(2), of 0 0] by (simp add: ds_List_def q(1))
  with q show ?thesis by auto
qed

text \<open>
  Listing. If the context is not cancelled, \<open>List\<close> succeeds and sends every pin of the state exactly
  once and nothing else, and it sets the pin counter to their number.
\<close>

theorem dsstate_List:
  assumes "dsst_inv st"
  shows "\<exists>ps st'. ds_List (\<lambda>_. False) st = (ps, None, st') \<and> distinct (map pin_Cid ps) \<and>
    (\<forall>c p. ds_pins st c = Some p \<longleftrightarrow> p \<in> set ps \<and> pin_Cid p = c) \<and>
    ds_pins st' = ds_pins st \<and> counter_ok st'"
proof -
  from ds_List_pins [OF assms] obtain ps where ps: "ds_List (\<lambda>_. False) st = (ps, None, st\<lparr>dst_totalPins := int (length ps)\<rparr>)"
    "distinct (map pin_Cid ps)" "\<forall>c p. ds_pins st c = Some p \<longleftrightarrow> p \<in> set ps \<and> pin_Cid p = c" by blast
  moreover have "counter_ok (st\<lparr>dst_totalPins := int (length ps)\<rparr>)"
    using ds_dom(2) [OF ps(2,3)] by (simp add: counter_ok_def)
  ultimately show ?thesis by auto
qed

text \<open>
  The pin counter. A right counter stays right under \<open>Add\<close>, whether the pin is new or replaced and
  whether the call fails, and under \<open>Rm\<close> of a pin that is there.
\<close>

theorem dsstate_counter:
  assumes inv: "dsst_inv st" and cnt: "counter_ok st" and size: "card (dom (ds_pins st)) < 2 ^ 63 - 1"
  shows "(ds_storable st p \<longrightarrow> counter_ok (snd (ds_Add p st))) \<and>
    (ds_pins st c \<noteq> None \<longrightarrow> counter_ok (snd (ds_Rm c st)))"
proof (intro conjI impI)
  note fin = finite_pins [OF inv]
  assume p: "ds_storable st p"
  obtain e st' where r: "ds_Add p st = (e, st')" by (cases "ds_Add p st")
  note pins = ds_Add_pins [OF inv p r]
  show "counter_ok (snd (ds_Add p st))"
  proof (cases "e = None")
    case False
    then have "dst_totalPins st' = dst_totalPins st"
      using r by (auto simp: ds_Add_def Let_def split: sum.splits prod.splits option.splits)
    with False pins cnt r show ?thesis by (auto simp: counter_ok_def)
  next
    case True
    have "dst_view st (ds_key st (pin_Cid p)) = None \<longleftrightarrow> ds_pins st (pin_Cid p) = None"
      using ds_view_inv [OF inv, of "pin_Cid p"] by (cases "dst_view st (ds_key st (pin_Cid p))") (auto simp: ds_pins_def)
    then have "dst_totalPins st' = (if ds_pins st (pin_Cid p) = None then wrap_int64 (dst_totalPins st + 1) else dst_totalPins st)"
      using r True by (auto simp: ds_Add_def Let_def ds_Has_def ds_okD(2) [OF dsst_invD(1) [OF inv]]
          split: sum.splits prod.splits option.splits)
    with True pins cnt r size fin show ?thesis
      by (auto simp: counter_ok_def card_insert_if domIff fits_signed_def)
  qed
next
  assume c: "ds_pins st c \<noteq> None"
  obtain e st' where r: "ds_Rm c st = (e, st')" by (cases "ds_Rm c st")
  obtain e' d where del: "dse_Delete (dst_env st) (ds_key st c) (dst_data st) = (e', d)"
    by (cases "dse_Delete (dst_env st) (ds_key st c) (dst_data st)")
  have "dst_view st (ds_key st c) \<noteq> None" using c by (auto simp: ds_pins_def split: option.splits)
  then have "e' \<noteq> Some ds_ErrNotFound" using ds_okD(4) [OF dsst_invD(1) [OF inv] del] by blast
  then have "dst_totalPins st' = (if e = None then wrap_int64 (dst_totalPins st - 1) else dst_totalPins st)"
    using r del by (auto simp: ds_Rm_def split: option.splits ds_error.splits)
  moreover have "card (dom (ds_pins st)) = Suc (card (dom (ds_pins st) - {c}))"
    using c finite_pins [OF inv] by (metis card_Suc_Diff1 domIff)
  ultimately show "counter_ok (snd (ds_Rm c st))"
    using ds_Rm_pins [OF inv r] cnt r size by (auto simp: counter_ok_def fits_signed_def)
qed

text \<open>
  Removing a pin that is not there makes the counter wrong when the datastore's \<open>Delete\<close> of a missing
  key succeeds, as go-datastore documents: \<open>Rm\<close> is a no-op on the pin set and still decrements the
  counter.
\<close>

theorem ds_Rm_counter_drift:
  assumes inv: "dsst_inv st" and cnt: "counter_ok st" and c: "ds_pins st c = None"
    and del: "fst (dse_Delete (dst_env st) (ds_key st c) (dst_data st)) = None"
    and size: "card (dom (ds_pins st)) < 2 ^ 63"
  shows "fst (ds_Rm c st) = None \<and> ds_pins (snd (ds_Rm c st)) = ds_pins st \<and>
    dst_totalPins (snd (ds_Rm c st)) = int (card (dom (ds_pins (snd (ds_Rm c st))))) - 1"
proof -
  obtain d where d: "dse_Delete (dst_env st) (ds_key st c) (dst_data st) = (None, d)"
    using del by (metis prod.collapse)
  then have r: "ds_Rm c st = (None, st\<lparr>dst_data := d, dst_totalPins := wrap_int64 (dst_totalPins st - 1)\<rparr>)"
    by (simp add: ds_Rm_def)
  have "ds_pins (snd (ds_Rm c st)) = ds_pins st"
    using ds_Rm_pins [OF inv r] c r by auto
  then show ?thesis using cnt size r by (simp add: counter_ok_def fits_signed_def)
qed

lemma option_eqI: "(\<And>x. a = Some x \<longleftrightarrow> b = Some x) \<Longrightarrow> a = b"
  by (cases a) (metis option.exhaust)+

section \<open>Snapshots restore the pin set\<close>

text \<open>The snapshot encoding reads back what it wrote, and the datastore accepts the entries.\<close>

definition snapshot_ok :: "'d ds_env \<Rightarrow> bool" where
  "snapshot_ok env \<longleftrightarrow> (\<forall>e. \<exists>b. dse_Encode env e = Inr b \<and> dse_Decode env b = Inr e) \<and>
     (\<forall>k v d. fst (dse_Put env k v d) = None)"

lemma restore_entries:
  assumes env: "dst_env st = dst_env st0" "dst_namespace st = dst_namespace st0" and snap: "snapshot_ok (dst_env st0)"
    and keys: "keys_ok (dst_env st0) (dst_namespace st0)" and ps: "list_all2 (entry_pin st0) rs ps" and inv: "dsst_inv st"
  shows "\<exists>w st'. ds_Marshal_loop st0 (map Inr rs) = (w, None) \<and> ds_Unmarshal w st = (None, st') \<and> dsst_inv st' \<and>
    ds_pins st' = ds_pins st ++ map_of (rev (map (\<lambda>p. (pin_Cid p, p)) ps))"
  using ps env inv
proof (induction rs ps arbitrary: st rule: list_all2_induct)
  case Nil
  then show ?case by simp
next
  case (Cons e rs p ps)
  obtain k v where e: "e = (k, v)" by (cases e)
  have p: "pin_Cid p \<noteq> CidUndef" "k = ds_key st0 (pin_Cid p)" "deserializePin st0 (pin_Cid p) v = Inr p"
    using Cons(1) by (simp_all add: e entry_pin_def)
  have same: "ds_key st = ds_key st0" "deserializePin st = deserializePin st0"
    using Cons.prems(1,2) by (simp_all add: ds_key_def deserializePin_def fun_eq_iff)
  let ?entry = "\<lparr>se_Key = dk_BaseNamespace (dst_env st0) (dk_NewKey (dst_env st0) k), se_Value = v\<rparr>"
  obtain b where b: "dse_Encode (dst_env st0) ?entry = Inr b" "dse_Decode (dst_env st0) b = Inr ?entry"
    using snap unfolding snapshot_ok_def by blast
  have k: "dk_Child (dst_env st0) (dst_namespace st0) (dk_NewKey (dst_env st0) (se_Key ?entry)) = k"
    using keys p(2) by (simp add: keys_ok_def ds_key_def cidToDsKey_def)
  obtain d where d: "dse_Put (dst_env st0) k v (dst_data st) = (None, d)"
    using snap unfolding snapshot_ok_def by (metis prod.collapse)
  have view: "ds_view (dst_env st) d = (dst_view st)(ds_key st (pin_Cid p) \<mapsto> v)"
    using ds_okD(3) [OF dsst_invD(1) [OF Cons.prems(3)], of k v "dst_data st" None d] d Cons.prems(1) p(2) same by simp
  note put = ds_pins_put [OF Cons.prems(3) p(1) _ view, of p, unfolded same, OF p(3)]
  obtain w st' where IH: "ds_Marshal_loop st0 (map Inr rs) = (w, None)" "ds_Unmarshal w (st\<lparr>dst_data := d\<rparr>) = (None, st')"
      "dsst_inv st'" "ds_pins st' = ds_pins (st\<lparr>dst_data := d\<rparr>) ++ map_of (rev (map (\<lambda>p. (pin_Cid p, p)) ps))"
    using Cons.IH [of "st\<lparr>dst_data := d\<rparr>"] Cons.prems(1,2) put(2) by auto
  have "ds_Marshal_loop st0 (map Inr (e # rs)) = (b # w, None)" using IH(1) b(1) by (simp add: e Let_def)
  moreover have "ds_Unmarshal (b # w) st = (None, st')"
    using IH(2) b(2) d k Cons.prems(1,2) by (simp add: Let_def)
  moreover have "ds_pins st' = ds_pins st ++ map_of (rev (map (\<lambda>p. (pin_Cid p, p)) (p # ps)))"
    using IH(4) put(1) by (simp add: map_add_upd_left fun_eq_iff map_add_def split: option.split)
  ultimately show ?case using IH(3) by blast
qed

text \<open>
  C23. Snapshots. Writing a state with \<open>Marshal\<close> and reading the snapshot with \<open>Unmarshal\<close> into a state over
  the same kind of datastore and namespace adds exactly the pins of the first to those of the second,
  the ones of the snapshot winning; in particular an empty state becomes a copy.
\<close>

theorem dsstate_snapshot:
  assumes st: "dsst_inv st" and st0: "dsst_inv st0" and env: "dst_env st0 = dst_env st" "dst_namespace st0 = dst_namespace st"
    and snap: "snapshot_ok (dst_env st)"
  shows "\<exists>w st'. ds_Marshal st = (w, None) \<and> ds_Unmarshal w st0 = (None, st') \<and> dsst_inv st' \<and>
    ds_pins st' = ds_pins st0 ++ ds_pins st"
proof (rule ds_query [OF st])
  fix rs ps
  assume q: "dse_Query (dst_env st) (dst_data st) (dst_namespace st) = Inr (map Inr rs)"
    "list_all2 (entry_pin st) rs ps" "distinct (map pin_Cid ps)"
    "\<forall>c p. ds_pins st c = Some p \<longleftrightarrow> p \<in> set ps \<and> pin_Cid p = c"
  let ?m = "map (\<lambda>p. (pin_Cid p, p)) ps"
  have "distinct (map fst (rev ?m))" using q(3) by (simp add: rev_map comp_def flip: rev_map)
  then have "map_of (rev ?m) c = Some p \<longleftrightarrow> p \<in> set ps \<and> pin_Cid p = c" for c p by (auto simp: map_of_eq_Some_iff)
  then have "map_of (rev ?m) = ds_pins st" using q(4) by (intro ext option_eqI) blast
  with restore_entries [OF env snap dsst_invD(2) [OF st] q(2) st0] show ?thesis by (simp add: ds_Marshal_def q(1))
qed

section \<open>Batching\<close>

text \<open>The state that a batching state reads from.\<close>

definition dst_base :: "'d ds_env \<Rightarrow> ('d \<times> 'b) dsState \<Rightarrow> 'd dsState" where
  "dst_base env bst = \<lparr>dst_env = env, dst_data = fst (dst_data bst), dst_namespace = dst_namespace bst, dst_totalPins = 0\<rparr>"

text \<open>
  A batch collects the writes (\<open>Some\<close> the value to put, \<open>None\<close> for a deletion). A successful commit
  applies them in order and leaves the batch empty, one that fails changes nothing.
\<close>

definition apply_pending :: "(string \<rightharpoonup> bytes) \<Rightarrow> (string \<times> bytes option) list \<Rightarrow> (string \<rightharpoonup> bytes)" where
  "apply_pending V ws = foldl (\<lambda>V (k, v). V(k := v)) V ws"

definition batch_ok :: "'d ds_env \<Rightarrow> ('d, 'b) batch_env \<Rightarrow> ('b \<Rightarrow> (string \<times> bytes option) list) \<Rightarrow> bool" where
  "batch_ok env be pend \<longleftrightarrow>
     (\<forall>k v b e b'. be_Put be k v b = (e, b') \<longrightarrow> pend b' = (if e = None then pend b @ [(k, Some v)] else pend b)) \<and>
     (\<forall>k b e b'. be_Delete be k b = (e, b') \<longrightarrow> e \<noteq> Some ds_ErrNotFound \<and>
        pend b' = (if e = None then pend b @ [(k, None)] else pend b)) \<and>
     (\<forall>b d e d' b'. be_Commit be b d = (e, d', b') \<longrightarrow>
        (if e = None then ds_view env d' = apply_pending (ds_view env d) (pend b) \<and> pend b' = []
         else ds_view env d' = ds_view env d \<and> pend b' = pend b))"

text \<open>The write an operation stands for.\<close>

fun op_write :: "'d dsState \<Rightarrow> state_op \<Rightarrow> string \<times> bytes option \<Rightarrow> bool" where
  "op_write st (AddPin p) w \<longleftrightarrow> (\<exists>ps. serializePin st p = Inr ps \<and> w = (ds_key st (pin_Cid p), Some ps))"
| "op_write st (RmPin c) w \<longleftrightarrow> w = (ds_key st c, None)"

definition view_pins :: "'d dsState \<Rightarrow> (string \<rightharpoonup> bytes) \<Rightarrow> cid \<rightharpoonup> Pin" where
  "view_pins st V c = (case V (ds_key st c) of None \<Rightarrow> None
     | Some v \<Rightarrow> (case deserializePin st c v of Inl err \<Rightarrow> None | Inr p \<Rightarrow> Some p))"

lemma view_pins_pending:
  assumes "keys_ok (dst_env st) (dst_namespace st)" "list_all2 (op_write st) ops ws" "\<forall>q \<in> set ops. op_storable (ds_storable st) q"
  shows "view_pins st (apply_pending V ws) = foldl (pinset_step (stored_pin zero_Pin)) (view_pins st V) ops"
  using assms(2,3)
proof (induction ops ws arbitrary: V rule: list_all2_induct)
  case Nil
  then show ?case by (simp add: apply_pending_def)
next
  case (Cons q ops w ws)
  have "view_pins st (V(fst w := snd w)) = pinset_step (stored_pin zero_Pin) (view_pins st V) q"
  proof (cases q)
    case (AddPin p)
    then obtain ps where ps: "serializePin st p = Inr ps" "w = (ds_key st (pin_Cid p), Some ps)" using Cons(1) by auto
    have "deserializePin st (pin_Cid p) ps = Inr (stored_pin zero_Pin p)"
      using Cons.prems AddPin ps(1) by (simp add: deserialize_serialize)
    then show ?thesis using ds_key_inj [OF assms(1)] by (auto simp: AddPin ps(2) view_pins_def fun_eq_iff split: option.split)
  next
    case (RmPin c)
    then have "w = (ds_key st c, None)" using Cons(1) by simp
    then show ?thesis using ds_key_inj [OF assms(1)] by (auto simp: RmPin view_pins_def fun_eq_iff split: option.split)
  qed
  with Cons show ?case by (cases w) (simp add: apply_pending_def)
qed

lemma batching_step:
  assumes env: "dst_env bst = batching_env env be" and ok: "batch_ok env be pend"
    and r: "state_step ds_Add ds_Rm bst q = (e, bst')" and w: "list_all2 (op_write (dst_base env bst)) ops (pend (snd (dst_data bst)))"
  shows "dst_base env bst' = dst_base env bst \<and> dst_env bst' = dst_env bst \<and>
    list_all2 (op_write (dst_base env bst)) (if e = None then ops @ [q] else ops) (pend (snd (dst_data bst')))"
proof -
  obtain d b where db: "dst_data bst = (d, b)" by (cases "dst_data bst")
  have base: "serializePin (dst_base env bst) = serializePin bst" "ds_key (dst_base env bst) = ds_key bst"
    using env by (simp_all add: fun_eq_iff dst_base_def serializePin_def ds_key_def cidToDsKey_def batching_env_def)
  show ?thesis
  proof (cases q)
    case (AddPin p)
    show ?thesis
    proof (cases "serializePin bst p")
      case (Inl err)
      then show ?thesis using r w AddPin by (auto simp: ds_Add_def)
    next
      case (Inr ps)
      obtain e' b' where put: "be_Put be (ds_key bst (pin_Cid p)) ps b = (e', b')" by (cases "be_Put be (ds_key bst (pin_Cid p)) ps b")
      have "pend b' = (if e' = None then pend b @ [(ds_key bst (pin_Cid p), Some ps)] else pend b)"
        using ok put unfolding batch_ok_def by blast
      then show ?thesis using r w AddPin Inr put env db base
        by (auto simp: ds_Add_def Let_def batching_env_def dst_base_def list_all2_appendI split: option.splits if_splits)
    qed
  next
    case (RmPin c)
    obtain e' b' where del: "be_Delete be (ds_key bst c) b = (e', b')" by (cases "be_Delete be (ds_key bst c) b")
    have "e' \<noteq> Some ds_ErrNotFound" "pend b' = (if e' = None then pend b @ [(ds_key bst c, None)] else pend b)"
      using ok del unfolding batch_ok_def by blast+
    then show ?thesis using r w RmPin del env db base
      by (auto simp: ds_Rm_def batching_env_def dst_base_def list_all2_appendI split: option.splits ds_error.splits if_splits)
  qed
qed

lemma batching_run:
  assumes env: "dst_env bst = batching_env env be" and ok: "batch_ok env be pend" and empty: "pend (snd (dst_data bst)) = []"
  shows "\<exists>bst' done'. state_apply ds_Add ds_Rm bst ops = (bst', done') \<and> dst_base env bst' = dst_base env bst \<and>
    dst_env bst' = dst_env bst \<and> set done' \<subseteq> set ops \<and>
    list_all2 (op_write (dst_base env bst)) done' (pend (snd (dst_data bst')))"
proof (induction ops rule: rev_induct)
  case Nil
  then show ?case using empty by (simp add: state_apply_def)
next
  case (snoc q ops)
  then obtain s1 done' where s1: "state_apply ds_Add ds_Rm bst ops = (s1, done')" "dst_base env s1 = dst_base env bst"
      "dst_env s1 = dst_env bst" "set done' \<subseteq> set ops" "list_all2 (op_write (dst_base env bst)) done' (pend (snd (dst_data s1)))"
    by blast
  obtain e s2 where s2: "state_step ds_Add ds_Rm s1 q = (e, s2)" by (cases "state_step ds_Add ds_Rm s1 q")
  have "state_apply ds_Add ds_Rm bst (ops @ [q]) = (s2, if e = None then done' @ [q] else done')"
    using s1(1) s2 by (simp add: state_apply_def)
  then show ?case using batching_step [OF _ ok s2, of done'] s1 env by auto
qed

text \<open>
  C24. The batching state. Operations on it leave the pin set that is read as it was. When \<open>Commit\<close> then
  succeeds, the pin set becomes what the successful operations, in their order, make of it.
\<close>

theorem BatchingState_commit:
  assumes inv: "dsst_inv (dst_base env bst)" and env: "dst_env bst = batching_env env be" and ok: "batch_ok env be pend"
    and empty: "pend (snd (dst_data bst)) = []" and ops: "\<forall>q \<in> set ops. op_storable (ds_storable (dst_base env bst)) q"
  shows "\<exists>bst1 ok_ops. state_apply ds_Add ds_Rm bst ops = (bst1, ok_ops) \<and> ds_pins (dst_base env bst1) = ds_pins (dst_base env bst) \<and>
    (\<forall>bst2. bst_Commit be bst1 = (None, bst2) \<longrightarrow>
       ds_pins (dst_base env bst2) = foldl (pinset_step (stored_pin zero_Pin)) (ds_pins (dst_base env bst)) ok_ops)"
proof -
  obtain bst1 done' where r: "state_apply ds_Add ds_Rm bst ops = (bst1, done')" "dst_base env bst1 = dst_base env bst"
      "set done' \<subseteq> set ops" "list_all2 (op_write (dst_base env bst)) done' (pend (snd (dst_data bst1)))"
    using batching_run [OF env ok empty] by blast
  let ?st = "dst_base env bst"
  have "ds_pins (dst_base env bst2) = foldl (pinset_step (stored_pin zero_Pin)) (ds_pins ?st) done'"
    if c: "bst_Commit be bst1 = (None, bst2)" for bst2
  proof -
    obtain d b d' b' where db: "dst_data bst1 = (d, b)" "be_Commit be b d = (None, d', b')" "bst2 = bst1\<lparr>dst_data := (d', b')\<rparr>"
      using c by (auto simp: bst_Commit_def split: prod.splits)
    have "ds_view env d' = apply_pending (ds_view env d) (pend b)" using ok db(2) unfolding batch_ok_def by (metis (full_types))
    moreover have "d = dst_data ?st" using r(2) db(1) by (simp add: dst_base_def)
    moreover have "ds_pins (dst_base env bst2) = view_pins ?st (ds_view env d')"
      using r(2) by (simp add: db(3) dst_base_def ds_pins_def view_pins_def fun_eq_iff ds_key_def deserializePin_def split: option.split)
    moreover have "ds_pins ?st = view_pins ?st (ds_view env (dst_data ?st))"
      by (simp add: ds_pins_def view_pins_def fun_eq_iff) (simp add: dst_base_def)
    ultimately show ?thesis
      using view_pins_pending [OF dsst_invD(2) [OF inv], of done' "pend b"] r(3,4) ops db(1) by auto
  qed
  with r show ?thesis by auto
qed

section \<open>An in-memory datastore\<close>

text \<open>A datastore for which the hypotheses hold: a list of entries, with keys of one name below the namespace.\<close>

fun example_decode :: "bytes \<Rightarrow> string \<Rightarrow> string + serialEntry" where
  "example_decode [] k = Inl ''no end of key''"
| "example_decode (x # xs) k =
     (if x = CHR 0x00 then Inr \<lparr>se_Key = k, se_Value = xs\<rparr>
      else case xs of [] \<Rightarrow> Inl ''no key character'' | c # ys \<Rightarrow> example_decode ys (k @ [c]))"

definition example_encode :: "serialEntry \<Rightarrow> bytes" where
  "example_encode e = concat (map (\<lambda>c. [CHR 0x01, c]) (se_Key e)) @ CHR 0x00 # se_Value e"

definition example_ds :: "(string, bytes) gomap ds_env" where
  "example_ds =
     \<lparr>dse_Get = (\<lambda>d k. case map_of d k of None \<Rightarrow> Inl ds_ErrNotFound | Some v \<Rightarrow> Inr v),
      dse_Has = (\<lambda>d k. Inr (map_of d k \<noteq> None)),
      dse_Put = (\<lambda>k v d. (None, map_put k v d)),
      dse_Delete = (\<lambda>k d. (None, map_delete k d)),
      dse_Query = (\<lambda>d ns. Inr (map Inr (map (\<lambda>k. (k, the (map_of d k)))
                     (filter (\<lambda>k. k \<noteq> [] \<and> hd k = CHR ''/'') (remdups (map fst d)))))),
      dk_NewKey = (\<lambda>k. k), dk_Child = (\<lambda>ns x. CHR ''/'' # x), dk_BaseNamespace = tl,
      dk_FromBinary = (\<lambda>b. b), dk_ToBinary = Inr, dse_codec = example_codec,
      dse_Encode = (\<lambda>e. Inr (example_encode e)), dse_Decode = (\<lambda>b. example_decode b [])\<rparr>"

lemma example_decode_encode: "example_decode (example_encode e) [] = Inr e"
proof -
  have "example_decode (concat (map (\<lambda>c. [CHR 0x01, c]) k) @ CHR 0x00 # v) k0 = Inr \<lparr>se_Key = k0 @ k, se_Value = v\<rparr>" for k v k0
    by (induction k arbitrary: k0) auto
  then show ?thesis by (cases e) (simp add: example_encode_def)
qed

lemma example_ds_view [simp]: "ds_view example_ds d = map_of d"
  by (simp add: ds_view_def example_ds_def fun_eq_iff split: option.split)

lemma example_ds_ok: "ds_ok example_ds ns" "keys_ok example_ds ns" "snapshot_ok example_ds"
proof -
  have "\<exists>rs. dse_Query example_ds d ns = Inr (map Inr rs) \<and> distinct (map fst rs) \<and>
      (\<forall>k v. (k, v) \<in> set rs \<longleftrightarrow> map_of d k = Some v \<and> (\<exists>x. k = dk_Child example_ds ns x))" for d
  proof -
    let ?rs = "map (\<lambda>k. (k, the (map_of d k))) (filter (\<lambda>k. k \<noteq> [] \<and> hd k = CHR ''/'') (remdups (map fst d)))"
    have "k \<in> fst ` set d \<longleftrightarrow> (\<exists>v. map_of d k = Some v)" for k by (metis map_of_eq_None_iff not_None_eq)
    moreover have "k \<noteq> [] \<and> hd k = CHR ''/'' \<longleftrightarrow> (\<exists>x. k = CHR ''/'' # x)" for k by (cases k) auto
    ultimately have "(k, v) \<in> set ?rs \<longleftrightarrow> map_of d k = Some v \<and> (\<exists>x. k = CHR ''/'' # x)" for k v
      by (auto simp: image_iff)
    moreover have "distinct (map fst ?rs)" by (simp add: comp_def)
    ultimately show ?thesis by (intro exI [of _ ?rs]) (simp add: example_ds_def)
  qed
  then show "ds_ok example_ds ns"
    unfolding ds_ok_def example_ds_view by (auto simp: example_ds_def)
  show "keys_ok example_ds ns" by (simp add: keys_ok_def example_ds_def example_codec_def CidUndef_def)
  show "snapshot_ok example_ds" by (simp add: snapshot_ok_def example_ds_def example_decode_encode)
qed

definition example_dsst :: "(string, bytes) gomap dsState" where
  "example_dsst = dsstate_New example_ds [] ''/pins''"

lemma example_dsst_inv: "dsst_inv example_dsst"
  by (simp add: dsst_inv_def example_dsst_def dsstate_New_def example_ds_ok)

lemma example_pin_storable: "ds_storable example_dsst example_pin"
  using example_pin_ok by (simp add: ds_storable_def example_dsst_def dsstate_New_def) (simp add: example_ds_def example_pin_def CidUndef_def)

definition example_dsst1 :: "(string, bytes) gomap dsState" where
  "example_dsst1 = snd (ds_Add example_pin example_dsst)"

lemma example_dsst1_env: "dst_env example_dsst1 = example_ds \<and> dst_namespace example_dsst1 = ''/pins''"
  by (simp add: example_dsst1_def ds_Add_def example_dsst_def dsstate_New_def Let_def split: sum.split prod.split option.split)
    (simp add: example_ds_def)

lemma example_dsst1_pins:
  "dsst_inv example_dsst1" "ds_pins example_dsst1 = [''Qm'' \<mapsto> stored_pin zero_Pin example_pin]"
proof -
  obtain e st where r: "ds_Add example_pin example_dsst = (e, st)" by (cases "ds_Add example_pin example_dsst")
  have "serializePin example_dsst example_pin = Inr ''01''"
    using example_pin_ok(4) by (simp add: serializePin_def example_dsst_def dsstate_New_def) (simp add: example_ds_def)
  then have "e = None" using r by (auto simp: ds_Add_def Let_def example_dsst_def dsstate_New_def) (simp add: example_ds_def)
  moreover have "ds_pins example_dsst = Map.empty" by (simp add: ds_pins_def fun_eq_iff example_dsst_def dsstate_New_def)
  ultimately show "dsst_inv example_dsst1" "ds_pins example_dsst1 = [''Qm'' \<mapsto> stored_pin zero_Pin example_pin]"
    using ds_Add_pins [OF example_dsst_inv example_pin_storable r] r by (simp_all add: example_dsst1_def example_pin_def)
qed

theorem dsstate_refines_pinset_witness:
  "\<exists>st' ok. state_apply ds_Add ds_Rm example_dsst [AddPin example_pin, RmPin ''Qx''] = (st', ok) \<and>
     (\<forall>c. ds_Get st' c = (case foldl (pinset_step (stored_pin zero_Pin)) (ds_pins example_dsst) ok c of
        None \<Rightarrow> Inl ErrNotFound | Some p \<Rightarrow> Inr p))"
  by (rule dsstate_refines_pinset) (use example_dsst_inv example_pin_storable in auto)

theorem dsstate_List_witness:
  "\<exists>ps st'. ds_List (\<lambda>_. False) example_dsst1 = (ps, None, st') \<and> stored_pin zero_Pin example_pin \<in> set ps"
  using dsstate_List [OF example_dsst1_pins(1)] example_dsst1_pins(2) by (metis fun_upd_same)

theorem dsstate_counter_witness: "counter_ok (snd (ds_Add example_pin example_dsst))"
proof -
  have "ds_pins example_dsst = Map.empty" by (simp add: ds_pins_def fun_eq_iff example_dsst_def dsstate_New_def)
  then have "counter_ok example_dsst" "card (dom (ds_pins example_dsst)) < 2 ^ 63 - 1"
    by (simp_all add: counter_ok_def) (simp add: example_dsst_def dsstate_New_def)
  from dsstate_counter [OF example_dsst_inv this] example_pin_storable show ?thesis by blast
qed

theorem ds_Rm_counter_drift_witness: "dst_totalPins (snd (ds_Rm ''Qx'' example_dsst)) = -1"
proof -
  have "ds_pins example_dsst = Map.empty" by (simp add: ds_pins_def fun_eq_iff example_dsst_def dsstate_New_def)
  then have "counter_ok example_dsst" "ds_pins example_dsst ''Qx'' = None" "card (dom (ds_pins example_dsst)) < 2 ^ 63"
    "fst (dse_Delete (dst_env example_dsst) (ds_key example_dsst ''Qx'') (dst_data example_dsst)) = None"
    by (simp_all add: counter_ok_def) (simp_all add: example_dsst_def dsstate_New_def example_ds_def)
  from ds_Rm_counter_drift [OF example_dsst_inv this(1,2,4,3)] \<open>ds_pins example_dsst = Map.empty\<close> show ?thesis by simp
qed

theorem dsstate_snapshot_witness:
  "\<exists>w st'. ds_Marshal example_dsst1 = (w, None) \<and> ds_Unmarshal w example_dsst = (None, st') \<and>
     ds_pins st' ''Qm'' = Some (stored_pin zero_Pin example_pin)"
proof -
  have "dst_env example_dsst = dst_env example_dsst1" "dst_namespace example_dsst = dst_namespace example_dsst1"
    "snapshot_ok (dst_env example_dsst1)"
    using example_dsst1_env example_ds_ok(3) by (simp_all add: example_dsst_def dsstate_New_def) (simp add: example_ds_def)
  from dsstate_snapshot [OF example_dsst1_pins(1) example_dsst_inv this] example_dsst1_pins(2) show ?thesis by auto
qed

definition example_batch :: "((string, bytes) gomap, (string \<times> bytes option) list) batch_env" where
  "example_batch = \<lparr>be_Put = (\<lambda>k v b. (None, b @ [(k, Some v)])), be_Delete = (\<lambda>k b. (None, b @ [(k, None)])),
     be_Commit = (\<lambda>b d. (None, foldl (\<lambda>d (k, v). case v of None \<Rightarrow> map_delete k d | Some v \<Rightarrow> map_put k v d) d b, []))\<rparr>"

lemma example_batch_ok: "batch_ok example_ds example_batch (\<lambda>b. b)"
proof -
  have "map_of (foldl (\<lambda>d (k, v). case v of None \<Rightarrow> map_delete k d | Some v \<Rightarrow> map_put k v d) d b) =
      apply_pending (map_of d) b" for d b
    by (induction b arbitrary: d) (auto simp: apply_pending_def split: option.split)
  then show ?thesis by (auto simp: batch_ok_def example_batch_def)
qed

theorem BatchingState_commit_witness:
  "\<exists>bst1 ok_ops. state_apply ds_Add ds_Rm (NewBatching example_ds example_batch [] [] ''/pins'') [AddPin example_pin] = (bst1, ok_ops) \<and>
     ds_pins (dst_base example_ds bst1) = Map.empty"
proof -
  let ?b = "NewBatching example_ds example_batch [] [] ''/pins''"
  have base: "dst_base example_ds ?b = example_dsst"
    by (simp add: dst_base_def NewBatching_def dsstate_New_def example_dsst_def batching_env_def)
  have "dst_env ?b = batching_env example_ds example_batch" "(\<lambda>b. b) (snd (dst_data ?b)) = []"
    by (simp_all add: NewBatching_def dsstate_New_def)
  from BatchingState_commit [OF _ this(1) example_batch_ok this(2), of "[AddPin example_pin]"]
  show ?thesis using example_dsst_inv example_pin_storable unfolding base
    by (auto simp: ds_pins_def fun_eq_iff example_dsst_def dsstate_New_def)
qed

section \<open>The batching state and its contract\<close>

text \<open>\<open>BatchingState\<close> as one value: the batch's operations and the state.\<close>

type_synonym ('d, 'b) BatchingState = "('d, 'b) batch_env \<times> ('d \<times> 'b) dsState"

definition bst_Add :: "Pin \<Rightarrow> ('d, 'b) BatchingState \<Rightarrow> state_error option \<times> ('d, 'b) BatchingState" where
  "bst_Add p s = (case ds_Add p (snd s) of (e, bst) \<Rightarrow> (e, (fst s, bst)))"

definition bst_Rm :: "cid \<Rightarrow> ('d, 'b) BatchingState \<Rightarrow> state_error option \<times> ('d, 'b) BatchingState" where
  "bst_Rm c s = (case ds_Rm c (snd s) of (e, bst) \<Rightarrow> (e, (fst s, bst)))"

definition bst_commit :: "('d, 'b) BatchingState \<Rightarrow> state_error option \<times> ('d, 'b) BatchingState" where
  "bst_commit s = (case bst_Commit (fst s) (snd s) of (e, bst) \<Rightarrow> (e, (fst s, bst)))"

definition bst_holds :: "('d, 'b) BatchingState \<Rightarrow> state_op list \<Rightarrow> bool" where
  "bst_holds s ops \<longleftrightarrow> (\<exists>env pend. dsst_inv (dst_base env (snd s)) \<and> dst_env (snd s) = batching_env env (fst s) \<and>
     batch_ok env (fst s) pend \<and> list_all2 (op_write (dst_base env (snd s))) ops (pend (snd (dst_data (snd s)))) \<and>
     (\<forall>q \<in> set ops. op_storable (ds_storable (dst_base env (snd s))) q))"

abbreviation bst_pins :: "('d, 'b) BatchingState \<Rightarrow> cid \<rightharpoonup> Pin" where
  "bst_pins s \<equiv> ds_pins (snd s)"

abbreviation bst_storable :: "('d, 'b) BatchingState \<Rightarrow> Pin \<Rightarrow> bool" where
  "bst_storable s \<equiv> ds_storable (snd s)"

lemma batching_base:
  assumes "dst_env bst = batching_env env be"
  shows "ds_pins bst = ds_pins (dst_base env bst)" "ds_storable bst = ds_storable (dst_base env bst)"
proof -
  have k: "ds_key bst = ds_key (dst_base env bst)" "deserializePin bst = deserializePin (dst_base env bst)"
    using assms by (simp_all add: ds_key_def cidToDsKey_def deserializePin_def dst_base_def batching_env_def fun_eq_iff)
  have "dst_view bst = dst_view (dst_base env bst)"
    using assms by (simp add: ds_view_def batching_env_def dst_base_def fun_eq_iff)
  then show "ds_pins bst = ds_pins (dst_base env bst)"
    unfolding ds_pins_def k by simp
  show "ds_storable bst = ds_storable (dst_base env bst)"
    using assms by (simp add: ds_storable_def dst_base_def batching_env_def fun_eq_iff)
qed

text \<open>The entries of a namespace stay pins when batched writes are applied.\<close>

definition entries_ok :: "'d dsState \<Rightarrow> (string \<rightharpoonup> bytes) \<Rightarrow> bool" where
  "entries_ok st V \<longleftrightarrow> (\<forall>x v. V (dk_Child (dst_env st) (dst_namespace st) x) = Some v \<longrightarrow>
     (\<exists>c p. c \<noteq> CidUndef \<and> dk_Child (dst_env st) (dst_namespace st) x = ds_key st c \<and> deserializePin st c v = Inr p))"

lemma entries_ok_pending:
  assumes "list_all2 (op_write st) ops ws" "\<forall>q \<in> set ops. op_storable (ds_storable st) q" "entries_ok st V"
  shows "entries_ok st (apply_pending V ws)"
  using assms
proof (induction ops ws arbitrary: V rule: list_all2_induct)
  case Nil
  then show ?case by (simp add: apply_pending_def)
next
  case (Cons q ops w ws)
  have "entries_ok st (V(fst w := snd w))"
  proof (cases q)
    case (AddPin p)
    then obtain ps where ps: "serializePin st p = Inr ps" "w = (ds_key st (pin_Cid p), Some ps)" using Cons(1) by auto
    have p: "ds_storable st p" using Cons.prems AddPin by simp
    then have "pin_Cid p \<noteq> CidUndef" by (simp add: ds_storable_def)
    with deserialize_serialize [OF p ps(1)] Cons.prems(2) show ?thesis unfolding entries_ok_def ps(2) by auto
  next
    case (RmPin c)
    then show ?thesis using Cons(1) Cons.prems(2) unfolding entries_ok_def by auto
  qed
  then have "entries_ok st (apply_pending (V(fst w := snd w)) ws)" using Cons.prems(1) by (intro Cons.IH) (simp_all del: fun_upd_apply)
  moreover have "apply_pending V (w # ws) = apply_pending (V(fst w := snd w)) ws"
    by (simp add: apply_pending_def case_prod_unfold)
  ultimately show ?case by simp
qed

lemma dsst_inv_entries:
  "dsst_inv st \<longleftrightarrow> ds_ok (dst_env st) (dst_namespace st) \<and> keys_ok (dst_env st) (dst_namespace st) \<and> entries_ok st (dst_view st)"
  by (simp add: dsst_inv_def entries_ok_def)

lemma entries_ok_data: "entries_ok (st\<lparr>dst_data := d\<rparr>) V = entries_ok st V"
  by (simp add: entries_ok_def)

lemma bst_op:
  assumes h: "bst_holds s ops" and st: "op_storable (bst_storable s) q" and r: "state_step bst_Add bst_Rm s q = (e, s')"
  shows "bst_storable s' = bst_storable s \<and> bst_pins s' = bst_pins s \<and> bst_holds s' (if e = None then ops @ [q] else ops)"
proof -
  obtain be bst where s: "s = (be, bst)" by (cases s)
  obtain env pend where h: "dsst_inv (dst_base env bst)" "dst_env bst = batching_env env be" "batch_ok env be pend"
      "list_all2 (op_write (dst_base env bst)) ops (pend (snd (dst_data bst)))"
      "\<forall>q \<in> set ops. op_storable (ds_storable (dst_base env bst)) q"
    using h by (auto simp: bst_holds_def s)
  obtain bst' where r': "state_step ds_Add ds_Rm bst q = (e, bst')" "s' = (be, bst')"
    using r by (cases q) (auto simp: s bst_Add_def bst_Rm_def split: prod.splits)
  note step = batching_step [OF h(2,3) r'(1) h(4)]
  then have env': "dst_env bst' = batching_env env be" using h(2) by simp
  have "op_storable (ds_storable (dst_base env bst)) q" using st batching_base(2) [OF h(2)] by (simp add: s)
  then have "bst_holds s' (if e = None then ops @ [q] else ops)"
    unfolding bst_holds_def r'(2) using step h env' by (intro exI [of _ env] exI [of _ pend]) auto
  then show ?thesis using batching_base [OF h(2)] batching_base [OF env'] step by (simp add: s r'(2))
qed

lemma bst_commit_op:
  assumes h: "bst_holds s ops" and r: "bst_commit s = (e, s')"
  shows "bst_storable s' = bst_storable s \<and>
    (if e = None then bst_pins s' = foldl (pinset_step (stored_pin zero_Pin)) (bst_pins s) ops \<and> bst_holds s' []
     else bst_pins s' = bst_pins s \<and> bst_holds s' ops)"
proof -
  obtain be bst where s: "s = (be, bst)" by (cases s)
  obtain d b where db: "dst_data bst = (d, b)" by (cases "dst_data bst")
  obtain env pend where h: "dsst_inv (dst_base env bst)" "dst_env bst = batching_env env be" "batch_ok env be pend"
      "list_all2 (op_write (dst_base env bst)) ops (pend b)" "\<forall>q \<in> set ops. op_storable (ds_storable (dst_base env bst)) q"
    using h db by (auto simp: bst_holds_def s)
  obtain e' d' b' where c: "be_Commit be b d = (e', d', b')" by (metis prod.collapse)
  let ?st = "dst_base env bst" and ?bst' = "bst\<lparr>dst_data := (d', b')\<rparr>"
  have s': "e = map_option ds_state_error e'" "s' = (be, ?bst')" using r c by (simp_all add: bst_commit_def bst_Commit_def s db)
  have law: "if e' = None then ds_view env d' = apply_pending (ds_view env d) (pend b) \<and> pend b' = []
      else ds_view env d' = ds_view env d \<and> pend b' = pend b"
    using h(3) c unfolding batch_ok_def by blast
  have base: "dst_base env ?bst' = ?st\<lparr>dst_data := d'\<rparr>" "d = dst_data ?st" by (simp_all add: dst_base_def db)
  have ev: "dst_env ?st = env" by (simp add: dst_base_def)
  have env': "dst_env ?bst' = batching_env env be" using h(2) by simp
  have vp: "ds_pins (?st\<lparr>dst_data := d''\<rparr>) = view_pins ?st (ds_view env d'')" for d''
    by (simp add: ds_pins_def view_pins_def fun_eq_iff ev split: option.split)
  have now: "bst_pins s = view_pins ?st (ds_view env d)" using vp [of d] batching_base(1) [OF h(2)] base(2) by (simp add: s)
  have after: "bst_pins s' = view_pins ?st (ds_view env d')" using batching_base(1) [OF env'] vp base(1) by (simp add: s'(2))
  have sto: "bst_storable s' = bst_storable s" by (simp add: s s'(2))
  have st': "dst_base env ?bst' = ?st\<lparr>dst_data := d'\<rparr>" by (rule base(1))
  note ok = h(1) [unfolded dsst_inv_entries]
  show ?thesis
  proof (cases e')
    case None
    have "entries_ok ?st (ds_view env d')"
      using entries_ok_pending [OF h(4,5), of "ds_view env d"] ok law None base(2) ev by simp
    then have "dsst_inv (dst_base env ?bst')" using ok by (simp add: st' dsst_inv_entries entries_ok_data ev)
    then have "bst_holds s' []"
      unfolding bst_holds_def s'(2) using env' h(3) law None by (intro exI [of _ env] exI [of _ pend]) simp
    moreover have "bst_pins s' = foldl (pinset_step (stored_pin zero_Pin)) (bst_pins s) ops"
      unfolding now after using view_pins_pending [OF dsst_invD(2) [OF h(1)] h(4,5)] law None by simp
    ultimately show ?thesis using sto s'(1) None by simp
  next
    case (Some x)
    then have view: "ds_view env d' = ds_view env d" "pend b' = pend b" using law by simp_all
    have inv: "dsst_inv (dst_base env ?bst')"
      using ok view base(2) by (simp add: st' dsst_inv_entries entries_ok_data ev)
    have same: "op_write (dst_base env ?bst') = op_write ?st" "ds_storable (dst_base env ?bst') = ds_storable ?st"
    proof -
      have "op_write (?st\<lparr>dst_data := d'\<rparr>) q w = op_write ?st q w" for q w by (cases q) (simp_all add: serializePin_def)
      then show "op_write (dst_base env ?bst') = op_write ?st" by (simp add: st' fun_eq_iff)
      show "ds_storable (dst_base env ?bst') = ds_storable ?st" by (simp add: st')
    qed
    have "bst_holds s' ops"
      unfolding bst_holds_def s'(2) using inv env' h(3-5) view(2) same by (intro exI [of _ env] exI [of _ pend]) simp
    then show ?thesis using sto s'(1) Some now after view(1) by simp
  qed
qed

interpretation bdss: batching_state bst_holds bst_storable "stored_pin zero_Pin" bst_pins bst_Add bst_Rm bst_commit
  by unfold_locales (rule bst_op bst_commit_op; assumption)+

end
