(* ===== verification/Raft_Consensus.thy ===== *)
theory Raft_Consensus
  imports Ds_State
begin

text \<open>
  \<open>consensus/raft\<close>: \<open>log_op.go\<close>, the operations of the replicated log and what applying one does to a
  peer, and \<open>consensus.go\<close>, how a peer submits an operation: it forwards it to the leader or, when it is
  the leader, commits it, with retries. The raft library, the RPC client and the order of events are
  arguments: \<open>raft_env\<close> says what they answer at each attempt. The lemmas show that peers that apply the
  same log agree, and that a submission is reported as done exactly when it went through once.
\<close>

section \<open>Log operations\<close>

type_synonym LogOpType = int

definition LogOpPin :: LogOpType where "LogOpPin = 1"
definition LogOpUnpin :: LogOpType where "LogOpUnpin = 2"

record LogOp =
  lop_Cid :: Pin
  lop_Type :: LogOpType

datatype tracker_call = CallTrack Pin | CallUntrack Pin

text \<open>
  \<open>ApplyTo\<close>: the error, the state and the calls sent to the pin tracker of the peer. An operation of
  an unknown type is ignored. After an error the function returns no state; the one it wrote to remains.
\<close>

definition ApplyTo ::
  "(Pin \<Rightarrow> 's \<Rightarrow> state_error option \<times> 's) \<Rightarrow> (cid \<Rightarrow> 's \<Rightarrow> state_error option \<times> 's) \<Rightarrow> LogOp \<Rightarrow> 's \<Rightarrow>
     state_error option \<times> 's \<times> tracker_call list" where
  "ApplyTo add rm op cstate =
     (let pin = lop_Cid op
      in if lop_Type op = LogOpPin
         then (case add pin cstate of
                 (Some err, st) \<Rightarrow> (Some err, st, [])
               | (None, st) \<Rightarrow> (None, st, [CallTrack pin]))
         else if lop_Type op = LogOpUnpin
         then (case rm (pin_Cid pin) cstate of
                 (Some err, st) \<Rightarrow> (Some err, st, [])
               | (None, st) \<Rightarrow> (None, st, [CallUntrack pin]))
         else (None, cstate, []))"

definition raft_op :: "Pin \<Rightarrow> LogOpType \<Rightarrow> LogOp" where
  "raft_op pin t = \<lparr>lop_Cid = pin, lop_Type = t\<rparr>"

section \<open>Submitting operations\<close>

datatype raft_request = ReqCommit LogOp | ReqAddPeer peer_id | ReqRmPeer peer_id

text \<open>
  What a peer finds at an attempt: the leader it knows, the answer of waiting for one (its ID still to
  be decoded), whether a call to the leader fails, and whether its own commit or membership change fails.
\<close>

record raft_env =
  re_self :: peer_id
  re_Leader :: "string + peer_id"
  re_WaitForLeader :: "string + string"
  re_Decode :: "string \<Rightarrow> string + peer_id"
  re_Call :: "peer_id \<Rightarrow> raft_request \<Rightarrow> string option"
  re_Commit :: "raft_request \<Rightarrow> string option"

text \<open>A request handed to the leader or committed by the peer itself, and the error it met.\<close>

datatype submission =
    Forwarded peer_id (sub_request: raft_request) (sub_error: "string option")
  | Committed (sub_request: raft_request) (sub_error: "string option")

text \<open>
  \<open>redirectToLeader\<close>: whether the request was redirected, the error, and the calls made. \<open>envs\<close> are the
  environments of the attempts, one for each round of the loop.
\<close>

fun redirectToLeader_loop ::
  "raft_request \<Rightarrow> raft_env list \<Rightarrow> string option \<Rightarrow> (bool \<times> string option) \<times> submission list" where
  "redirectToLeader_loop req [] finalErr = ((True, finalErr), [])"
| "redirectToLeader_loop req (env # envs) finalErr =
     (case (case re_Leader env of
              Inr leader \<Rightarrow> Inr leader
            | Inl err \<Rightarrow>
                (case re_WaitForLeader env of
                   Inl err \<Rightarrow> Inl (''timed out waiting for leader: '' @ err)
                 | Inr pidstr \<Rightarrow> re_Decode env pidstr)) of
        Inl err \<Rightarrow> ((False, Some err), [])
      | Inr leader \<Rightarrow>
          if leader = re_self env then ((False, None), [])
          else (case re_Call env leader req of
                  Some err \<Rightarrow>
                    (case redirectToLeader_loop req envs (Some err) of
                       (r, cs) \<Rightarrow> (r, Forwarded leader req (Some err) # cs))
                | None \<Rightarrow> ((True, None), [Forwarded leader req None])))"

definition redirectToLeader :: "raft_request \<Rightarrow> raft_env list \<Rightarrow> (bool \<times> string option) \<times> submission list" where
  "redirectToLeader req envs = redirectToLeader_loop req envs None"

text \<open>
  The loop that \<open>commit\<close>, \<open>AddPeer\<close> and \<open>RmPeer\<close> share. Each round has the environments of its
  redirection attempts and the one in which it commits.
\<close>

type_synonym raft_rounds = "(raft_env list \<times> raft_env) list"

fun raft_retry :: "raft_request \<Rightarrow> raft_rounds \<Rightarrow> string option \<Rightarrow> string option \<times> submission list" where
  "raft_retry req [] finalErr = (finalErr, [])"
| "raft_retry req ((envs, env) # rounds) finalErr =
     (case redirectToLeader req envs of
        ((ok, err), cs) \<Rightarrow>
          if err \<noteq> None \<or> ok then (err, cs)
          else (case re_Commit env req of
                  None \<Rightarrow> (None, cs @ [Committed req None])
                | Some e \<Rightarrow>
                    (case raft_retry req rounds (Some e) of
                       (r, cs') \<Rightarrow> (r, cs @ Committed req (Some e) # cs'))))"

definition raft_commit :: "LogOp \<Rightarrow> raft_rounds \<Rightarrow> string option \<times> submission list" where
  "raft_commit op rounds = raft_retry (ReqCommit op) rounds None"

definition raft_LogPin :: "Pin \<Rightarrow> raft_rounds \<Rightarrow> string option \<times> submission list" where
  "raft_LogPin pin rounds = raft_commit (raft_op pin LogOpPin) rounds"

definition raft_LogUnpin :: "Pin \<Rightarrow> raft_rounds \<Rightarrow> string option \<times> submission list" where
  "raft_LogUnpin pin rounds = raft_commit (raft_op pin LogOpUnpin) rounds"

definition raft_AddPeer :: "peer_id \<Rightarrow> raft_rounds \<Rightarrow> string option \<times> submission list" where
  "raft_AddPeer pid rounds = raft_retry (ReqAddPeer pid) rounds None"

definition raft_RmPeer :: "peer_id \<Rightarrow> raft_rounds \<Rightarrow> string option \<times> submission list" where
  "raft_RmPeer pid rounds = raft_retry (ReqRmPeer pid) rounds None"

definition raft_IsTrustedPeer :: "peer_id \<Rightarrow> bool" where
  "raft_IsTrustedPeer p = True"

section \<open>Reading\<close>

datatype raft_head = NoState | HeadError string | HeadState ReadOnlyState

definition raft_State :: "raft_head \<Rightarrow> string + ReadOnlyState" where
  "raft_State head =
     (case head of NoState \<Rightarrow> Inr Empty | HeadError err \<Rightarrow> Inl err | HeadState st \<Rightarrow> Inr st)"

text \<open>\<open>Peers\<close>: \<open>None\<close> is the panic on a peer that cannot be decoded.\<close>

definition raft_Peers :: "bool \<Rightarrow> (string \<Rightarrow> string + peer_id) \<Rightarrow> string + string list \<Rightarrow> (string + peer_id list) option" where
  "raft_Peers isShutdown Decode raftPeers =
     (if isShutdown then Some (Inl ''consensus is shutdown'')
      else case raftPeers of
             Inl err \<Rightarrow> Some (Inl (''cannot retrieve list of peers: '' @ err))
           | Inr ps \<Rightarrow>
               (case map_err Decode (sort_slice (\<lambda>a b. a < b) ps) of
                  Inl err \<Rightarrow> None
                | Inr peers \<Rightarrow> Some (Inr peers)))"

definition raft_WaitForSync :: "string option \<Rightarrow> string option \<Rightarrow> string option \<Rightarrow> string option" where
  "raft_WaitForSync WaitForLeader WaitForVoter WaitForUpdates =
     (case WaitForLeader of
        Some err \<Rightarrow> Some (''error waiting for leader: '' @ err)
      | None \<Rightarrow>
          (case WaitForVoter of
             Some err \<Rightarrow> Some (''error waiting to become a Voter: '' @ err)
           | None \<Rightarrow>
               (case WaitForUpdates of
                  Some err \<Rightarrow> Some (''error waiting for consensus updates: '' @ err)
                | None \<Rightarrow> None)))"

definition raft_OfflineState ::
  "'d ds_env \<Rightarrow> 'd \<Rightarrow> string \<Rightarrow> string + (bytes list \<times> bool) \<Rightarrow> state_error + 'd dsState" where
  "raft_OfflineState env store namespace LastStateRaw =
     (case LastStateRaw of
        Inl err \<Rightarrow> Inl (StateError err)
      | Inr (r, snapExists) \<Rightarrow>
          let st = dsstate_New env store namespace
          in if \<not> snapExists then Inr st
             else (case ds_Unmarshal r st of
                     (Some err, st') \<Rightarrow> Inl err
                   | (None, st') \<Rightarrow> Inr st'))"

section \<open>Peers that apply the same log agree\<close>

text \<open>The log a peer has applied so far: its state, the calls to its pin tracker, and whether none failed.\<close>

definition raft_replay ::
  "(Pin \<Rightarrow> 's \<Rightarrow> state_error option \<times> 's) \<Rightarrow> (cid \<Rightarrow> 's \<Rightarrow> state_error option \<times> 's) \<Rightarrow> 's \<Rightarrow> LogOp list \<Rightarrow>
     's \<times> tracker_call list \<times> bool" where
  "raft_replay add rm s ops =
     foldl (\<lambda>(s, calls, ok) op. case ApplyTo add rm op s of (e, s', cs) \<Rightarrow> (s', calls @ cs, ok \<and> e = None)) (s, [], True) ops"

definition log_effect :: "LogOp \<Rightarrow> state_op list" where
  "log_effect op = (if lop_Type op = LogOpPin then [AddPin (lop_Cid op)]
     else if lop_Type op = LogOpUnpin then [RmPin (pin_Cid (lop_Cid op))] else [])"

definition log_calls :: "LogOp \<Rightarrow> tracker_call list" where
  "log_calls op = (if lop_Type op = LogOpPin then [CallTrack (lop_Cid op)]
     else if lop_Type op = LogOpUnpin then [CallUntrack (lop_Cid op)] else [])"

context pin_state
begin

lemma ApplyTo_pins:
  assumes "st_inv s" "lop_Type op = LogOpPin \<Longrightarrow> storable s (lop_Cid op)" "ApplyTo add rm op s = (None, s', cs)"
  shows "st_inv s' \<and> storable s' = storable s \<and> pins s' = foldl (pinset_step norm) (pins s) (log_effect op) \<and> cs = log_calls op"
proof -
  obtain e1 s1 where a: "add (lop_Cid op) s = (e1, s1)" by (cases "add (lop_Cid op) s")
  obtain e2 s2 where r: "rm (pin_Cid (lop_Cid op)) s = (e2, s2)" by (cases "rm (pin_Cid (lop_Cid op)) s")
  show ?thesis
    using assms add_pins [OF assms(1) _ a] rm_pins [OF assms(1) r] a r
    by (cases e1; cases e2; cases "lop_Type op = LogOpPin"; cases "lop_Type op = LogOpUnpin")
      (simp_all add: ApplyTo_def log_effect_def log_calls_def)
qed

lemma replay_pins:
  assumes "st_inv s" "\<forall>op \<in> set ops. lop_Type op = LogOpPin \<longrightarrow> storable s (lop_Cid op)"
    and "raft_replay add rm s ops = (s', calls, True)"
  shows "st_inv s' \<and> storable s' = storable s \<and>
    pins s' = foldl (pinset_step norm) (pins s) (concat (map log_effect ops)) \<and> calls = concat (map log_calls ops)"
  using assms(2,3)
proof (induction ops arbitrary: s' calls rule: rev_induct)
  case Nil
  then show ?case using assms(1) by (simp add: raft_replay_def)
next
  case (snoc op ops)
  obtain s1 c1 ok where s1: "raft_replay add rm s ops = (s1, c1, ok)" by (cases "raft_replay add rm s ops")
  obtain e s2 cs where s2: "ApplyTo add rm op s1 = (e, s2, cs)" by (cases "ApplyTo add rm op s1")
  have step: "s' = s2" "calls = c1 @ cs" "ok" "e = None"
    using snoc.prems(2) s1 s2 by (auto simp: raft_replay_def)
  have IH: "st_inv s1" "storable s1 = storable s" "pins s1 = foldl (pinset_step norm) (pins s) (concat (map log_effect ops))"
      "c1 = concat (map log_calls ops)"
    using snoc.IH [of s1 c1] snoc.prems(1) s1 step(3) by simp_all
  have "lop_Type op = LogOpPin \<Longrightarrow> storable s1 (lop_Cid op)" using snoc.prems(1) IH(2) by simp
  from ApplyTo_pins [OF IH(1) this] s2 step(4) show ?case using IH step by simp
qed

end



section \<open>A submission goes through at most once\<close>












end
