(* ===== verification/Crdt_Consensus.thy ===== *)
theory Crdt_Consensus
  imports Raft_Consensus
begin

text \<open>
  \<open>consensus/crdt/consensus.go\<close>: trust, the hooks that keep the pin tracker in step with the replicated
  datastore, and the batching of updates. Two goroutines do the batching: \<open>sendToBatchWorker\<close> accepts
  items into a bounded queue, \<open>batchWorker\<close> adds them to a batching state and commits the batch when it
  is full or old enough. Their steps interleave freely (\<open>batch_step\<close>). The lemmas show that accepted
  items are batched and committed in order and none is skipped, and when the worker stays responsive.
\<close>

section \<open>Trust, peers and hooks\<close>

record crdt_config =
  crdt_TrustAll :: bool
  crdt_MaxBatchSize :: int
  crdt_MaxBatchAge :: duration
  crdt_MaxQueueSize :: nat

definition batchingEnabled :: "crdt_config \<Rightarrow> bool" where
  "batchingEnabled cfg \<longleftrightarrow> crdt_MaxBatchSize cfg > 0 \<and> crdt_MaxBatchAge cfg > 0"

definition crdt_Default :: crdt_config where
  "crdt_Default = \<lparr>crdt_TrustAll = True, crdt_MaxBatchSize = 0, crdt_MaxBatchAge = 0, crdt_MaxQueueSize = 50000\<rparr>"

definition crdt_IsTrustedPeer :: "crdt_config \<Rightarrow> peer_id \<Rightarrow> peer_id set \<Rightarrow> peer_id \<Rightarrow> bool" where
  "crdt_IsTrustedPeer cfg self trustedPeers pid =
     (if crdt_TrustAll cfg then True
      else if pid = self then True
      else pid \<in> trustedPeers)"

definition crdt_Trust :: "peer_id \<Rightarrow> peer_id set \<Rightarrow> peer_id set" where
  "crdt_Trust pid trustedPeers = insert pid trustedPeers"

definition crdt_Distrust :: "peer_id \<Rightarrow> peer_id set \<Rightarrow> peer_id set" where
  "crdt_Distrust pid trustedPeers = trustedPeers - {pid}"

text \<open>\<open>setup\<close> trusts the configured peers. The topic validator accepts the updates of trusted signers.\<close>

definition crdt_setup_trust :: "peer_id list \<Rightarrow> peer_id set" where
  "crdt_setup_trust TrustedPeers = foldl (\<lambda>t p. crdt_Trust p t) {} TrustedPeers"

definition crdt_validator :: "crdt_config \<Rightarrow> peer_id \<Rightarrow> peer_id set \<Rightarrow> peer_id \<Rightarrow> bool" where
  "crdt_validator cfg self trustedPeers signer = crdt_IsTrustedPeer cfg self trustedPeers signer"

definition PutHook :: "codec \<Rightarrow> bytes \<Rightarrow> tracker_call list" where
  "PutHook cd v =
     (case ProtoUnmarshal cd zero_Pin v of
        Inl err \<Rightarrow> []
      | Inr pin \<Rightarrow> [CallTrack pin])"

definition DeleteHook :: "gotime \<Rightarrow> 'd ds_env \<Rightarrow> string \<Rightarrow> tracker_call list" where
  "DeleteHook now env k =
     (case dk_ToBinary env k of
        Inl err \<Rightarrow> []
      | Inr kb \<Rightarrow>
          (case cid_Cast (dse_codec env) kb of
             Inl err \<Rightarrow> []
           | Inr c \<Rightarrow> [CallUntrack (PinCid now c)]))"

definition crdt_Peers :: "peer_id \<Rightarrow> string + Metric list \<Rightarrow> string + peer_id list" where
  "crdt_Peers self LatestMetrics =
     (case LatestMetrics of
        Inl err \<Rightarrow> Inl err
      | Inr metrics \<Rightarrow>
          let peers = map m_Peer metrics;
              selfIncluded = list_ex (\<lambda>m. m_Peer m = self) metrics;
              peers = (if \<not> selfIncluded then peers @ [self] else peers)
          in Inr (sort_slice (\<lambda>a b. a < b) peers))"

definition crdt_AddPeer :: "peer_id \<Rightarrow> string option" where
  "crdt_AddPeer pid = None"

definition crdt_RmPeer :: "peer_id \<Rightarrow> string option" where
  "crdt_RmPeer pid = Some ''crdt consensus component cannot remove peers''"

definition crdt_Leader :: "string + peer_id" where
  "crdt_Leader = Inl ''crdt consensus component does not provide a leader''"

text \<open>\<open>Clean\<close>: an error in the results ends the loop, and the function returns without an error.\<close>

fun crdt_Clean_loop :: "'d ds_env \<Rightarrow> (ds_error + string \<times> bytes) list \<Rightarrow> 'd \<Rightarrow> ds_error option \<times> 'd" where
  "crdt_Clean_loop env [] d = (None, d)"
| "crdt_Clean_loop env (Inl err # rs) d = (None, d)"
| "crdt_Clean_loop env (Inr (k, v) # rs) d = crdt_Clean_loop env rs (snd (dse_Delete env (dk_NewKey env k) d))"

definition crdt_Clean :: "'d ds_env \<Rightarrow> string \<Rightarrow> 'd \<Rightarrow> ds_error option \<times> 'd" where
  "crdt_Clean env DatastoreNamespace d =
     (case dse_Query env d DatastoreNamespace of
        Inl err \<Rightarrow> (Some err, d)
      | Inr results \<Rightarrow> crdt_Clean_loop env results d)"

section \<open>Batching\<close>

record batchItem =
  bi_isPin :: bool
  bi_pin :: Pin

text \<open>What a receive from the closed channel of items yields.\<close>

definition zero_batchItem :: batchItem where
  "zero_batchItem = \<lparr>bi_isPin = False, bi_pin = zero_Pin\<rparr>"

text \<open>
  A \<open>time.Timer\<close> is idle when it was stopped or its value was received. \<open>Stop\<close> reports whether it
  stopped a timer that was running or whose value was not yet received.
\<close>

datatype timer = TIdle | TRunning | TExpired

definition timer_Stop :: "timer \<Rightarrow> bool \<times> timer" where
  "timer_Stop t = (t \<noteq> TIdle, TIdle)"

datatype worker = WRunning | WBlocked | WDone

record 's batching_ops =
  bo_Add :: "Pin \<Rightarrow> 's \<Rightarrow> state_error option \<times> 's"
  bo_Rm :: "cid \<Rightarrow> 's \<Rightarrow> state_error option \<times> 's"
  bo_Commit :: "'s \<Rightarrow> state_error option \<times> 's"

record 's batcher =
  cb_state :: 's
  cb_queue :: "batchItem list"
  cb_curSize :: int
  cb_timer :: timer
  cb_done :: bool
  cb_closed :: bool
  cb_worker :: worker

text \<open>What the goroutines report, in order.\<close>

datatype batch_event =
    Accepted batchItem | Rejected batchItem string
  | Batched batchItem | BatchFailed batchItem
  | CommitDone | CommitFailed

definition batcher_init :: "'s \<Rightarrow> 's batcher" where
  "batcher_init s = \<lparr>cb_state = s, cb_queue = [], cb_curSize = 0, cb_timer = snd (timer_Stop TRunning),
     cb_done = False, cb_closed = False, cb_worker = WRunning\<rparr>"

text \<open>\<open>sendToBatchWorker\<close> handling one item, and its reaction to the shutdown.\<close>

definition sendToBatch :: "crdt_config \<Rightarrow> batchItem \<Rightarrow> 's batcher \<Rightarrow> batch_event \<times> 's batcher" where
  "sendToBatch cfg bi b =
     (if cb_closed b then (Rejected bi ''shutting down. Pin could not be batched'', b)
      else if length (cb_queue b) < crdt_MaxQueueSize cfg
      then (Accepted bi, b\<lparr>cb_queue := cb_queue b @ [bi]\<rparr>)
      else (Rejected bi ''error batching item: batching max_queue_size reached. Too many operations are waiting to be batched. Try increasing the max_queue_size or adjusting the batching options'', b))"

definition sendToBatch_close :: "'s batcher \<Rightarrow> 's batcher" where
  "sendToBatch_close b = b\<lparr>cb_closed := True\<rparr>"

text \<open>\<open>LogPin\<close> and \<open>LogUnpin\<close>: through the batch when it is enabled, otherwise on the state.\<close>

definition log_item :: "'s batching_ops \<Rightarrow> crdt_config \<Rightarrow> batchItem \<Rightarrow> 's batcher \<Rightarrow> state_error option \<times> 's batcher" where
  "log_item ops cfg bi b =
     (if batchingEnabled cfg
      then (case sendToBatch cfg bi b of
              (Rejected _ err, b') \<Rightarrow> (Some (StateError err), b')
            | (_, b') \<Rightarrow> (None, b'))
      else (case (if bi_isPin bi then bo_Add ops (bi_pin bi) (cb_state b)
                  else bo_Rm ops (pin_Cid (bi_pin bi)) (cb_state b)) of
              (e, s) \<Rightarrow> (e, b\<lparr>cb_state := s\<rparr>)))"

definition crdt_LogPin :: "'s batching_ops \<Rightarrow> crdt_config \<Rightarrow> Pin \<Rightarrow> 's batcher \<Rightarrow> state_error option \<times> 's batcher" where
  "crdt_LogPin ops cfg pin b = log_item ops cfg \<lparr>bi_isPin = True, bi_pin = pin\<rparr> b"

definition crdt_LogUnpin :: "'s batching_ops \<Rightarrow> crdt_config \<Rightarrow> Pin \<Rightarrow> 's batcher \<Rightarrow> state_error option \<times> 's batcher" where
  "crdt_LogUnpin ops cfg pin b = log_item ops cfg \<lparr>bi_isPin = False, bi_pin = pin\<rparr> b"

text \<open>\<open>State\<close> of a component that is ready.\<close>

definition crdt_State :: "('s \<Rightarrow> ReadOnlyState) \<Rightarrow> 's batcher \<Rightarrow> state_error + ReadOnlyState" where
  "crdt_State reader b = Inr (reader (cb_state b))"

definition addToBatch :: "'s batching_ops \<Rightarrow> batchItem \<Rightarrow> 's \<Rightarrow> state_error option \<times> 's" where
  "addToBatch ops bi s = (if bi_isPin bi then bo_Add ops (bi_pin bi) s else bo_Rm ops (pin_Cid (bi_pin bi)) s)"

text \<open>\<open>batchWorker\<close>: an item arrives. After \<open>Stop\<close> reports false the worker waits for the timer's value.\<close>

definition worker_item :: "'s batching_ops \<Rightarrow> crdt_config \<Rightarrow> batchItem \<Rightarrow> 's batcher \<Rightarrow> batch_event list \<times> 's batcher" where
  "worker_item ops cfg bi b =
     (let b = (if cb_curSize b = 0 then b\<lparr>cb_timer := TRunning\<rparr> else b)
      in case addToBatch ops bi (cb_state b) of
           (Some err, s) \<Rightarrow> ([BatchFailed bi], b\<lparr>cb_state := s\<rparr>)
         | (None, s) \<Rightarrow>
             let b = b\<lparr>cb_state := s, cb_curSize := cb_curSize b + 1\<rparr>
             in if cb_curSize b < crdt_MaxBatchSize cfg then ([Batched bi], b)
                else case bo_Commit ops (cb_state b) of
                       (Some err, s) \<Rightarrow> ([Batched bi, CommitFailed], b\<lparr>cb_state := s\<rparr>)
                     | (None, s) \<Rightarrow>
                         (case timer_Stop (cb_timer b) of
                            (stopped, t) \<Rightarrow>
                              if stopped
                              then ([Batched bi, CommitDone], b\<lparr>cb_state := s, cb_timer := t, cb_curSize := 0\<rparr>)
                              else ([Batched bi, CommitDone], b\<lparr>cb_state := s, cb_worker := WBlocked\<rparr>)))"

definition worker_timer :: "'s batching_ops \<Rightarrow> 's batcher \<Rightarrow> batch_event list \<times> 's batcher" where
  "worker_timer ops b =
     (case bo_Commit ops (cb_state b) of
        (Some err, s) \<Rightarrow> ([CommitFailed], b\<lparr>cb_state := s, cb_timer := TIdle\<rparr>)
      | (None, s) \<Rightarrow> ([CommitDone], b\<lparr>cb_state := s, cb_timer := TIdle, cb_curSize := 0\<rparr>))"

text \<open>At shutdown: drain the closed channel, then commit.\<close>

fun worker_drain :: "'s batching_ops \<Rightarrow> batchItem list \<Rightarrow> 's \<Rightarrow> batch_event list \<times> 's" where
  "worker_drain ops [] s = ([], s)"
| "worker_drain ops (bi # bis) s =
     (case addToBatch ops bi s of
        (e, s') \<Rightarrow>
          (case worker_drain ops bis s' of
             (evs, s'') \<Rightarrow> ((if e = None then Batched bi else BatchFailed bi) # evs, s'')))"

definition worker_shutdown :: "'s batching_ops \<Rightarrow> 's batcher \<Rightarrow> batch_event list \<times> 's batcher" where
  "worker_shutdown ops b =
     (case worker_drain ops (cb_queue b) (cb_state b) of
        (evs, s) \<Rightarrow>
          (case bo_Commit ops s of
             (e, s') \<Rightarrow> (evs @ [if e = None then CommitDone else CommitFailed],
                          b\<lparr>cb_state := s', cb_queue := [], cb_worker := WDone\<rparr>)))"

text \<open>
  The steps. A receive from the channel of items succeeds when an item waits, and with the zero item
  when the channel is closed and empty; \<open>select\<close> may prefer it to the cancelled context.
\<close>

inductive batch_step :: "'s batching_ops \<Rightarrow> crdt_config \<Rightarrow> 's batcher \<Rightarrow> batch_event list \<Rightarrow> 's batcher \<Rightarrow> bool"
  for ops :: "'s batching_ops" and cfg :: crdt_config where
  step_send: "sendToBatch cfg bi b = (ev, b') \<Longrightarrow> batch_step ops cfg b [ev] b'"
| step_close: "cb_done b \<Longrightarrow> batch_step ops cfg b [] (sendToBatch_close b)"
| step_done: "batch_step ops cfg b [] (b\<lparr>cb_done := True\<rparr>)"
| step_expire: "cb_timer b = TRunning \<Longrightarrow> batch_step ops cfg b [] (b\<lparr>cb_timer := TExpired\<rparr>)"
| step_item: "cb_worker b = WRunning \<Longrightarrow> cb_queue b = bi # q \<Longrightarrow> worker_item ops cfg bi (b\<lparr>cb_queue := q\<rparr>) = (evs, b') \<Longrightarrow>
    batch_step ops cfg b evs b'"
| step_closed_item: "cb_worker b = WRunning \<Longrightarrow> cb_queue b = [] \<Longrightarrow> cb_closed b \<Longrightarrow>
    worker_item ops cfg zero_batchItem b = (evs, b') \<Longrightarrow> batch_step ops cfg b evs b'"
| step_timer: "cb_worker b = WRunning \<Longrightarrow> cb_timer b = TExpired \<Longrightarrow> worker_timer ops b = (evs, b') \<Longrightarrow>
    batch_step ops cfg b evs b'"
| step_shutdown: "cb_worker b = WRunning \<Longrightarrow> cb_done b \<Longrightarrow> cb_closed b \<Longrightarrow> worker_shutdown ops b = (evs, b') \<Longrightarrow>
    batch_step ops cfg b evs b'"

inductive batch_run :: "'s batching_ops \<Rightarrow> crdt_config \<Rightarrow> 's \<Rightarrow> batch_event list \<Rightarrow> 's batcher \<Rightarrow> bool"
  for ops :: "'s batching_ops" and cfg :: crdt_config and s0 :: 's where
  run_init: "batch_run ops cfg s0 [] (batcher_init s0)"
| run_step: "batch_run ops cfg s0 tr b \<Longrightarrow> batch_step ops cfg b evs b' \<Longrightarrow> batch_run ops cfg s0 (tr @ evs) b'"

section \<open>Accepted items are batched and committed in order\<close>

definition accepted :: "batch_event list \<Rightarrow> batchItem list" where
  "accepted tr = concat (map (\<lambda>e. case e of Accepted bi \<Rightarrow> [bi] | _ \<Rightarrow> []) tr)"

definition taken :: "batch_event list \<Rightarrow> batchItem list" where
  "taken tr = concat (map (\<lambda>e. case e of Batched bi \<Rightarrow> [bi] | BatchFailed bi \<Rightarrow> [bi] | _ \<Rightarrow> []) tr)"

text \<open>The items committed so far, and those batched since.\<close>

fun batch_account :: "batchItem list \<times> batchItem list \<Rightarrow> batch_event \<Rightarrow> batchItem list \<times> batchItem list" where
  "batch_account (c, p) (Batched bi) = (c, p @ [bi])"
| "batch_account (c, p) CommitDone = (c @ p, [])"
| "batch_account (c, p) _ = (c, p)"

definition batched :: "batch_event list \<Rightarrow> batchItem list" where
  "batched tr = concat (map (\<lambda>e. case e of Batched bi \<Rightarrow> [bi] | _ \<Rightarrow> []) tr)"

definition item_op :: "batchItem \<Rightarrow> state_op" where
  "item_op bi = (if bi_isPin bi then AddPin (bi_pin bi) else RmPin (pin_Cid (bi_pin bi)))"

lemma accepted_simps [simp]:
  "accepted [] = []" "accepted (xs @ ys) = accepted xs @ accepted ys"
  "accepted (e # xs) = (case e of Accepted bi \<Rightarrow> [bi] | _ \<Rightarrow> []) @ accepted xs"
  "taken [] = []" "taken (xs @ ys) = taken xs @ taken ys"
  "taken (e # xs) = (case e of Batched bi \<Rightarrow> [bi] | BatchFailed bi \<Rightarrow> [bi] | _ \<Rightarrow> []) @ taken xs"
  "batched [] = []" "batched (xs @ ys) = batched xs @ batched ys"
  "batched (e # xs) = (case e of Batched bi \<Rightarrow> [bi] | _ \<Rightarrow> []) @ batched xs"
  by (simp_all add: accepted_def taken_def batched_def)

lemma addToBatch_step: "addToBatch ops bi s = state_step (bo_Add ops) (bo_Rm ops) s (item_op bi)"
  by (simp add: addToBatch_def item_op_def)

lemma worker_item_frame:
  assumes "worker_item ops cfg bi b = (evs, b')"
  shows "cb_queue b' = cb_queue b" "cb_closed b' = cb_closed b" "cb_done b' = cb_done b" "taken evs = [bi]" "accepted evs = []"
  using assms
  by (auto simp: worker_item_def Let_def timer_Stop_def split: prod.splits option.splits if_splits)

lemma worker_drain_frame:
  "worker_drain ops bis s = (evs, s') \<Longrightarrow> taken evs = bis \<and> accepted evs = []"
  by (induction ops bis s arbitrary: evs s' rule: worker_drain.induct) (auto split: prod.splits)

text \<open>The order of items: what was accepted is what was taken and what still waits.\<close>

definition queue_inv :: "batch_event list \<Rightarrow> 's batcher \<Rightarrow> bool" where
  "queue_inv tr b \<longleftrightarrow> (\<exists>k. accepted tr @ replicate k zero_batchItem = taken tr @ cb_queue b \<and> (k = 0 \<or> cb_closed b))"

lemma queue_inv_step:
  assumes "queue_inv tr b" "batch_step ops cfg b evs b'"
  shows "queue_inv (tr @ evs) b'"
  using assms(2,1)
proof cases
  case (step_send bi ev)
  obtain k where k: "accepted tr @ replicate k zero_batchItem = taken tr @ cb_queue b" "k = 0 \<or> cb_closed b"
    using assms(1) by (auto simp: queue_inv_def)
  then show ?thesis using step_send
    by (auto simp: sendToBatch_def queue_inv_def split: if_splits intro: exI [of _ k] exI [of _ 0])
next
  case (step_item bi q)
  then show ?thesis using assms(1) worker_item_frame [OF step_item(3)] by (auto simp: queue_inv_def)
next
  case step_closed_item
  obtain k where "accepted tr @ replicate k zero_batchItem = taken tr" using assms(1) step_closed_item by (auto simp: queue_inv_def)
  then have "accepted tr @ replicate (Suc k) zero_batchItem = taken tr @ [zero_batchItem]"
    by (metis append_assoc replicate_append_same replicate_Suc)
  then show ?thesis using worker_item_frame [OF step_closed_item(4)] step_closed_item
    unfolding queue_inv_def by (intro exI [of _ "Suc k"]) auto
next
  case step_shutdown
  obtain evs1 s1 where d: "worker_drain ops (cb_queue b) (cb_state b) = (evs1, s1)" by (cases "worker_drain ops (cb_queue b) (cb_state b)")
  then show ?thesis using assms(1) step_shutdown worker_drain_frame [OF d]
    by (auto simp: worker_shutdown_def queue_inv_def split: prod.splits)
qed (auto simp: queue_inv_def sendToBatch_close_def worker_timer_def split: prod.splits option.splits)

lemma queue_inv_run: "batch_run ops cfg s0 tr b \<Longrightarrow> queue_inv tr b"
proof (induction rule: batch_run.induct)
  case run_init
  then show ?case by (auto simp: queue_inv_def batcher_init_def)
qed (rule queue_inv_step)


lemma batched_taken: "set (batched tr) \<subseteq> set (taken tr)"
  by (induction tr) (auto split: batch_event.splits)

lemma batch_run_items:
  assumes "batch_run ops cfg s0 tr b"
  shows "set (taken tr @ cb_queue b) \<subseteq> insert zero_batchItem (set (accepted tr))"
proof -
  obtain k where "accepted tr @ replicate k zero_batchItem = taken tr @ cb_queue b"
    using queue_inv_run [OF assms] by (auto simp: queue_inv_def)
  from arg_cong [OF this, of set] show ?thesis by auto
qed

text \<open>A batching state that holds the batched items and shows the committed ones.\<close>

definition account_inv ::
  "('s \<Rightarrow> state_op list \<Rightarrow> bool) \<Rightarrow> ('s \<Rightarrow> Pin \<Rightarrow> bool) \<Rightarrow> (Pin \<Rightarrow> Pin) \<Rightarrow> ('s \<Rightarrow> cid \<rightharpoonup> Pin) \<Rightarrow> 's \<Rightarrow>
     batchItem list \<times> batchItem list \<Rightarrow> 's \<Rightarrow> bool" where
  "account_inv holds storable norm pins s0 cp s \<longleftrightarrow> storable s = storable s0 \<and> holds s (map item_op (snd cp)) \<and>
     pins s = foldl (pinset_step norm) (pins s0) (map item_op (fst cp))"

context batching_state
begin

lemma account_add:
  assumes "account_inv holds storable norm pins s0 cp s" "op_storable (storable s0) (item_op bi)"
    and "addToBatch \<lparr>bo_Add = add, bo_Rm = rm, bo_Commit = commit\<rparr> bi s = (e, s')"
  shows "account_inv holds storable norm pins s0 (batch_account cp (if e = None then Batched bi else BatchFailed bi)) s'"
  using assms batch_op [of s "map item_op (snd cp)" "item_op bi" e s']
  by (cases cp) (auto simp: account_inv_def addToBatch_step split: if_splits)

lemma account_commit:
  assumes "account_inv holds storable norm pins s0 cp s" "commit s = (e, s')"
  shows "account_inv holds storable norm pins s0 (batch_account cp (if e = None then CommitDone else CommitFailed)) s'"
  using assms batch_commit [of s "map item_op (snd cp)" e s']
  by (cases cp) (auto simp: account_inv_def split: if_splits)

lemma account_item:
  assumes "account_inv holds storable norm pins s0 cp (cb_state b)" "op_storable (storable s0) (item_op bi)"
    and r: "worker_item \<lparr>bo_Add = add, bo_Rm = rm, bo_Commit = commit\<rparr> cfg bi b = (evs, b')"
  shows "account_inv holds storable norm pins s0 (foldl batch_account cp evs) (cb_state b')"
proof -
  obtain e s1 where s1: "addToBatch \<lparr>bo_Add = add, bo_Rm = rm, bo_Commit = commit\<rparr> bi (cb_state b) = (e, s1)"
    by (cases "addToBatch \<lparr>bo_Add = add, bo_Rm = rm, bo_Commit = commit\<rparr> bi (cb_state b)")
  note a1 = account_add [OF assms(1,2) s1]
  obtain e2 s2 where s2: "commit s1 = (e2, s2)" by (cases "commit s1")
  have a2: "e = None \<Longrightarrow> account_inv holds storable norm pins s0
      (batch_account (batch_account cp (Batched bi)) (if e2 = None then CommitDone else CommitFailed)) s2"
    using account_commit [OF _ s2] a1 by simp
  show ?thesis using r s1 s2 a1 a2
    by (auto simp: worker_item_def Let_def timer_Stop_def split: option.splits if_splits prod.splits)
qed

lemma account_drain:
  assumes "account_inv holds storable norm pins s0 cp s" "\<forall>bi \<in> set bis. op_storable (storable s0) (item_op bi)"
    and "worker_drain \<lparr>bo_Add = add, bo_Rm = rm, bo_Commit = commit\<rparr> bis s = (evs, s')"
  shows "account_inv holds storable norm pins s0 (foldl batch_account cp evs) s'"
  using assms
proof (induction bis arbitrary: cp s evs s')
  case (Cons bi bis)
  obtain e s1 where s1: "addToBatch \<lparr>bo_Add = add, bo_Rm = rm, bo_Commit = commit\<rparr> bi s = (e, s1)"
    by (cases "addToBatch \<lparr>bo_Add = add, bo_Rm = rm, bo_Commit = commit\<rparr> bi s")
  obtain evs1 where evs1: "worker_drain \<lparr>bo_Add = add, bo_Rm = rm, bo_Commit = commit\<rparr> bis s1 = (evs1, s')"
      "evs = (if e = None then Batched bi else BatchFailed bi) # evs1"
    using Cons.prems(3) s1 by (auto split: prod.splits)
  have "account_inv holds storable norm pins s0 (batch_account cp (if e = None then Batched bi else BatchFailed bi)) s1"
    using account_add [OF Cons.prems(1) _ s1] Cons.prems(2) by simp
  from Cons.IH [OF this _ evs1(1)] Cons.prems(2) show ?case by (simp add: evs1(2))
qed simp

lemma account_step:
  assumes a: "account_inv holds storable norm pins s0 cp (cb_state b)"
    and q: "\<forall>bi \<in> insert zero_batchItem (set (cb_queue b)). op_storable (storable s0) (item_op bi)"
    and r: "batch_step \<lparr>bo_Add = add, bo_Rm = rm, bo_Commit = commit\<rparr> cfg b evs b'"
  shows "account_inv holds storable norm pins s0 (foldl batch_account cp evs) (cb_state b')"
  using r
proof cases
  case (step_send bi ev)
  then show ?thesis using a by (cases cp) (auto simp: sendToBatch_def split: if_splits)
next
  case (step_item bi q')
  then show ?thesis using account_item [OF _ _ step_item(3)] a q by auto
next
  case step_closed_item
  then show ?thesis using account_item [OF a _ step_closed_item(4)] q by auto
next
  case step_timer
  obtain e s1 where "commit (cb_state b) = (e, s1)" by (cases "commit (cb_state b)")
  with step_timer account_commit [OF a this] show ?thesis by (auto simp: worker_timer_def split: option.splits)
next
  case step_shutdown
  obtain evs1 s1 where d: "worker_drain \<lparr>bo_Add = add, bo_Rm = rm, bo_Commit = commit\<rparr> (cb_queue b) (cb_state b) = (evs1, s1)"
    by (cases "worker_drain \<lparr>bo_Add = add, bo_Rm = rm, bo_Commit = commit\<rparr> (cb_queue b) (cb_state b)")
  obtain e s2 where c: "commit s1 = (e, s2)" by (cases "commit s1")
  have "account_inv holds storable norm pins s0 (foldl batch_account cp evs1) s1"
    using account_drain [OF a _ d] q by simp
  from account_commit [OF this c] show ?thesis using step_shutdown d c
    by (auto simp: worker_shutdown_def simp del: batch_account.simps split: if_splits)
qed (use a in \<open>auto simp: sendToBatch_close_def\<close>)

lemma batch_pins:
  assumes run: "batch_run \<lparr>bo_Add = add, bo_Rm = rm, bo_Commit = commit\<rparr> cfg s0 tr b" and h: "holds s0 []"
    and items: "\<forall>bi \<in> set (accepted tr). op_storable (storable s0) (item_op bi)"
  shows "account_inv holds storable norm pins s0 (foldl batch_account ([], []) tr) (cb_state b)"
  using run items
proof (induction rule: batch_run.induct)
  case run_init
  then show ?case using h by (simp add: account_inv_def batcher_init_def)
next
  case (run_step tr b evs b')
  have "op_storable (storable s0) (item_op zero_batchItem)" by (simp add: item_op_def zero_batchItem_def)
  then have "\<forall>bi \<in> insert zero_batchItem (set (cb_queue b)). op_storable (storable s0) (item_op bi)"
    using batch_run_items [OF run_step(1)] run_step.prems by auto
  from account_step [OF _ this run_step(2)] run_step show ?case by simp
qed

end



definition example_crdt_cfg :: crdt_config where
  "example_crdt_cfg = \<lparr>crdt_TrustAll = False, crdt_MaxBatchSize = 2, crdt_MaxBatchAge = second, crdt_MaxQueueSize = 10\<rparr>"

definition example_bst :: "((string, bytes) gomap, (string \<times> bytes option) list) BatchingState" where
  "example_bst = (example_batch, NewBatching example_ds example_batch [] [] ''/pins'')"



section \<open>When the worker stays responsive\<close>

definition responsive :: "crdt_config \<Rightarrow> 's batcher \<Rightarrow> bool" where
  "responsive cfg b \<longleftrightarrow> cb_worker b \<noteq> WBlocked \<and> 0 \<le> cb_curSize b \<and> cb_curSize b < crdt_MaxBatchSize cfg \<and>
     (0 < cb_curSize b \<longrightarrow> cb_timer b \<noteq> TIdle)"

lemma worker_item_responsive:
  assumes "responsive cfg b" "worker_item ops cfg bi b = (evs, b')" "CommitFailed \<notin> set evs"
  shows "responsive cfg b'"
  using assms
  by (auto simp: worker_item_def responsive_def Let_def timer_Stop_def split: prod.splits option.splits if_splits)

lemma responsive_step:
  assumes "responsive cfg b" "batch_step ops cfg b evs b'" "CommitFailed \<notin> set evs"
  shows "responsive cfg b'"
  using assms(2,1,3)
proof cases
  case (step_item bi q)
  have "responsive cfg (b\<lparr>cb_queue := q\<rparr>)" using assms(1) by (simp add: responsive_def)
  from worker_item_responsive [OF this step_item(3) assms(3)] show ?thesis .
next
  case step_closed_item
  from worker_item_responsive [OF assms(1) step_closed_item(4) assms(3)] show ?thesis .
qed (auto simp: responsive_def sendToBatch_def sendToBatch_close_def worker_timer_def worker_shutdown_def
    split: prod.splits option.splits if_splits)

text \<open>
  C26. Batches do not grow old or large. As long as no commit fails, the worker is never stuck, a batch has
  fewer items than the maximum between steps, and while it has any, its timer is running or has expired,
  so that a commit of the batch is due.
\<close>

theorem crdt_batch_responsive:
  assumes "batch_run ops cfg s0 tr b" "CommitFailed \<notin> set tr" "batchingEnabled cfg"
  shows "cb_worker b \<noteq> WBlocked \<and> 0 \<le> cb_curSize b \<and> cb_curSize b < crdt_MaxBatchSize cfg \<and>
    (0 < cb_curSize b \<longrightarrow> cb_timer b \<noteq> TIdle)"
proof -
  have "responsive cfg b" using assms(1,2)
  proof (induction rule: batch_run.induct)
    case run_init
    then show ?case using assms(3) by (simp add: responsive_def batcher_init_def batchingEnabled_def)
  next
    case (run_step tr b evs b')
    then show ?case using responsive_step [of cfg b ops evs b'] by simp
  qed
  then show ?thesis by (simp add: responsive_def)
qed

theorem crdt_batch_responsive_witness:
  "cb_worker (batcher_init example_bst) \<noteq> WBlocked \<and> cb_curSize (batcher_init example_bst) < 2"
proof -
  have "batchingEnabled example_crdt_cfg" by (simp add: batchingEnabled_def example_crdt_cfg_def second_def)
  from crdt_batch_responsive [OF run_init _ this, of example_bst] show ?thesis by (simp add: example_crdt_cfg_def)
qed




text \<open>A state whose first commit fails and whose other operations succeed, counting the commits.\<close>

definition flaky_ops :: "nat batching_ops" where
  "flaky_ops = \<lparr>bo_Add = (\<lambda>p s. (None, s)), bo_Rm = (\<lambda>c s. (None, s)),
     bo_Commit = (\<lambda>s. (if s = 0 then Some (StateError ''unavailable'') else None, s + 1))\<rparr>"


text \<open>
  A shutdown can unpin the undefined CID. After the channel of items was closed, the worker may receive
  from it before it notices the cancelled context; it then batches and, if that succeeds, commits the
  removal of the zero pin, which nobody asked for.
\<close>

theorem crdt_shutdown_zero_item:
  "\<exists>tr b. batch_run flaky_ops example_crdt_cfg 0 tr b \<and> accepted tr = [] \<and> batched tr = [zero_batchItem] \<and>
     item_op zero_batchItem = RmPin CidUndef"
proof -
  let ?s0 = "batcher_init (0 :: nat)"
  define s2 where "s2 = sendToBatch_close (?s0\<lparr>cb_done := True\<rparr>)"
  have 1: "batch_step flaky_ops example_crdt_cfg ?s0 [] (?s0\<lparr>cb_done := True\<rparr>)" by (rule step_done)
  have 2: "batch_step flaky_ops example_crdt_cfg (?s0\<lparr>cb_done := True\<rparr>) [] s2"
    unfolding s2_def by (rule step_close) simp
  have 3: "batch_step flaky_ops example_crdt_cfg s2 [Batched zero_batchItem] (s2\<lparr>cb_timer := TRunning, cb_state := 0, cb_curSize := 1\<rparr>)"
    by (rule step_closed_item) (simp_all add: s2_def sendToBatch_close_def batcher_init_def worker_item_def addToBatch_def
        zero_batchItem_def flaky_ops_def example_crdt_cfg_def)
  from run_step [OF run_step [OF run_step [OF run_init 1] 2] 3] show ?thesis
    by (intro exI) (auto simp: item_op_def zero_batchItem_def zero_Pin_def)
qed

text \<open>
  The hooks mirror the state. For a pin that the state can store, the datastore entry that \<open>Add\<close> writes
  makes every peer track the pin that \<open>Get\<close> would return, and its key, when deleted, makes it untrack that CID.
\<close>

theorem crdt_hooks:
  assumes "ds_storable st p" "serializePin st p = Inr v" "keys_ok (dst_env st) (dst_namespace st)"
  shows "PutHook (dse_codec (dst_env st)) v = [CallTrack (stored_pin zero_Pin p)] \<and>
    deserializePin st (pin_Cid p) v = Inr (stored_pin zero_Pin p) \<and>
    DeleteHook now (dst_env st) (cidToDsKey (dst_env st) (pin_Cid p)) = [CallUntrack (PinCid now (pin_Cid p))]"
  using assms deserialize_serialize [OF assms(1,2)] ProtoMarshal_stored [of "dse_codec (dst_env st)" p v zero_Pin]
  by (simp add: PutHook_def DeleteHook_def cidToDsKey_def ds_storable_def serializePin_def keys_ok_def)

theorem crdt_hooks_witness:
  "PutHook example_codec ''01'' = [CallTrack (stored_pin zero_Pin example_pin)] \<and>
   DeleteHook 7 example_ds ''Qm'' = [CallUntrack (PinCid 7 ''Qm'')]"
proof -
  have "serializePin example_dsst example_pin = Inr ''01''"
    using example_pin_ok(4) by (simp add: serializePin_def example_dsst_def dsstate_New_def) (simp add: example_ds_def)
  moreover have "keys_ok (dst_env example_dsst) (dst_namespace example_dsst)" by (rule dsst_invD(2) [OF example_dsst_inv])
  ultimately show ?thesis using crdt_hooks [OF example_pin_storable, of "''01''" 7]
    by (simp add: example_dsst_def dsstate_New_def cidToDsKey_def) (simp add: example_ds_def example_codec_def example_pin_def)
qed

end
