(* ===== verification/Allocation.thy ===== *)
theory Allocation
  imports Api_Types
begin

text \<open>
  \<open>allocate.go\<close>: which peers hold a pin. \<open>filterMetrics\<close> sorts the peers that published all the
  metrics of the allocator into current, priority and candidate peers; \<open>obtainAllocations\<close> keeps
  the current ones and lets the allocator order the others. The allocator and the monitor are
  interfaces of the code (\<open>PinAllocator\<close> and \<open>PeerMonitor\<close> in \<open>ipfscluster.go\<close>): they are
  arguments here, with what is expected of them in the locales \<open>pin_allocator\<close> and
  \<open>peer_monitor\<close>.
\<close>

section \<open>Selecting metrics\<close>

record classifiedMetrics =
  cm_current :: MetricsSet
  cm_currentPeers :: "peer_id list"
  cm_candidate :: MetricsSet
  cm_candidatePeers :: "peer_id list"
  cm_priority :: MetricsSet
  cm_priorityPeers :: "peer_id list"

record alloc_config =
  ac_PinOnlyOnTrustedPeers :: bool
  ac_PinOnlyOnUntrustedPeers :: bool
  ac_IsTrustedPeer :: "peer_id \<Rightarrow> bool"

type_synonym peers_map = "(peer_id, Metric list) gomap"

definition containsPeer :: "peer_id list \<Rightarrow> peer_id \<Rightarrow> bool" where
  "containsPeer xs p = list_ex (\<lambda>x. x = p) xs"

definition minInt :: "int \<Rightarrow> int \<Rightarrow> int" where
  "minInt x y = (if x < y then x else y)"

definition append_metric :: "Metric \<Rightarrow> peers_map \<Rightarrow> peers_map" where
  "append_metric m pm = map_put (m_Peer m) (map_get [] pm (m_Peer m) @ [m]) pm"

definition filterMetrics_one ::
  "alloc_config \<Rightarrow> peer_id list \<Rightarrow> peer_id list \<Rightarrow> peer_id list \<Rightarrow> Metric \<Rightarrow>
     peers_map \<times> peers_map \<times> peers_map \<Rightarrow> peers_map \<times> peers_map \<times> peers_map" where
  "filterMetrics_one cfg currentAllocs priorityList blacklist m maps =
     (case maps of (curPeersMap, candPeersMap, prioPeersMap) \<Rightarrow>
        if containsPeer blacklist (m_Peer m) then maps
        else if ac_PinOnlyOnTrustedPeers cfg \<and> \<not> ac_IsTrustedPeer cfg (m_Peer m) then maps
        else if ac_PinOnlyOnUntrustedPeers cfg \<and> ac_IsTrustedPeer cfg (m_Peer m) then maps
        else if containsPeer currentAllocs (m_Peer m)
             then (append_metric m curPeersMap, candPeersMap, prioPeersMap)
        else if containsPeer priorityList (m_Peer m)
             then (curPeersMap, candPeersMap, append_metric m prioPeersMap)
        else (curPeersMap, append_metric m candPeersMap, prioPeersMap))"

text \<open>Peers that have as many metrics as there are informers; the others are ignored.\<close>

definition fillMetricsSet :: "nat \<Rightarrow> peers_map \<Rightarrow> MetricsSet \<times> peer_id list" where
  "fillMetricsSet numMetrics peersMap =
     foldl (\<lambda>(mSet, peers) (p, metrics).
        if length metrics = numMetrics
        then (foldl (\<lambda>s m. map_put (m_Name m) (map_get [] s (m_Name m) @ [m]) s) mSet metrics, peers @ [p])
        else (mSet, peers)) ([], []) peersMap"

definition filterMetrics ::
  "alloc_config \<Rightarrow> MetricsSet \<Rightarrow> nat \<Rightarrow> peer_id list \<Rightarrow> peer_id list \<Rightarrow> peer_id list \<Rightarrow> classifiedMetrics" where
  "filterMetrics cfg mSet numMetrics currentAllocs priorityList blacklist =
     (case foldl (\<lambda>maps (name, metrics).
             foldl (\<lambda>maps m. filterMetrics_one cfg currentAllocs priorityList blacklist m maps) maps metrics)
             ([], [], []) mSet of
        (curPeersMap, candPeersMap, prioPeersMap) \<Rightarrow>
          let (curSet, curPeers) = fillMetricsSet numMetrics curPeersMap;
              (candSet, candPeers) = fillMetricsSet numMetrics candPeersMap;
              (prioSet, prioPeers) = fillMetricsSet numMetrics prioPeersMap
          in \<lparr>cm_current = curSet, cm_currentPeers = curPeers, cm_candidate = candSet,
              cm_candidatePeers = candPeers, cm_priority = prioSet, cm_priorityPeers = prioPeers\<rparr>)"

section \<open>Choosing peers\<close>

datatype alloc_error =
    BadReplicationFactors int int
  | NotEnoughPeers int int nat
  | AllocatorError string

text \<open>The function of the allocator: current, candidate and priority metrics.\<close>

type_synonym allocator_fn = "MetricsSet \<Rightarrow> MetricsSet \<Rightarrow> MetricsSet \<Rightarrow> string + peer_id list"

text \<open>
  \<open>obtainAllocations\<close>; the result \<^term>\<open>None\<close> is Go's \<open>nil\<close>. The replication factors are positive
  here (\<open>rplMin <= rplMax AND >0\<close>), so the slice that drops allocations is in range.
\<close>

definition obtainAllocations ::
  "allocator_fn \<Rightarrow> int \<Rightarrow> int \<Rightarrow> classifiedMetrics \<Rightarrow> alloc_error + peer_id list option" where
  "obtainAllocations Allocate rplMin rplMax metrics =
     (let nCurrentValid = int (length (cm_currentPeers metrics));
          nAvailableValid = int (length (cm_candidatePeers metrics) + length (cm_priorityPeers metrics));
          needed = rplMin - nCurrentValid;
          wanted = rplMax - nCurrentValid
      in if wanted < 0 then Inr (Some (take (nat (nCurrentValid + wanted)) (cm_currentPeers metrics)))
         else if needed \<le> 0 then Inr None
         else if nAvailableValid < needed
              then Inl (NotEnoughPeers needed wanted (length (cm_priorityPeers metrics @ cm_candidatePeers metrics)))
         else case Allocate (cm_current metrics) (cm_candidate metrics) (cm_priority metrics) of
                Inl err \<Rightarrow> Inl (AllocatorError err)
              | Inr finalAllocs \<Rightarrow>
                  if int (length finalAllocs) < needed then Inl (NotEnoughPeers needed wanted (length finalAllocs))
                  else let allocationsToUse = minInt wanted (int (length finalAllocs))
                       in Inr (Some (cm_currentPeers metrics @ take (nat allocationsToUse) finalAllocs)))"

definition allocate ::
  "alloc_config \<Rightarrow> allocator_fn \<Rightarrow> string list \<Rightarrow> (string \<Rightarrow> Metric list) \<Rightarrow> Pin \<Rightarrow> int \<Rightarrow> int \<Rightarrow>
     peer_id list \<Rightarrow> peer_id list \<Rightarrow> alloc_error + peer_id list" where
  "allocate cfg Allocate metricNames LatestMetrics currentPin rplMin rplMax blacklist priorityList =
     (if rplMin + rplMax = 0 then Inl (BadReplicationFactors rplMin rplMax)
      else if rplMin < 0 \<and> rplMax < 0 then Inr []
      else let currentAllocs = (if Pin_Defined currentPin then pin_Allocations currentPin else []);
               mSet = foldl (\<lambda>s metricName. map_put metricName (LatestMetrics metricName) s) [] metricNames;
               classified = filterMetrics cfg mSet (length metricNames) currentAllocs priorityList blacklist
           in case obtainAllocations Allocate rplMin rplMax classified of
                Inl err \<Rightarrow> Inl err
              | Inr None \<Rightarrow> Inr currentAllocs
              | Inr (Some newAllocs) \<Rightarrow> Inr newAllocs)"

section \<open>What is expected of the monitor and of the allocator\<close>

text \<open>
  For every metric of a list \<open>by\<close>, a set of metrics has one metric for each of the same peers. This is
  what \<open>fillMetricsSet\<close> establishes and what the allocator relies on.
\<close>

definition complete_set :: "string list \<Rightarrow> peer_id set \<Rightarrow> MetricsSet \<Rightarrow> bool" where
  "complete_set by P st \<longleftrightarrow>
     wf_map st \<and> distinct by \<and> by \<noteq> [] \<and> [] \<notin> P \<and>
     list_all (\<lambda>n. distinct (map m_Peer (map_get [] st n)) \<and> set (map m_Peer (map_get [] st n)) = P) by"

lemma complete_setD:
  assumes "complete_set by P st" "n \<in> set by"
  shows "distinct (map m_Peer (map_get [] st n))" "set (map m_Peer (map_get [] st n)) = P"
  using assms by (auto simp: complete_set_def list_all_iff)

section \<open>Classification\<close>

datatype peer_class = Dropped | CurrentPeer | PriorityPeer | CandidatePeer

definition peer_class ::
  "alloc_config \<Rightarrow> peer_id list \<Rightarrow> peer_id list \<Rightarrow> peer_id list \<Rightarrow> peer_id \<Rightarrow> peer_class" where
  "peer_class cfg currentAllocs priorityList blacklist p =
     (if p \<in> set blacklist \<or> ac_PinOnlyOnTrustedPeers cfg \<and> \<not> ac_IsTrustedPeer cfg p \<or>
         ac_PinOnlyOnUntrustedPeers cfg \<and> ac_IsTrustedPeer cfg p then Dropped
      else if p \<in> set currentAllocs then CurrentPeer
      else if p \<in> set priorityList then PriorityPeer
      else CandidatePeer)"

lemma containsPeer_iff: "containsPeer xs p \<longleftrightarrow> p \<in> set xs"
  by (auto simp: containsPeer_def list_ex_iff)

definition by_peer :: "Metric list \<Rightarrow> peers_map" where
  "by_peer ms = foldl (\<lambda>pm m. append_metric m pm) [] ms"

lemma by_peer_snoc: "by_peer (ms @ [m]) = append_metric m (by_peer ms)"
  by (simp add: by_peer_def)

lemma filterMetrics_one_class:
  "filterMetrics_one cfg cur prio black m (a, b, c) =
     (let k = peer_class cfg cur prio black (m_Peer m)
      in (if k = CurrentPeer then append_metric m a else a,
          if k = CandidatePeer then append_metric m b else b,
          if k = PriorityPeer then append_metric m c else c))"
  by (auto simp: filterMetrics_one_def peer_class_def containsPeer_iff Let_def)

lemma foldl_concat: "foldl (\<lambda>a (k, v). foldl f a v) a xs = foldl f a (concat (map snd xs))"
  by (induction xs arbitrary: a) auto

lemma filterMetrics_maps:
  "foldl (\<lambda>maps m. filterMetrics_one cfg cur prio black m maps) ([], [], []) ms =
     (by_peer (filter (\<lambda>m. peer_class cfg cur prio black (m_Peer m) = CurrentPeer) ms),
      by_peer (filter (\<lambda>m. peer_class cfg cur prio black (m_Peer m) = CandidatePeer) ms),
      by_peer (filter (\<lambda>m. peer_class cfg cur prio black (m_Peer m) = PriorityPeer) ms))"
proof (induction ms rule: rev_induct)
  case Nil
  then show ?case by (simp add: by_peer_def)
next
  case (snoc m ms)
  then show ?case by (simp add: filterMetrics_one_class Let_def by_peer_snoc)
qed

lemma wf_by_peer: "wf_map (by_peer ms)"
  by (induction ms rule: rev_induct) (simp_all add: by_peer_snoc append_metric_def, simp add: by_peer_def)

lemma by_peer_lookup:
  "map_of (by_peer ms) p =
     (if filter (\<lambda>m. m_Peer m = p) ms = [] then None else Some (filter (\<lambda>m. m_Peer m = p) ms))"
proof (induction ms rule: rev_induct)
  case Nil
  then show ?case by (simp add: by_peer_def)
next
  case (snoc m ms)
  then show ?case by (cases "m_Peer m = p") (simp_all add: by_peer_snoc append_metric_def map_get_def split: if_splits)
qed

definition add_metric :: "MetricsSet \<Rightarrow> Metric \<Rightarrow> MetricsSet" where
  "add_metric s m = map_put (m_Name m) (map_get [] s (m_Name m) @ [m]) s"

lemma add_metrics_get:
  "map_get [] (foldl add_metric s ms) n = map_get [] s n @ filter (\<lambda>m. m_Name m = n) ms"
  by (induction ms arbitrary: s) (auto simp: add_metric_def)

lemma wf_add_metrics: "wf_map s \<Longrightarrow> wf_map (foldl add_metric s ms)"
  by (induction ms arbitrary: s) (auto simp: add_metric_def)

lemma fillMetricsSet_eq:
  "fillMetricsSet n pm =
     (foldl add_metric [] (concat (map snd (filter (\<lambda>(p, l). length l = n) pm))),
      map fst (filter (\<lambda>(p, l). length l = n) pm))"
proof -
  have "foldl (\<lambda>(mSet, peers) (p, metrics).
        if length metrics = n
        then (foldl (\<lambda>s m. map_put (m_Name m) (map_get [] s (m_Name m) @ [m]) s) mSet metrics, peers @ [p])
        else (mSet, peers)) (s, ps) pm =
      (foldl add_metric s (concat (map snd (filter (\<lambda>(p, l). length l = n) pm))),
       ps @ map fst (filter (\<lambda>(p, l). length l = n) pm))" for s ps
    by (induction pm arbitrary: s ps) (auto simp: add_metric_def [abs_def])
  then show ?thesis by (simp add: fillMetricsSet_def)
qed

section \<open>Complete sets\<close>

text \<open>
  \<open>LatestMetrics\<close> returns, for a name, metrics of that name, one per peer.
\<close>

definition one_per_peer :: "string \<Rightarrow> Metric list \<Rightarrow> bool" where
  "one_per_peer n ms \<longleftrightarrow> list_all (\<lambda>m. m_Name m = n \<and> m_Peer m \<noteq> []) ms \<and> distinct (map m_Peer ms)"

lemma one_per_peer_filter:
  assumes "one_per_peer n ms"
  shows "length (filter (\<lambda>m. m_Peer m = p) ms) \<le> 1"
proof -
  have "distinct (map m_Peer (filter (\<lambda>m. m_Peer m = p) ms))"
    using assms by (simp add: one_per_peer_def distinct_map_filter)
  moreover have "set (map m_Peer (filter (\<lambda>m. m_Peer m = p) ms)) \<subseteq> {p}" by auto
  then have "card (set (map m_Peer (filter (\<lambda>m. m_Peer m = p) ms))) \<le> 1" by (metis card.empty card_insert_disjoint card_mono empty_iff finite.emptyI finite_insert One_nat_def)
  ultimately show ?thesis by (metis distinct_card length_map)
qed

text \<open>The metrics of one peer over all names: if there are as many as names, there is one of each.\<close>

lemma one_of_each:
  assumes "\<And>n. n \<in> set names \<Longrightarrow> one_per_peer n (L n)" "distinct names"
    and "length (filter (\<lambda>m. m_Peer m = p) (concat (map L names))) = length names" "n \<in> set names"
  shows "\<exists>m. filter (\<lambda>m. m_Name m = n) (filter (\<lambda>m. m_Peer m = p) (concat (map L names))) = [m] \<and> m_Peer m = p"
  using assms
proof (induction names)
  case (Cons a names)
  have le: "length (filter (\<lambda>m. m_Peer m = p) (L x)) \<le> 1" if "x \<in> set (a # names)" for x
    using Cons.prems(1) [OF that] by (rule one_per_peer_filter)
  have "length (filter (\<lambda>m. m_Peer m = p) (concat (map L xs))) \<le> length xs" if "set xs \<subseteq> set (a # names)" for xs
    using that by (induction xs) (use le in fastforce)+
  then have rest: "length (filter (\<lambda>m. m_Peer m = p) (concat (map L names))) \<le> length names" by auto
  have len: "length (filter (\<lambda>m. m_Peer m = p) (L a)) = 1"
      "length (filter (\<lambda>m. m_Peer m = p) (concat (map L names))) = length names"
    using Cons.prems(3) rest le [of a] by simp_all
  have nm: "m_Name m = x" if "m \<in> set (L x)" "x \<in> set (a # names)" for m x
    using that Cons.prems(1) [of x] by (auto simp: one_per_peer_def list_all_iff)
  show ?case
  proof (cases "n = a")
    case True
    have "filter (\<lambda>m. m_Name m = n) (filter (\<lambda>m. m_Peer m = p) (concat (map L names))) = []"
      using nm Cons.prems(2) True by (auto simp: filter_empty_conv)
    moreover have "filter (\<lambda>m. m_Name m = n) (filter (\<lambda>m. m_Peer m = p) (L a)) = filter (\<lambda>m. m_Peer m = p) (L a)"
      using nm True unfolding filter_filter by (intro filter_cong) auto
    moreover obtain m where "filter (\<lambda>m. m_Peer m = p) (L a) = [m]" using len(1) by (auto simp: length_Suc_conv)
    moreover from this have "m \<in> set (filter (\<lambda>m. m_Peer m = p) (L a))" by simp
    then have "m_Peer m = p" by simp
    ultimately show ?thesis by (simp split: if_splits)
  next
    case False
    then have n: "n \<in> set names" using Cons.prems(4) by simp
    have "filter (\<lambda>m. m_Name m = n) (filter (\<lambda>m. m_Peer m = p) (L a)) = []"
      using nm False by (auto simp: filter_empty_conv)
    with Cons.IH [OF _ _ len(2) n] Cons.prems(1,2) show ?thesis by simp
  qed
qed simp

lemma peer_count:
  assumes "\<And>n. n \<in> set names \<Longrightarrow> one_per_peer n (L n)" "\<forall>n \<in> set names. p \<in> m_Peer ` set (L n)"
  shows "length (filter (\<lambda>m. m_Peer m = p) (concat (map L names))) = length names"
  using assms
proof (induction names)
  case (Cons a names)
  have "filter (\<lambda>m. m_Peer m = p) (L a) \<noteq> []" using Cons.prems(2) by (auto simp: filter_empty_conv)
  then have "length (filter (\<lambda>m. m_Peer m = p) (L a)) = 1"
    using one_per_peer_filter [of a "L a" p] Cons.prems(1) by (simp add: le_Suc_eq)
  with Cons show ?case by simp
qed simp

lemma map_peer_filter:
  "(\<And>p l. (p, l) \<in> set xs \<Longrightarrow> \<exists>m. filter P l = [m] \<and> m_Peer m = p) \<Longrightarrow>
     map m_Peer (filter P (concat (map snd xs))) = map fst xs"
proof (induction xs)
  case (Cons x xs)
  obtain p l where x: "x = (p, l)" by fastforce
  with Cons.prems obtain m where "filter P l = [m]" "m_Peer m = p" by (metis list.set_intros(1))
  with Cons x show ?case by simp
qed simp

lemma fill_complete:
  assumes one: "\<And>n. n \<in> set names \<Longrightarrow> one_per_peer n (L n)" and names: "distinct names" "names \<noteq> []"
    and fill: "fillMetricsSet (length names) (by_peer (filter (\<lambda>m. K (m_Peer m)) (concat (map L names)))) = (S, peers)"
  shows "complete_set names (set peers) S" "distinct peers"
    "set peers = {p. K p \<and> (\<forall>n \<in> set names. p \<in> m_Peer ` set (L n))}"
proof -
  let ?ms = "concat (map L names)"
  let ?pm = "by_peer (filter (\<lambda>m. K (m_Peer m)) ?ms)"
  let ?incl = "filter (\<lambda>(p, l). length l = length names) ?pm"
  have S: "S = foldl add_metric [] (concat (map snd ?incl))" and peers: "peers = map fst ?incl"
    using fill by (simp_all add: fillMetricsSet_eq)
  have incl: "K p \<and> l = filter (\<lambda>m. m_Peer m = p) ?ms \<and> length l = length names \<and> l \<noteq> []" if "(p, l) \<in> set ?incl" for p l
  proof -
    from that have l: "map_of ?pm p = Some l" "length l = length names" by (auto simp: map_of_in_set wf_by_peer)
    from l(1) have l': "l = filter (\<lambda>m. m_Peer m = p) (filter (\<lambda>m. K (m_Peer m)) ?ms)" "l \<noteq> []"
      unfolding by_peer_lookup by (simp_all split: if_splits)
    from l'(2) obtain m where "m \<in> set l" by (cases l) auto
    then have "K p" unfolding l'(1) by auto
    moreover have "filter (\<lambda>m. m_Peer m = p) (filter (\<lambda>m. K (m_Peer m)) ?ms) = filter (\<lambda>m. m_Peer m = p) ?ms"
      unfolding filter_filter using \<open>K p\<close> by (intro filter_cong) auto
    ultimately show ?thesis using l(2) l' by simp
  qed
  have get: "map m_Peer (map_get [] S n) = peers" if "n \<in> set names" for n
  proof -
    have "map_get [] S n = filter (\<lambda>m. m_Name m = n) (concat (map snd ?incl))"
      unfolding S add_metrics_get by (simp add: map_get_def)
    moreover have "map m_Peer (filter (\<lambda>m. m_Name m = n) (concat (map snd ?incl))) = map fst ?incl"
      by (rule map_peer_filter) (use one_of_each [OF one names(1) _ that] incl in metis)
    ultimately show ?thesis by (simp add: peers)
  qed
  show dist: "distinct peers"
    unfolding peers using wf_by_peer [unfolded wf_map_def] by (rule distinct_map_filter)
  show chr: "set peers = {p. K p \<and> (\<forall>n \<in> set names. p \<in> m_Peer ` set (L n))}"
  proof (intro equalityI subsetI)
    fix p assume "p \<in> set peers"
    then obtain l where l: "(p, l) \<in> set ?incl" by (auto simp: peers)
    have "p \<in> m_Peer ` set (L n)" if n: "n \<in> set names" for n
    proof -
      obtain m where m: "filter (\<lambda>m. m_Name m = n) (filter (\<lambda>m. m_Peer m = p) ?ms) = [m]" "m_Peer m = p"
        using one_of_each [OF one names(1) _ n, of p] incl [OF l] by metis
      then have "m \<in> set (filter (\<lambda>m. m_Name m = n) (filter (\<lambda>m. m_Peer m = p) ?ms))" by simp
      then obtain x where x: "x \<in> set names" "m \<in> set (L x)" "m_Name m = n" by auto
      with one [of x] have "x = n" by (auto simp: one_per_peer_def list_all_iff)
      with x m(2) show ?thesis by auto
    qed
    then show "p \<in> {p. K p \<and> (\<forall>n \<in> set names. p \<in> m_Peer ` set (L n))}" using incl [OF l] by simp
  next
    fix p assume p: "p \<in> {p. K p \<and> (\<forall>n \<in> set names. p \<in> m_Peer ` set (L n))}"
    have "filter (\<lambda>m. m_Peer m = p) (filter (\<lambda>m. K (m_Peer m)) ?ms) = filter (\<lambda>m. m_Peer m = p) ?ms"
      unfolding filter_filter using p by (intro filter_cong) auto
    moreover have "length (filter (\<lambda>m. m_Peer m = p) ?ms) = length names" using p by (intro peer_count one) auto
    ultimately have "map_of ?pm p = Some (filter (\<lambda>m. m_Peer m = p) ?ms)" using names(2) by (auto simp: by_peer_lookup)
    then have "(p, filter (\<lambda>m. m_Peer m = p) ?ms) \<in> set ?incl"
      using peer_count [OF one, of names p] p by (simp add: map_of_in_set wf_by_peer)
    then show "p \<in> set peers" by (force simp: peers)
  qed
  obtain n where n: "n \<in> set names" using names(2) by (cases names) auto
  have "[] \<notin> m_Peer ` set (L n)" using one [OF n] by (force simp: one_per_peer_def list_all_iff)
  then have "[] \<notin> set peers" using chr n by blast
  moreover have "wf_map S" unfolding S by (rule wf_add_metrics) simp
  ultimately show "complete_set names (set peers) S"
    using names get dist by (simp add: complete_set_def list_all_iff) (metis set_map get)
qed

definition metrics_of :: "string list \<Rightarrow> (string \<Rightarrow> Metric list) \<Rightarrow> MetricsSet" where
  "metrics_of names L = map (\<lambda>n. (n, L n)) names"

lemma metrics_of_fold:
  "distinct names \<Longrightarrow> foldl (\<lambda>s n. map_put n (L n) s) [] names = metrics_of names L"
proof (induction names rule: rev_induct)
  case Nil
  then show ?case by (simp add: metrics_of_def)
next
  case (snoc n names)
  then have "n \<notin> fst ` set (metrics_of names L)" by (force simp: metrics_of_def)
  with snoc show ?case by (simp add: map_put_fresh) (simp add: metrics_of_def)
qed

text \<open>The peers that may hold a pin: those with all the metrics that are not ruled out.\<close>

definition eligible ::
  "alloc_config \<Rightarrow> string list \<Rightarrow> (string \<Rightarrow> Metric list) \<Rightarrow> peer_id list \<Rightarrow> peer_id set" where
  "eligible cfg names L blacklist =
     {p. peer_class cfg [] [] blacklist p \<noteq> Dropped \<and> (\<forall>n \<in> set names. p \<in> m_Peer ` set (L n))}"

lemma peer_class_cases:
  "peer_class cfg cur prio black p = CurrentPeer \<longleftrightarrow> peer_class cfg [] [] black p \<noteq> Dropped \<and> p \<in> set cur"
  "peer_class cfg cur prio black p = PriorityPeer \<longleftrightarrow>
     peer_class cfg [] [] black p \<noteq> Dropped \<and> p \<notin> set cur \<and> p \<in> set prio"
  "peer_class cfg cur prio black p = CandidatePeer \<longleftrightarrow>
     peer_class cfg [] [] black p \<noteq> Dropped \<and> p \<notin> set cur \<and> p \<notin> set prio"
  by (auto simp: peer_class_def)

lemma filterMetrics_spec:
  fixes cfg cur prio black
  assumes one: "\<forall>n \<in> set names. one_per_peer n (L n)" and names: "distinct names" "names \<noteq> []"
  defines "cm \<equiv> filterMetrics cfg (metrics_of names L) (length names) cur prio black"
    and "E \<equiv> eligible cfg names L black"
  shows "set (cm_currentPeers cm) = E \<inter> set cur" "set (cm_priorityPeers cm) = E \<inter> set prio - set cur"
    "set (cm_candidatePeers cm) = E - set cur - set prio"
    "distinct (cm_currentPeers cm)" "distinct (cm_priorityPeers cm)" "distinct (cm_candidatePeers cm)"
    "complete_set names (set (cm_priorityPeers cm)) (cm_priority cm)"
    "complete_set names (set (cm_candidatePeers cm)) (cm_candidate cm)"
proof -
  let ?fill = "\<lambda>k. fillMetricsSet (length names)
     (by_peer (filter (\<lambda>m. peer_class cfg cur prio black (m_Peer m) = k) (concat (map L names))))"
  have cm: "cm = \<lparr>cm_current = fst (?fill CurrentPeer), cm_currentPeers = snd (?fill CurrentPeer),
      cm_candidate = fst (?fill CandidatePeer), cm_candidatePeers = snd (?fill CandidatePeer),
      cm_priority = fst (?fill PriorityPeer), cm_priorityPeers = snd (?fill PriorityPeer)\<rparr>"
    unfolding cm_def filterMetrics_def foldl_concat filterMetrics_maps
    by (simp add: metrics_of_def comp_def case_prod_unfold Let_def)
  have fill: "complete_set names (set (snd (?fill k))) (fst (?fill k))" "distinct (snd (?fill k))"
    "set (snd (?fill k)) = {p. peer_class cfg cur prio black p = k \<and> (\<forall>n \<in> set names. p \<in> m_Peer ` set (L n))}" for k
    by (rule fill_complete [where K = "\<lambda>p. peer_class cfg cur prio black p = k",
          OF one [rule_format] names prod.collapse [symmetric]]; assumption)+
  show "set (cm_currentPeers cm) = E \<inter> set cur" "set (cm_priorityPeers cm) = E \<inter> set prio - set cur"
    "set (cm_candidatePeers cm) = E - set cur - set prio"
    by (simp_all add: cm fill(3)) (auto simp: peer_class_cases E_def eligible_def)
  show "distinct (cm_currentPeers cm)" "distinct (cm_priorityPeers cm)" "distinct (cm_candidatePeers cm)"
    "complete_set names (set (cm_priorityPeers cm)) (cm_priority cm)"
    "complete_set names (set (cm_candidatePeers cm)) (cm_candidate cm)"
    by (simp_all add: cm fill(1,2))
qed

section \<open>The interfaces\<close>

text \<open>
  An allocator with configuration \<open>c\<close>: given complete sets of metrics, it returns all the priority peers
  followed by all the candidates, in an order of its choice.
\<close>

locale pin_allocator =
  fixes valid :: "'c \<Rightarrow> bool"
    and metric_names :: "'c \<Rightarrow> string list"
    and order_peers :: "'c \<Rightarrow> allocator_fn"
  assumes names: "valid c \<Longrightarrow> distinct (metric_names c) \<and> metric_names c \<noteq> []"
    and order: "valid c \<Longrightarrow> complete_set (metric_names c) Pc cand \<Longrightarrow> complete_set (metric_names c) Pp prio \<Longrightarrow>
      \<exists>first last. order_peers c cur cand prio = Inr (first @ last) \<and>
        distinct first \<and> set first = Pp \<and> distinct last \<and> set last = Pc"
begin

text \<open>\<open>obtainAllocations\<close> on classified metrics.\<close>

lemma obtain_ok:
  fixes cm
  assumes c: "valid c" and r: "0 < rmin" "rmin \<le> rmax"
    and cand: "complete_set (metric_names c) (set (cm_candidatePeers cm)) (cm_candidate cm)"
    and prio: "complete_set (metric_names c) (set (cm_priorityPeers cm)) (cm_priority cm)"
    and dist: "distinct (cm_currentPeers cm @ cm_priorityPeers cm @ cm_candidatePeers cm)"
  defines "all \<equiv> cm_currentPeers cm @ cm_priorityPeers cm @ cm_candidatePeers cm"
    and "n \<equiv> int (length (cm_currentPeers cm))"
  shows "case obtainAllocations (order_peers c) rmin rmax cm of
      Inl e \<Rightarrow> int (length all) < rmin
    | Inr None \<Rightarrow> rmin \<le> n \<and> n \<le> rmax
    | Inr (Some as) \<Rightarrow> (n < rmin \<or> rmax < n) \<and> distinct as \<and> set as \<subseteq> set all \<and>
        int (length as) = min rmax (int (length all)) \<and> rmin \<le> int (length as) \<and>
        (n < rmin \<longrightarrow> set (cm_currentPeers cm) \<subseteq> set as) \<and>
        (set as \<inter> set (cm_candidatePeers cm) \<noteq> {} \<longrightarrow> set (cm_priorityPeers cm) \<subseteq> set as)"
proof -
  obtain first last where o: "order_peers c (cm_current cm) (cm_candidate cm) (cm_priority cm) = Inr (first @ last)"
      "distinct first" "set first = set (cm_priorityPeers cm)" "distinct last" "set last = set (cm_candidatePeers cm)"
    using order [OF c cand prio] by blast
  have len: "length first = length (cm_priorityPeers cm)" "length last = length (cm_candidatePeers cm)"
    using o dist by (metis distinct_append distinct_card)+
  consider (drop) "rmax < n" | (keep) "rmin \<le> n" "n \<le> rmax" | (few) "n < rmin" "int (length all) < rmin"
    | (new) "n < rmin" "rmin \<le> int (length all)" by linarith
  then show ?thesis
  proof cases
    case drop
    then have "obtainAllocations (order_peers c) rmin rmax cm = Inr (Some (take (nat rmax) (cm_currentPeers cm)))"
      by (simp add: obtainAllocations_def Let_def n_def)
    moreover have "set (take (nat rmax) (cm_currentPeers cm)) \<inter> set (cm_candidatePeers cm) = {}"
      using dist set_take_subset [of "nat rmax" "cm_currentPeers cm"] by auto
    ultimately show ?thesis
      using drop dist r set_take_subset [of "nat rmax" "cm_currentPeers cm"] by (auto simp: all_def n_def min_def)
  next
    case keep
    then show ?thesis by (simp add: obtainAllocations_def Let_def n_def)
  next
    case few
    then show ?thesis using r by (simp add: obtainAllocations_def Let_def n_def all_def)
  next
    case new
    let ?k = "nat (minInt (rmax - n) (int (length (first @ last))))"
    have k: "int ?k = min (rmax - n) (int (length first + length last))" using r new(1) by (simp add: minInt_def)
    have res: "obtainAllocations (order_peers c) rmin rmax cm = Inr (Some (cm_currentPeers cm @ take ?k (first @ last)))"
      using new r o(1) len by (simp add: obtainAllocations_def Let_def n_def all_def)
    have sub: "set (take ?k (first @ last)) \<subseteq> set first \<union> set last"
      using set_take_subset [of ?k "first @ last"] by simp
    have "distinct (first @ last)" using o dist by simp
    then have d: "distinct (cm_currentPeers cm @ take ?k (first @ last))"
      using dist sub o by (auto simp del: take_append)
    have pr: "set (cm_priorityPeers cm) \<subseteq> set (take ?k (first @ last))"
      if "set (take ?k (first @ last)) \<inter> set (cm_candidatePeers cm) \<noteq> {}"
    proof (cases "length first \<le> ?k")
      case True
      with o show ?thesis by auto
    next
      case False
      then have "set (take ?k (first @ last)) \<subseteq> set first" using set_take_subset [of ?k first] by simp
      with that o dist show ?thesis by auto
    qed
    have "?k \<le> length (first @ last)" using k unfolding length_append by linarith
    then have "length (take ?k (first @ last)) = ?k" by (simp only: length_take min.absorb2)
    then have L: "int (length (cm_currentPeers cm @ take ?k (first @ last))) = min rmax (int (length all))"
      using k len unfolding length_append all_def n_def of_nat_add by linarith
    show ?thesis unfolding res using new d sub pr L o r dist
      by (auto simp: all_def simp del: take_append)
  qed
qed

end

text \<open>A monitor in a state \<open>s\<close> that satisfies its invariant returns one metric per peer.\<close>

locale peer_monitor =
  fixes monitor_inv :: "'s \<Rightarrow> bool"
    and latest :: "gotime \<Rightarrow> 's \<Rightarrow> string \<Rightarrow> Metric list"
  assumes latest_one: "monitor_inv s \<Longrightarrow> one_per_peer n (latest now s n)"

text \<open>
  What \<open>allocate\<close> promises: \<open>E\<close> are the eligible peers and \<open>cur\<close> the current allocations. It fails
  exactly when there are fewer eligible peers than the minimum. If the eligible current allocations
  are within the bounds, the allocations stay as they are. Otherwise the result has no duplicates and
  only eligible peers, as many as there are up to the maximum; it keeps the eligible current
  allocations when there are too few, and takes a peer that is neither current nor preferred only
  after all the preferred ones.
\<close>

definition allocation_ok ::
  "peer_id set \<Rightarrow> peer_id list \<Rightarrow> peer_id list \<Rightarrow> int \<Rightarrow> int \<Rightarrow> alloc_error + peer_id list \<Rightarrow> bool" where
  "allocation_ok E cur prio rmin rmax res =
     (let k = int (card (E \<inter> set cur)) in
      case res of
        Inl e \<Rightarrow> int (card E) < rmin
      | Inr as \<Rightarrow> rmin \<le> int (card E) \<and>
          (if rmin \<le> k \<and> k \<le> rmax then as = cur
           else distinct as \<and> set as \<subseteq> E \<and> int (length as) = min rmax (int (card E)) \<and>
                (k < rmin \<longrightarrow> E \<inter> set cur \<subseteq> set as) \<and>
                (\<not> set as \<subseteq> set cur \<union> set prio \<longrightarrow> E \<inter> set prio \<subseteq> set as \<union> set cur)))"

locale allocation = pin_allocator valid metric_names order_peers + peer_monitor monitor_inv latest
  for valid :: "'c \<Rightarrow> bool" and metric_names and order_peers and monitor_inv :: "'s \<Rightarrow> bool" and latest
begin

lemma allocate_correct:
  fixes cfg black prio now pin
  assumes c: "valid c" and s: "monitor_inv s" and r: "0 < rmin" "rmin \<le> rmax"
  defines "cur \<equiv> (if Pin_Defined pin then pin_Allocations pin else [])"
    and "E \<equiv> eligible cfg (metric_names c) (latest now s) black"
  shows "allocation_ok E cur prio rmin rmax
    (allocate cfg (order_peers c) (metric_names c) (latest now s) pin rmin rmax black prio)"
proof -
  let ?names = "metric_names c" and ?L = "latest now s"
  have nm: "distinct ?names" "?names \<noteq> []" using names [OF c] by simp_all
  define cm where "cm = filterMetrics cfg (metrics_of ?names ?L) (length ?names) cur prio black"
  have one: "\<forall>n \<in> set ?names. one_per_peer n (?L n)" using latest_one [OF s] by blast
  note spec = filterMetrics_spec [OF one nm, where cfg = cfg and cur = cur and prio = prio and black = black,
      folded cm_def E_def]
  let ?all = "cm_currentPeers cm @ cm_priorityPeers cm @ cm_candidatePeers cm"
  have dist: "distinct ?all" using spec(1-6) by auto
  have all: "set ?all = E" using spec(1-3) by auto
  have cards: "card E = length ?all" "card (E \<inter> set cur) = length (cm_currentPeers cm)"
    using distinct_card [OF dist] distinct_card [OF spec(4)] unfolding all spec(1) by simp_all
  note ok = obtain_ok [OF c r spec(8) spec(7) dist, folded cards, unfolded all]
  have alloc: "allocate cfg (order_peers c) ?names ?L pin rmin rmax black prio =
      (case obtainAllocations (order_peers c) rmin rmax cm of
         Inl err \<Rightarrow> Inl err | Inr None \<Rightarrow> Inr cur | Inr (Some newAllocs) \<Rightarrow> Inr newAllocs)"
    using r unfolding allocate_def metrics_of_fold [OF nm(1)] cm_def cur_def Let_def by simp
  have le: "card (E \<inter> set cur) \<le> card E" by (rule card_mono) (use all in \<open>auto simp flip: all\<close>)
  show ?thesis
  proof (cases "obtainAllocations (order_peers c) rmin rmax cm")
    case (Inl e)
    then show ?thesis using ok unfolding alloc by (simp add: allocation_ok_def Let_def)
  next
    case (Inr x)
    show ?thesis
    proof (cases x)
      case None
      then show ?thesis using ok Inr le unfolding alloc by (simp add: allocation_ok_def Let_def)
    next
      case (Some as)
      have "E \<inter> set prio \<subseteq> set as \<union> set cur" if "\<not> set as \<subseteq> set cur \<union> set prio"
      proof -
        have "set as \<subseteq> E" "set as \<inter> set (cm_candidatePeers cm) \<noteq> {} \<longrightarrow> set (cm_priorityPeers cm) \<subseteq> set as"
          using ok unfolding Inr Some by simp_all
        with that spec(2,3) show ?thesis by blast
      qed
      then show ?thesis using ok Inr Some spec(1) unfolding alloc by (auto simp: allocation_ok_def Let_def)
    qed
  qed
qed

end

end
