(* ===== verification/Balanced_Allocator.thy ===== *)
theory Balanced_Allocator
  imports Allocation
begin

text \<open>
  \<open>allocator/balanced\<close>: orders candidate peers by partitioning them along a list of metrics and
  choosing from the partitions in turn. Partitions and partitioned metrics form a tree. The methods
  mutate it through pointers that are never shared, so the model returns the updated tree.
\<close>

section \<open>Partitions\<close>

datatype partitionedMetric =
  PartitionedMetric (pm_metricName: string) (pm_curChoosingIndex: nat) (pm_noMore: bool)
    (pm_partitions: "partition list")
and partition =
  Partition (pt_value: string) (pt_weight: int) (pt_aggregatedWeight: int)
    (pt_peers: "(peer_id, bool) gomap") (pt_sub: "partitionedMetric option")

text \<open>
  \<open>partitionValues\<close>: one partition per metric, except that partitionable metrics with the same value
  share one. The partitions of the map follow the others, in the order the map is visited.
\<close>

fun partitionValues_loop ::
  "Metric list \<Rightarrow> partition list \<Rightarrow> (string, partition) gomap \<Rightarrow> partition list \<times> (string, partition) gomap" where
  "partitionValues_loop [] parts byValue = (parts, byValue)"
| "partitionValues_loop (m # ms) parts byValue =
     (if \<not> m_Partitionable m
      then partitionValues_loop ms
             (parts @ [Partition (m_Value m) (m_Weight m) (m_Weight m) [(m_Peer m, False)] None]) byValue
      else case map_of byValue (m_Value m) of
             Some p \<Rightarrow>
               partitionValues_loop ms parts
                 (map_put (m_Value m)
                    (Partition (pt_value p) (wrap_int64 (pt_weight p + m_Weight m))
                       (wrap_int64 (pt_aggregatedWeight p + m_Weight m))
                       (map_put (m_Peer m) False (pt_peers p)) (pt_sub p)) byValue)
           | None \<Rightarrow>
               partitionValues_loop ms parts
                 (map_put (m_Value m)
                    (Partition (m_Value m) (m_Weight m) (m_Weight m) [(m_Peer m, False)] None) byValue))"

definition partitionValues :: "Metric list \<Rightarrow> partition list" where
  "partitionValues metrics =
     (case partitionValues_loop metrics [] [] of (parts, byValue) \<Rightarrow> parts @ map snd byValue)"

definition lessF :: "partition \<Rightarrow> partition \<Rightarrow> bool" where
  "lessF pi pj =
     (if pt_weight pi = pt_weight pj
      then if pt_aggregatedWeight pi = pt_aggregatedWeight pj
           then pt_value pi < pt_value pj
           else pt_aggregatedWeight pj < pt_aggregatedWeight pi
      else pt_weight pj < pt_weight pi)"

text \<open>The metrics of the other kinds, for the peers of a partition.\<close>

definition filteredSet :: "string \<Rightarrow> partition \<Rightarrow> MetricsSet \<Rightarrow> MetricsSet" where
  "filteredSet rootMetric p st =
     filter (\<lambda>(k, v). v \<noteq> [])
       (map (\<lambda>(k, v). (k, filter (\<lambda>m. map_has (pt_peers p) (m_Peer m)) v))
         (filter (\<lambda>(k, v). k \<noteq> rootMetric) st))"

text \<open>
  \<open>partitionMetrics\<close>. The list \<open>by\<close> is not empty (\<open>Config.Validate\<close> rejects an empty
  \<open>allocate_by\<close>, and \<open>by[0]\<close> would panic); the first equation is for that case.
\<close>

fun partitionMetrics :: "MetricsSet \<Rightarrow> string list \<Rightarrow> partitionedMetric" where
  "partitionMetrics st [] = PartitionedMetric [] 0 False []"
| "partitionMetrics st [rootMetric] =
     PartitionedMetric rootMetric 0 False (sort_slice lessF (partitionValues (map_get [] st rootMetric)))"
| "partitionMetrics st (rootMetric # next # by) =
     (let parts = map (\<lambda>p.
            let sub = partitionMetrics (filteredSet rootMetric p st) (next # by)
            in Partition (pt_value p) (pt_weight p)
                 (foldl (\<lambda>a subp. wrap_int64 (a + pt_aggregatedWeight subp)) (pt_aggregatedWeight p) (pm_partitions sub))
                 (pt_peers p) (Some sub))
            (partitionValues (map_get [] st rootMetric))
      in PartitionedMetric rootMetric 0 False (sort_slice lessF parts))"

section \<open>Choosing peers\<close>

text \<open>
  \<open>chooseNext\<close>. The loop visits each partition at most once per call, so what a partition yields
  does not depend on the ones visited before it: \<open>results\<close> holds for each partition the peer it
  would yield and the partition after that, and the loop takes over the results of the partitions
  it visits. The index is always in range; the test stands for Go's bounds check.
\<close>

fun chooseNext_loop ::
  "nat \<Rightarrow> (peer_id \<times> partition) list \<Rightarrow> nat \<Rightarrow> partition list \<Rightarrow> peer_id \<times> nat \<times> bool \<times> partition list" where
  "chooseNext_loop 0 results i parts = ([], i, True, parts)"
| "chooseNext_loop (Suc k) results i parts =
     (if i < length results
      then let (peer, p') = results ! i; parts' = parts[i := p']; i' = (i + 1) mod length results
           in if peer \<noteq> [] then (peer, i', False, parts') else chooseNext_loop k results i' parts'
      else ([], i, True, parts))"

fun choose_unused :: "(peer_id, bool) gomap \<Rightarrow> peer_id \<times> (peer_id, bool) gomap" where
  "choose_unused [] = ([], [])"
| "choose_unused ((pid, used) # ps) =
     (if \<not> used then (pid, (pid, True) # ps)
      else case choose_unused ps of (p, ps') \<Rightarrow> (p, (pid, used) # ps'))"

fun chooseNext :: "partitionedMetric \<Rightarrow> peer_id \<times> partitionedMetric"
  and choosePartition :: "partition \<Rightarrow> peer_id \<times> partition" where
  "chooseNext (PartitionedMetric name i noMore parts) =
     (if parts = [] then ([], PartitionedMetric name i noMore parts)
      else if noMore then ([], PartitionedMetric name i noMore parts)
      else case chooseNext_loop (length parts) (map choosePartition parts) i parts of
             (peer, i', noMore', parts') \<Rightarrow> (peer, PartitionedMetric name i' noMore' parts'))"
| "choosePartition (Partition v w a peers (Some sub)) =
     (case chooseNext sub of (peer, sub') \<Rightarrow> (peer, Partition v w a peers (Some sub')))"
| "choosePartition (Partition v w a peers None) =
     (case choose_unused peers of (peer, peers') \<Rightarrow> (peer, Partition v w a peers' None))"

text \<open>The peers not yet picked. An empty ID is not a peer: \<open>chooseNext\<close> uses it to say that there is none.\<close>

definition unused_peers :: "(peer_id, bool) gomap \<Rightarrow> peer_id list" where
  "unused_peers peers = map fst (filter (\<lambda>(p, used). \<not> used \<and> p \<noteq> []) peers)"

fun unused :: "partitionedMetric \<Rightarrow> peer_id list"
  and unusedPartition :: "partition \<Rightarrow> peer_id list" where
  "unused (PartitionedMetric name i noMore parts) = concat (map unusedPartition parts)"
| "unusedPartition (Partition v w a peers (Some sub)) = unused sub"
| "unusedPartition (Partition v w a peers None) = unused_peers peers"

lemma mod_add_neq: "i < n \<Longrightarrow> 0 < j \<Longrightarrow> j < n \<Longrightarrow> (i + j) mod n \<noteq> (i :: nat)"
  by (cases "i + j < n") (auto simp: mod_if)

lemma mset_concat_update:
  assumes "x < length ps"
  shows "mset (concat (map u (ps[x := q]))) + mset (u (ps ! x)) = mset (concat (map u ps)) + mset (u q)"
  using assms
proof (induction ps arbitrary: x)
  case (Cons p ps)
  then show ?case by (cases x) (auto simp: ac_simps)
qed simp

text \<open>
  One round of the loop over partitions \<open>orig\<close>, starting at \<open>i\<close> with the partitions \<open>i\<close>, \<open>i+1\<close>,
  ..., \<open>i+k-1\<close> (modulo their number) not yet visited: the first of them that yields a peer is
  chosen, and exactly that peer stops being unused.
\<close>

definition yields :: "('a \<Rightarrow> peer_id list) \<Rightarrow> ('a \<Rightarrow> peer_id \<times> 'a) \<Rightarrow> 'a \<Rightarrow> bool" where
  "yields u f q \<longleftrightarrow>
     (fst (f q) \<noteq> [] \<longrightarrow> mset (u q) = add_mset (fst (f q)) (mset (u (snd (f q))))) \<and>
     (fst (f q) = [] \<longrightarrow> mset (u (snd (f q))) = mset (u q))"

definition unvisited :: "partition list \<Rightarrow> partition list \<Rightarrow> nat \<Rightarrow> nat \<Rightarrow> bool" where
  "unvisited orig parts i k \<longleftrightarrow>
     length parts = length orig \<and> k \<le> length orig \<and> (orig \<noteq> [] \<longrightarrow> i < length orig) \<and>
     (\<forall>j < k. parts ! ((i + j) mod length orig) = orig ! ((i + j) mod length orig))"

lemma unvisited_step:
  assumes "unvisited orig parts i (Suc k)"
  shows "i < length orig" "parts ! i = orig ! i"
    "unvisited orig (parts[i := q]) (Suc i mod length orig) k"
proof -
  have n: "Suc k \<le> length orig" "length parts = length orig" "orig \<noteq> []" using assms by (auto simp: unvisited_def)
  then show i: "i < length orig" using assms by (simp add: unvisited_def)
  then show "parts ! i = orig ! i" using assms by (auto simp: unvisited_def)
  have "(Suc i mod length orig + j) mod length orig = (i + Suc j) mod length orig" for j
    by (simp add: mod_add_left_eq)
  moreover have "i \<noteq> (i + Suc j) mod length orig" if "j < k" for j
    using that n i mod_add_neq [of i "length orig" "Suc j"] by simp
  moreover have "parts ! ((i + Suc j) mod length orig) = orig ! ((i + Suc j) mod length orig)" if "j < k" for j
    using that assms unfolding unvisited_def by (metis Suc_mono)
  ultimately show "unvisited orig (parts[i := q]) (Suc i mod length orig) k"
    using n i by (auto simp: unvisited_def)
qed

lemma chooseNext_loop_yields:
  assumes "unvisited orig parts i k" "\<forall>q \<in> set orig. yields u f q"
    and "chooseNext_loop k (map f orig) i parts = (peer, i', nm, parts')"
  shows "length parts' = length orig \<and> (orig \<noteq> [] \<longrightarrow> i' < length orig) \<and>
    (peer \<noteq> [] \<longrightarrow> mset (concat (map u parts)) = add_mset peer (mset (concat (map u parts')))) \<and>
    (peer = [] \<longrightarrow> mset (concat (map u parts')) = mset (concat (map u parts)))"
  using assms
proof (induction k arbitrary: i parts)
  case 0
  then show ?case by (auto simp: unvisited_def)
next
  case (Suc k)
  note step = unvisited_step [OF Suc.prems(1)]
  obtain p q where pq: "f (orig ! i) = (p, q)" by fastforce
  have y: "yields u f (orig ! i)" using Suc.prems(2) step(1) by simp
  have len: "i < length parts" using step(1) Suc.prems(1) by (simp add: unvisited_def)
  note upd = mset_concat_update [OF len, of u q]
  show ?case
  proof (cases "p = []")
    case True
    then have "chooseNext_loop k (map f orig) (Suc i mod length orig) (parts[i := q]) = (peer, i', nm, parts')"
      using Suc.prems(3) step(1) pq by simp
    note ih = Suc.IH [OF step(3) Suc.prems(2) this]
    have "mset (concat (map u (parts[i := q]))) = mset (concat (map u parts))"
      using upd y True pq step(2) by (simp add: yields_def)
    with ih show ?thesis by simp
  next
    case False
    then have "peer = p" "parts' = parts[i := q]" "i' = Suc i mod length orig"
      using Suc.prems(3) step(1) pq by auto
    with upd y False pq step len show ?thesis
      by (auto simp: yields_def) (simp add: unvisited_def)
  qed
qed

lemma choose_unused_yields: "yields unused_peers choose_unused ps"
  by (induction ps rule: choose_unused.induct) (auto simp: yields_def unused_peers_def split: prod.splits if_splits)

lemma yields_chooseNext:
  "yields unused chooseNext m" and yields_choosePartition: "yields unusedPartition choosePartition p"
proof (induction m and p rule: chooseNext_choosePartition.induct)
  case (1 name i noMore parts)
  show ?case
  proof (cases "parts = [] \<or> noMore \<or> \<not> i < length parts")
    case True
    then show ?thesis by (cases parts) (auto simp: yields_def)
  next
    case False
    obtain peer i' nm parts' where res: "chooseNext_loop (length parts) (map choosePartition parts) i parts = (peer, i', nm, parts')"
      by (metis prod_cases4)
    have "unvisited parts parts i (length parts)" using False by (simp add: unvisited_def)
    from chooseNext_loop_yields [OF this _ res, of unusedPartition] 1 False res show ?thesis
      by (auto simp: yields_def)
  qed
next
  case (2 v w a peers sub)
  then show ?case by (auto simp: yields_def split: prod.splits)
next
  case (3 v w a peers)
  show ?case using choose_unused_yields [of peers] by (auto simp: yields_def split: prod.splits)
qed

function sortedPeers :: "partitionedMetric \<Rightarrow> peer_id list" where
  "sortedPeers m = (case chooseNext m of (peer, m') \<Rightarrow> if peer = [] then [] else peer # sortedPeers m')"
  by pat_completeness auto
termination
proof (relation "measure (\<lambda>m. length (unused m))")
  fix m peer m' assume nxt: "(peer, m') = chooseNext m" and "peer \<noteq> []"
  then have "mset (unused m) = add_mset peer (mset (unused m'))"
    using yields_chooseNext [of m] by (simp add: yields_def flip: nxt)
  then have "size (mset (unused m)) = Suc (size (mset (unused m')))" by simp
  then show "(m', m) \<in> measure (\<lambda>m. length (unused m))" by simp
qed simp

declare sortedPeers.simps [simp del]

section \<open>What choosing yields\<close>

text \<open>
  A well-formed tree: indices in range, no empty peer ID, and a metric marked as exhausted has no
  peer left.
\<close>

fun wf_pm :: "partitionedMetric \<Rightarrow> bool"
  and wf_pt :: "partition \<Rightarrow> bool" where
  "wf_pm (PartitionedMetric name i noMore parts) \<longleftrightarrow>
     (parts \<noteq> [] \<longrightarrow> i < length parts) \<and>
     (noMore \<longrightarrow> list_all (\<lambda>p. unusedPartition p = []) parts) \<and> list_all wf_pt parts"
| "wf_pt (Partition v w a peers (Some sub)) \<longleftrightarrow> wf_pm sub"
| "wf_pt (Partition v w a peers None) \<longleftrightarrow> list_all (\<lambda>(p, used). p \<noteq> []) peers"

lemma chooseNext_loop_done:
  assumes "unvisited orig parts i k"
    and "\<forall>q \<in> set orig. W (snd (f q)) \<and> (fst (f q) = [] \<longrightarrow> u (snd (f q)) = [])"
    and "\<forall>q \<in> set parts. W q"
    and "\<forall>x < length orig. (\<forall>j < k. x \<noteq> (i + j) mod length orig) \<longrightarrow> u (parts ! x) = []"
    and "chooseNext_loop k (map f orig) i parts = (peer, i', nm, parts')"
  shows "(\<forall>q \<in> set parts'. W q) \<and> (peer = [] \<or> nm \<longrightarrow> (\<forall>q \<in> set parts'. u q = [])) \<and> (nm \<longleftrightarrow> peer = [])"
  using assms
proof (induction k arbitrary: i parts)
  case 0
  then show ?case by (auto simp: unvisited_def in_set_conv_nth)
next
  case (Suc k)
  note step = unvisited_step [OF Suc.prems(1)]
  obtain p q where pq: "f (orig ! i) = (p, q)" by fastforce
  have "orig ! i \<in> set orig" using step(1) by simp
  then have Wq: "W q" "p = [] \<longrightarrow> u q = []" using Suc.prems(2) pq by (metis fst_conv snd_conv)+
  have W: "\<forall>q \<in> set (parts[i := q]). W q"
    using Suc.prems(3) Wq(1) set_update_subset_insert [of parts i q] by blast
  show ?case
  proof (cases "p = []")
    case True
    have rest: "\<forall>x < length orig. (\<forall>j < k. x \<noteq> (Suc i mod length orig + j) mod length orig) \<longrightarrow>
        u ((parts[i := q]) ! x) = []"
    proof (intro allI impI)
      fix x assume x: "x < length orig" "\<forall>j < k. x \<noteq> (Suc i mod length orig + j) mod length orig"
      show "u ((parts[i := q]) ! x) = []"
      proof (cases "x = i")
        case True
        with x Wq(2) \<open>p = []\<close> Suc.prems(1) show ?thesis by (simp add: unvisited_def)
      next
        case False
        have "x \<noteq> (i + j) mod length orig" if "j < Suc k" for j
          using that x(2) False step(1) by (cases j) (auto simp: mod_add_left_eq)
        with Suc.prems(4) x(1) False show ?thesis by simp
      qed
    qed
    have "chooseNext_loop k (map f orig) (Suc i mod length orig) (parts[i := q]) = (peer, i', nm, parts')"
      using Suc.prems(5) step(1) pq True by simp
    then show ?thesis using Suc.IH [OF step(3) Suc.prems(2) W rest] by blast
  next
    case False
    then have "peer = p" "parts' = parts[i := q]" "\<not> nm" using Suc.prems(5) step(1) pq by auto
    with False W show ?thesis by auto
  qed
qed

lemma choose_unused_done:
  "list_all (\<lambda>(p, used). p \<noteq> []) ps \<Longrightarrow>
     list_all (\<lambda>(p, used). p \<noteq> []) (snd (choose_unused ps)) \<and>
     (fst (choose_unused ps) = [] \<longrightarrow> unused_peers (snd (choose_unused ps)) = [])"
  by (induction ps rule: choose_unused.induct) (auto simp: unused_peers_def split: prod.splits)

lemma mod_cover: "x < n \<Longrightarrow> i < n \<Longrightarrow> \<exists>j < n. x = (i + j) mod (n :: nat)"
proof (cases "i \<le> x")
  case True
  assume "x < n"
  with True show ?thesis by (intro exI [of _ "x - i"]) auto
next
  case False
  assume "x < n" "i < n"
  with False show ?thesis by (intro exI [of _ "x + n - i"]) auto
qed

lemma chooseNext_done:
  "wf_pm m \<Longrightarrow> wf_pm (snd (chooseNext m)) \<and> (fst (chooseNext m) = [] \<longrightarrow> unused (snd (chooseNext m)) = [])"
  and choosePartition_done:
  "wf_pt p \<Longrightarrow> wf_pt (snd (choosePartition p)) \<and>
     (fst (choosePartition p) = [] \<longrightarrow> unusedPartition (snd (choosePartition p)) = [])"
proof (induction m and p rule: chooseNext_choosePartition.induct)
  case (1 name i noMore parts)
  show ?case
  proof (cases "parts = [] \<or> noMore")
    case True
    then show ?thesis using 1(2) by (auto simp: list_all_iff)
  next
    case False
    obtain peer i' nm parts' where res: "chooseNext_loop (length parts) (map choosePartition parts) i parts = (peer, i', nm, parts')"
      by (metis prod_cases4)
    have i: "i < length parts" using 1(2) False by simp
    then have unv: "unvisited parts parts i (length parts)" using False by (simp add: unvisited_def)
    have len: "length parts' = length parts \<and> (parts \<noteq> [] \<longrightarrow> i' < length parts)"
      using chooseNext_loop_yields [OF unv _ res, of unusedPartition] yields_choosePartition by blast
    have all: "\<exists>j < length parts. x = (i + j) mod length parts" if "x < length parts" for x
      using that i by (rule mod_cover)
    have "(\<forall>q \<in> set parts'. wf_pt q) \<and> (peer = [] \<or> nm \<longrightarrow> (\<forall>q \<in> set parts'. unusedPartition q = [])) \<and> (nm \<longleftrightarrow> peer = [])"
    proof (rule chooseNext_loop_done [OF unv _ _ _ res])
      show "\<forall>q \<in> set parts. wf_pt (snd (choosePartition q)) \<and>
          (fst (choosePartition q) = [] \<longrightarrow> unusedPartition (snd (choosePartition q)) = [])"
        using 1 False by (auto simp: list_all_iff)
      show "\<forall>q \<in> set parts. wf_pt q" using 1(2) by (simp add: list_all_iff)
      show "\<forall>x<length parts. (\<forall>j<length parts. x \<noteq> (i + j) mod length parts) \<longrightarrow> unusedPartition (parts ! x) = []"
        using all by blast
    qed
    with False res len show ?thesis by (auto simp: list_all_iff)
  qed
next
  case (2 v w a peers sub)
  then show ?case by (auto split: prod.splits)
next
  case (3 v w a peers)
  then show ?case using choose_unused_done [of peers] by (auto split: prod.splits)
qed

lemma sortedPeers_mset:
  "wf_pm m \<Longrightarrow> mset (sortedPeers m) = mset (unused m)"
proof (induction m rule: sortedPeers.induct)
  case (1 m)
  obtain peer m' where nxt: "chooseNext m = (peer, m')" by fastforce
  note dn = chooseNext_done [OF 1(2)] and y = yields_chooseNext [of m]
  show ?case
  proof (cases "peer = []")
    case True
    then show ?thesis using dn y nxt by (simp add: sortedPeers.simps [of m] yields_def)
  next
    case False
    with 1 dn nxt have "mset (sortedPeers m') = mset (unused m')" by simp
    with False y nxt show ?thesis by (simp add: sortedPeers.simps [of m] yields_def)
  qed
qed

section \<open>The tree built from a set of metrics\<close>

definition pt_ids :: "partition \<Rightarrow> peer_id list" where
  "pt_ids p = map fst (pt_peers p)"

definition fresh_pt :: "partition \<Rightarrow> bool" where
  "fresh_pt p \<longleftrightarrow> pt_sub p = None \<and> pt_peers p \<noteq> [] \<and> list_all (\<lambda>(x, used). \<not> used) (pt_peers p)"

lemma mset_concat_map: "mset (concat (map u xs)) = (\<Sum>x \<in># mset xs. mset (u x))"
  by (induction xs) auto

lemma mset_concat_perm: "mset xs = mset ys \<Longrightarrow> mset (concat (map u xs)) = mset (concat (map u ys))"
  by (simp add: mset_concat_map)

lemma concat_map_put:
  "mset (concat (map (u \<circ> snd) (map_put k q m))) + (case map_of m k of Some p \<Rightarrow> mset (u p) | None \<Rightarrow> {#}) =
     mset (concat (map (u \<circ> snd) m)) + mset (u q)"
  by (induction k q m rule: map_put.induct) (auto simp: ac_simps)

lemma snd_map_put: "set (map snd (map_put k q m)) \<subseteq> insert q (set (map snd m))"
  by (induction k q m rule: map_put.induct) auto

lemma partitionValues_loop_spec:
  assumes "partitionValues_loop ms parts bv = (parts', bv')"
    and "distinct (concat (map pt_ids (parts @ map snd bv)) @ map m_Peer ms)"
    and "\<forall>p \<in> set (parts @ map snd bv). fresh_pt p"
  shows "mset (concat (map pt_ids (parts' @ map snd bv'))) =
      mset (concat (map pt_ids (parts @ map snd bv)) @ map m_Peer ms) \<and>
    (\<forall>p \<in> set (parts' @ map snd bv'). fresh_pt p)"
  using assms
proof (induction ms parts bv rule: partitionValues_loop.induct)
  case (1 parts bv)
  then show ?case by simp
next
  case (2 m ms parts bv)
  let ?new = "Partition (m_Value m) (m_Weight m) (m_Weight m) [(m_Peer m, False)] None"
  have fresh: "fresh_pt ?new" and new_ids: "pt_ids ?new = [m_Peer m]" by (simp_all add: fresh_pt_def pt_ids_def)
  consider (single) "\<not> m_Partitionable m"
    | (join) p where "m_Partitionable m" "map_of bv (m_Value m) = Some p"
    | (new) "m_Partitionable m" "map_of bv (m_Value m) = None" by (cases "map_of bv (m_Value m)") auto
  then show ?case
  proof cases
    case single
    then show ?thesis using 2(1) [OF single] 2(4-6) fresh by (auto simp: new_ids ac_simps)
  next
    case (join p)
    let ?p' = "Partition (pt_value p) (wrap_int64 (pt_weight p + m_Weight m))
       (wrap_int64 (pt_aggregatedWeight p + m_Weight m)) (map_put (m_Peer m) False (pt_peers p)) (pt_sub p)"
    have p: "p \<in> set (map snd bv)" using join(2) by (force dest: map_of_SomeD)
    then have "m_Peer m \<notin> set (pt_ids p)" using 2(5) by auto
    then have ids: "pt_ids ?p' = pt_ids p @ [m_Peer m]" "fresh_pt ?p'"
      using 2(6) p map_put_fresh [of "m_Peer m" "pt_peers p" False] by (auto simp: fresh_pt_def pt_ids_def)
    have eq: "mset (concat (map (pt_ids \<circ> snd) (map_put (m_Value m) ?p' bv))) =
        add_mset (m_Peer m) (mset (concat (map (pt_ids \<circ> snd) bv)))"
      using concat_map_put [of pt_ids "m_Value m" ?p' bv] join(2) ids(1) by simp
    have "distinct (concat (map pt_ids (parts @ map snd (map_put (m_Value m) ?p' bv))) @ map m_Peer ms)"
      using 2(5) eq by (subst mset_eq_imp_distinct_iff [of _ "concat (map pt_ids (parts @ map snd bv)) @ map m_Peer (m # ms)"])
        (simp_all add: ac_simps)
    moreover have "\<forall>q \<in> set (parts @ map snd (map_put (m_Value m) ?p' bv)). fresh_pt q"
      using 2(6) ids(2) snd_map_put [of "m_Value m" ?p' bv] unfolding set_append by blast
    ultimately show ?thesis using 2(3) [OF _ join(2)] 2(4) join eq by (simp add: ac_simps)
  next
    case new
    have eq: "mset (concat (map (pt_ids \<circ> snd) (map_put (m_Value m) ?new bv))) =
        add_mset (m_Peer m) (mset (concat (map (pt_ids \<circ> snd) bv)))"
      using concat_map_put [of pt_ids "m_Value m" ?new bv] new(2) new_ids by simp
    have "distinct (concat (map pt_ids (parts @ map snd (map_put (m_Value m) ?new bv))) @ map m_Peer ms)"
      using 2(5) eq by (subst mset_eq_imp_distinct_iff [of _ "concat (map pt_ids (parts @ map snd bv)) @ map m_Peer (m # ms)"])
        (simp_all add: ac_simps)
    moreover have "\<forall>q \<in> set (parts @ map snd (map_put (m_Value m) ?new bv)). fresh_pt q"
      using 2(6) fresh snd_map_put [of "m_Value m" ?new bv] unfolding set_append by blast
    ultimately show ?thesis using 2(2) [OF _ new(2)] 2(4) new eq by (simp add: ac_simps)
  qed
qed

lemma partitionValues_spec:
  assumes "distinct (map m_Peer ms)"
  shows "mset (concat (map pt_ids (partitionValues ms))) = mset (map m_Peer ms)"
    "\<forall>p \<in> set (partitionValues ms). fresh_pt p"
proof -
  obtain parts bv where "partitionValues_loop ms [] [] = (parts, bv)" by fastforce
  with partitionValues_loop_spec [OF this] assms
  show "mset (concat (map pt_ids (partitionValues ms))) = mset (map m_Peer ms)"
    "\<forall>p \<in> set (partitionValues ms). fresh_pt p"
    by (simp_all add: partitionValues_def)
qed

lemma filteredSet_lookup:
  assumes "wf_map st" "n \<noteq> rootMetric"
  shows "map_of (filteredSet rootMetric p st) n =
    (case map_of st n of
       Some v \<Rightarrow> (let v' = filter (\<lambda>m. map_has (pt_peers p) (m_Peer m)) v in if v' = [] then None else Some v')
     | None \<Rightarrow> None)"
  using assms(1)
proof (induction st)
  case Nil
  then show ?case by (simp add: filteredSet_def)
next
  case (Cons kv st)
  obtain k v where kv: "kv = (k, v)" by fastforce
  let ?v = "filter (\<lambda>m. map_has (pt_peers p) (m_Peer m)) v"
  have step: "filteredSet rootMetric p (kv # st) =
      (if k \<noteq> rootMetric \<and> ?v \<noteq> [] then [(k, ?v)] else []) @ filteredSet rootMetric p st"
    by (simp add: filteredSet_def kv)
  have "map_of st n = None" if "k = n" using Cons.prems that by (simp add: wf_map_Cons kv map_of_eq_None_iff)
  then show ?case using Cons.IH Cons.prems assms(2) unfolding step
    by (cases "k = n") (simp_all add: kv wf_map_Cons Let_def)
qed

lemma filteredSet_get:
  assumes "wf_map st" "n \<noteq> rootMetric"
  shows "map_get [] (filteredSet rootMetric p st) n = filter (\<lambda>m. map_has (pt_peers p) (m_Peer m)) (map_get [] st n)"
  using filteredSet_lookup [OF assms] by (simp add: map_get_def Let_def split: option.split)

lemma wf_filteredSet: "wf_map st \<Longrightarrow> wf_map (filteredSet rootMetric p st)"
  by (auto simp: filteredSet_def wf_map_def distinct_map_filter comp_def case_prod_unfold)

lemma map_has_ids: "map_has (pt_peers p) x \<longleftrightarrow> x \<in> set (pt_ids p)"
  by (simp add: map_has_def pt_ids_def)

lemma mset_concat_cong:
  "(\<And>x. x \<in> set xs \<Longrightarrow> mset (u x) = mset (w x)) \<Longrightarrow> mset (concat (map u xs)) = mset (concat (map w xs))"
  by (induction xs) auto

lemma complete_filtered:
  assumes c: "complete_set (r # n # by) P st" and p: "p \<in> set (partitionValues (map_get [] st r))"
  shows "complete_set (n # by) (set (pt_ids p)) (filteredSet r p st)"
proof -
  have d: "distinct (map m_Peer (map_get [] st r))" "set (map m_Peer (map_get [] st r)) = P"
    using complete_setD [OF c] by auto
  have "set (concat (map pt_ids (partitionValues (map_get [] st r)))) = P"
    using partitionValues_spec(1) [OF d(1)] d(2) by (metis mset_eq_setD)
  with p have sub: "set (pt_ids p) \<subseteq> P" by auto
  have "distinct (map m_Peer (map_get [] (filteredSet r p st) m)) \<and>
      set (map m_Peer (map_get [] (filteredSet r p st) m)) = set (pt_ids p)" if m: "m \<in> set (n # by)" for m
  proof -
    have "m \<noteq> r" "wf_map st" using c m by (auto simp: complete_set_def)
    then have get: "map_get [] (filteredSet r p st) m = filter (\<lambda>x. m_Peer x \<in> set (pt_ids p)) (map_get [] st m)"
      by (simp add: filteredSet_get map_has_ids)
    have "distinct (map m_Peer (map_get [] st m))" "set (map m_Peer (map_get [] st m)) = P"
      using complete_setD [OF c] m by auto
    with sub show ?thesis unfolding get by (auto simp: distinct_map_filter)
  qed
  moreover have "[] \<notin> set (pt_ids p)" using sub c by (auto simp: complete_set_def)
  ultimately show ?thesis using c wf_filteredSet by (auto simp: complete_set_def list_all_iff)
qed

lemma unused_fresh:
  assumes "fresh_pt p" "[] \<notin> set (pt_ids p)"
  shows "unusedPartition p = pt_ids p" "wf_pt p"
proof -
  obtain v w a peers where p: "p = Partition v w a peers None" using assms(1) by (cases p) (auto simp: fresh_pt_def)
  have all: "\<forall>x \<in> set peers. \<not> snd x \<and> fst x \<noteq> []"
    using assms by (force simp: p fresh_pt_def pt_ids_def list_all_iff)
  then have "filter (\<lambda>(p, used). \<not> used \<and> p \<noteq> []) peers = peers" by (auto simp: filter_id_conv)
  then show "unusedPartition p = pt_ids p" by (simp add: p unused_peers_def pt_ids_def)
  show "wf_pt p" using all by (auto simp: p list_all_iff)
qed

lemma wf_sorted_partitions:
  "\<forall>p \<in> set parts. wf_pt p \<Longrightarrow> wf_pm (PartitionedMetric name 0 False (sort_slice lt parts))"
  by (auto simp: list_all_iff) (metis length_greater_0_conv length_sort_slice list.size(3))

lemma partitionMetrics_spec:
  "complete_set by P st \<Longrightarrow>
     wf_pm (partitionMetrics st by) \<and> mset (unused (partitionMetrics st by)) = mset_set P"
proof (induction st "by" arbitrary: P rule: partitionMetrics.induct)
  case (1 st)
  then show ?case by (simp add: complete_set_def)
next
  case (2 st root)
  let ?pv = "partitionValues (map_get [] st root)"
  have d: "distinct (map m_Peer (map_get [] st root))" "set (map m_Peer (map_get [] st root)) = P" "[] \<notin> P"
    using 2 by (simp_all add: complete_set_def)
  note pv = partitionValues_spec [OF d(1)]
  have ids: "set (concat (map pt_ids ?pv)) = P" using pv(1) d(2) by (metis mset_eq_setD)
  have u: "unusedPartition p = pt_ids p" "wf_pt p" if "p \<in> set ?pv" for p
    using that pv(2) ids d(3) by (auto intro!: unused_fresh)
  have "mset (concat (map unusedPartition (sort_slice lessF ?pv))) = mset (concat (map unusedPartition ?pv))"
    by (rule mset_concat_perm) simp
  also have "\<dots> = mset (concat (map pt_ids ?pv))" using u(1) by (simp cong: map_cong)
  also have "\<dots> = mset_set P" using pv(1) d mset_set_set [of "map m_Peer (map_get [] st root)"] by simp
  finally show ?case using wf_sorted_partitions u(2) by simp
next
  case (3 st root nxt "by")
  let ?pv = "partitionValues (map_get [] st root)"
  let ?sub = "\<lambda>p. partitionMetrics (filteredSet root p st) (nxt # by)"
  let ?ext = "\<lambda>p. Partition (pt_value p) (pt_weight p)
      (foldl (\<lambda>a subp. wrap_int64 (a + pt_aggregatedWeight subp)) (pt_aggregatedWeight p) (pm_partitions (?sub p)))
      (pt_peers p) (Some (?sub p))"
  have d: "distinct (map m_Peer (map_get [] st root))" "set (map m_Peer (map_get [] st root)) = P"
    using complete_setD [OF 3(2)] by auto
  note pv = partitionValues_spec [OF d(1)]
  have "distinct (concat (map pt_ids ?pv))" using pv(1) d(1) by (metis mset_eq_imp_distinct_iff)
  then have dp: "distinct (pt_ids p)" if "p \<in> set ?pv" for p
    using that by (auto simp: distinct_concat_iff)
  have sub: "wf_pm (?sub p)" "mset (unused (?sub p)) = mset (pt_ids p)" if p: "p \<in> set ?pv" for p
    using 3(1) [OF p complete_filtered [OF 3(2) p]] mset_set_set [OF dp [OF p]] by simp_all
  have "mset (concat (map unusedPartition (sort_slice lessF (map ?ext ?pv)))) =
      mset (concat (map unusedPartition (map ?ext ?pv)))"
    by (rule mset_concat_perm) simp
  also have "\<dots> = mset (concat (map pt_ids ?pv))"
    unfolding map_map by (rule mset_concat_cong) (simp add: sub(2))
  also have "\<dots> = mset_set P" using pv(1) d mset_set_set [of "map m_Peer (map_get [] st root)"] by simp
  finally have "mset (unused (partitionMetrics st (root # nxt # by))) = mset_set P" by (simp add: Let_def)
  moreover have "wf_pm (partitionMetrics st (root # nxt # by))"
    unfolding partitionMetrics.simps Let_def by (rule wf_sorted_partitions) (use sub(1) in auto)
  ultimately show ?case by blast
qed

lemma sortedPeers_partitionMetrics:
  assumes "complete_set by P st"
  shows "mset (sortedPeers (partitionMetrics st by)) = mset_set P"
  using partitionMetrics_spec [OF assms] sortedPeers_mset by simp

section \<open>The order of the peers\<close>

lemma choosePartition_nonempty:
  assumes "wf_pt p" "unusedPartition p \<noteq> []"
  shows "fst (choosePartition p) \<noteq> []" "fst (choosePartition p) \<in> set (unusedPartition p)"
proof -
  show ne: "fst (choosePartition p) \<noteq> []"
    using choosePartition_done [OF assms(1)] yields_choosePartition [of p] assms(2)
    by (auto simp: yields_def)
  then have "mset (unusedPartition p) = add_mset (fst (choosePartition p)) (mset (unusedPartition (snd (choosePartition p))))"
    using yields_choosePartition [of p] by (simp add: yields_def)
  then have "fst (choosePartition p) \<in># mset (unusedPartition p)" by simp
  then show "fst (choosePartition p) \<in> set (unusedPartition p)" by simp
qed

lemma chooseNext_head:
  assumes "i < length parts" "fst (choosePartition (parts ! i)) \<noteq> []"
  shows "chooseNext (PartitionedMetric name i False parts) =
    (fst (choosePartition (parts ! i)),
     PartitionedMetric name (Suc i mod length parts) False (parts[i := snd (choosePartition (parts ! i))]))"
proof -
  obtain k where k: "length parts = Suc k" using assms(1) by (cases parts) auto
  have "chooseNext_loop (Suc k) (map choosePartition parts) i parts =
      (fst (choosePartition (parts ! i)), Suc i mod length parts, False, parts[i := snd (choosePartition (parts ! i))])"
    using assms by (simp add: case_prod_unfold Let_def)
  moreover have "parts \<noteq> []" using k by auto
  ultimately show ?thesis by (simp add: k)
qed

lemma sortedPeers_head:
  assumes "i < length parts" "fst (choosePartition (parts ! i)) \<noteq> []"
  shows "sortedPeers (PartitionedMetric name i False parts) = fst (choosePartition (parts ! i)) #
    sortedPeers (PartitionedMetric name (Suc i mod length parts) False (parts[i := snd (choosePartition (parts ! i))]))"
  unfolding sortedPeers.simps [of "PartitionedMetric name i False parts"] chooseNext_head [OF assms]
  using assms(2) by simp

lemma sortedPeers_round:
  assumes "\<forall>j. k \<le> j \<and> j < length parts \<longrightarrow> wf_pt (parts ! j) \<and> unusedPartition (parts ! j) \<noteq> []"
    and "k + j < length parts"
  shows "j < length (sortedPeers (PartitionedMetric name k False parts)) \<and>
    sortedPeers (PartitionedMetric name k False parts) ! j \<in> set (unusedPartition (parts ! (k + j)))"
  using assms
proof (induction j arbitrary: k parts)
  case 0
  then have "fst (choosePartition (parts ! k)) \<noteq> []" "fst (choosePartition (parts ! k)) \<in> set (unusedPartition (parts ! k))"
    using choosePartition_nonempty by auto
  with 0 show ?case by (simp add: sortedPeers_head)
next
  case (Suc j)
  let ?p = "choosePartition (parts ! k)"
  let ?parts = "parts[k := snd ?p]"
  have k: "Suc k < length parts" using Suc.prems(2) by simp
  have ne: "fst ?p \<noteq> []" using Suc.prems(1) k choosePartition_nonempty(1) by auto
  have "\<forall>i. Suc k \<le> i \<and> i < length ?parts \<longrightarrow> wf_pt (?parts ! i) \<and> unusedPartition (?parts ! i) \<noteq> []"
    using Suc.prems(1) by auto
  moreover have "Suc k + j < length ?parts" using Suc.prems(2) by simp
  ultimately have "j < length (sortedPeers (PartitionedMetric name (Suc k) False ?parts)) \<and>
      sortedPeers (PartitionedMetric name (Suc k) False ?parts) ! j \<in> set (unusedPartition (?parts ! (Suc k + j)))"
    by (rule Suc.IH)
  moreover have "sortedPeers (PartitionedMetric name k False parts) =
      fst ?p # sortedPeers (PartitionedMetric name (Suc k) False ?parts)"
    using k ne by (simp add: sortedPeers_head)
  ultimately show ?case by simp
qed

text \<open>The partitions at the top of the tree: none is empty, and each holds the peers of its value.\<close>

lemma top_partitions:
  assumes "complete_set by P st" "p \<in> set (pm_partitions (partitionMetrics st by))"
  shows "wf_pt p \<and> unusedPartition p \<noteq> [] \<and> set (unusedPartition p) = set (pt_ids p)"
proof -
  obtain r rest where "by": "by = r # rest" using assms(1) by (cases "by") (auto simp: complete_set_def)
  have d: "distinct (map m_Peer (map_get [] st r))" "set (map m_Peer (map_get [] st r)) = P" "[] \<notin> P"
    using complete_setD [OF assms(1), of r] assms(1) by (auto simp: "by" complete_set_def)
  note pv = partitionValues_spec [OF d(1)]
  have ids: "set (concat (map pt_ids (partitionValues (map_get [] st r)))) = P" using pv(1) d(2) by (metis mset_eq_setD)
  show ?thesis
  proof (cases rest)
    case Nil
    then have p: "p \<in> set (partitionValues (map_get [] st r))" using assms(2) by (simp add: "by")
    then have "[] \<notin> set (pt_ids p)" "fresh_pt p" using ids d(3) pv(2) by auto
    then show ?thesis using unused_fresh [of p] by (simp add: fresh_pt_def pt_ids_def)
  next
    case (Cons n rest')
    then obtain q where q: "q \<in> set (partitionValues (map_get [] st r))" "pt_ids p = pt_ids q"
        "unusedPartition p = unused (partitionMetrics (filteredSet r q st) rest)"
        "wf_pt p = wf_pm (partitionMetrics (filteredSet r q st) rest)"
      using assms(2) by (auto simp: "by" Let_def pt_ids_def)
    have "complete_set rest (set (pt_ids q)) (filteredSet r q st)"
      using complete_filtered [OF _ q(1)] assms(1) "by" Cons by simp
    from partitionMetrics_spec [OF this] have s: "wf_pm (partitionMetrics (filteredSet r q st) rest)"
        "mset (unused (partitionMetrics (filteredSet r q st) rest)) = mset_set (set (pt_ids q))" by simp_all
    have "set (pt_ids q) \<noteq> {}" using pv(2) q(1) by (auto simp: fresh_pt_def pt_ids_def)
    moreover have "set (unused (partitionMetrics (filteredSet r q st) rest)) = set (pt_ids q)"
      using arg_cong [OF s(2), of set_mset] by simp
    ultimately show ?thesis using s(1) q by auto
  qed
qed

lemma partitionMetrics_init: "pm_curChoosingIndex (partitionMetrics st by) = 0 \<and> \<not> pm_noMore (partitionMetrics st by)"
  by (cases "(st, by)" rule: partitionMetrics.cases) (auto simp: Let_def)

lemma lessF_order:
  "lessF x y \<Longrightarrow> \<not> lessF z y \<Longrightarrow> lessF x z" "lessF x y \<Longrightarrow> \<not> lessF y x"
  by (auto simp: lessF_def split: if_splits)

lemma partitionValues_single:
  assumes "\<forall>m \<in> set ms. \<not> m_Partitionable m"
  shows "partitionValues ms = map (\<lambda>m. Partition (m_Value m) (m_Weight m) (m_Weight m) [(m_Peer m, False)] None) ms"
proof -
  have "partitionValues_loop ms parts bv =
      (parts @ map (\<lambda>m. Partition (m_Value m) (m_Weight m) (m_Weight m) [(m_Peer m, False)] None) ms, bv)" for parts bv
    using assms by (induction ms arbitrary: parts) auto
  then show ?thesis by (simp add: partitionValues_def)
qed

section \<open>The allocator\<close>

definition Allocate :: "string list \<Rightarrow> MetricsSet \<Rightarrow> MetricsSet \<Rightarrow> MetricsSet \<Rightarrow> string + peer_id list" where
  "Allocate AllocateBy current candidates priority =
     (let candidatePartition = partitionMetrics candidates AllocateBy;
          priorityPartition = partitionMetrics priority AllocateBy;
          first = sortedPeers priorityPartition;
          last = sortedPeers candidatePartition
      in Inr (first @ last))"

definition balanced_valid :: "string list \<Rightarrow> bool" where
  "balanced_valid AllocateBy \<longleftrightarrow> AllocateBy \<noteq> [] \<and> distinct AllocateBy"

lemma sortedPeers_complete:
  assumes "complete_set by P st"
  shows "distinct (sortedPeers (partitionMetrics st by))" "set (sortedPeers (partitionMetrics st by)) = P"
proof -
  obtain n where n: "n \<in> set by" using assms by (cases "by") (auto simp: complete_set_def)
  have "mset_set P = mset (map m_Peer (map_get [] st n))"
    using complete_setD [OF assms n] mset_set_set by metis
  then have eq: "mset (sortedPeers (partitionMetrics st by)) = mset (map m_Peer (map_get [] st n))"
    using sortedPeers_partitionMetrics [OF assms] by simp
  show "distinct (sortedPeers (partitionMetrics st by))"
    using mset_eq_imp_distinct_iff [OF eq] complete_setD(1) [OF assms n] by simp
  show "set (sortedPeers (partitionMetrics st by)) = P"
    using mset_eq_setD [OF eq] complete_setD(2) [OF assms n] by simp
qed

interpretation bal: pin_allocator balanced_valid "\<lambda>AllocateBy. AllocateBy" Allocate
proof
  show "distinct c \<and> c \<noteq> []" if "balanced_valid c" for c using that by (simp add: balanced_valid_def)
  show "\<exists>first last. Allocate c cur cand prio = Inr (first @ last) \<and>
      distinct first \<and> set first = Pp \<and> distinct last \<and> set last = Pc"
    if "complete_set c Pc cand" "complete_set c Pp prio" for c Pc cand Pp prio cur
    using sortedPeers_complete [OF that(1)] sortedPeers_complete [OF that(2)] unfolding Allocate_def Let_def by blast
qed

lemma sortedPeers_first_round:
  assumes "complete_set by P st" "j < length (pm_partitions (partitionMetrics st by))"
  shows "j < length (sortedPeers (partitionMetrics st by)) \<and>
    sortedPeers (partitionMetrics st by) ! j \<in> set (pt_ids (pm_partitions (partitionMetrics st by) ! j))"
proof -
  let ?m = "partitionMetrics st by"
  have m: "?m = PartitionedMetric (pm_metricName ?m) 0 False (pm_partitions ?m)"
    using partitionMetrics_init [of st "by"] by (cases ?m) simp
  have top: "wf_pt p \<and> unusedPartition p \<noteq> [] \<and> set (unusedPartition p) = set (pt_ids p)"
    if "p \<in> set (pm_partitions ?m)" for p
    using top_partitions [OF assms(1) that] .
  have "j < length (sortedPeers (PartitionedMetric (pm_metricName ?m) 0 False (pm_partitions ?m))) \<and>
      sortedPeers (PartitionedMetric (pm_metricName ?m) 0 False (pm_partitions ?m)) ! j
        \<in> set (unusedPartition (pm_partitions ?m ! (0 + j)))"
    by (rule sortedPeers_round) (use top assms(2) in auto)
  then show ?thesis using top assms(2) m by (metis add_0 nth_mem)
qed

lemma insert_by_map: "insert_by lt (f x) (map f xs) = map f (insert_by (\<lambda>a b. lt (f a) (f b)) x xs)"
  by (induction xs) auto

lemma sort_slice_map: "sort_slice lt (map f xs) = map f (sort_slice (\<lambda>a b. lt (f a) (f b)) xs)"
  by (induction xs) (auto simp: sort_slice_def insert_by_map)

text \<open>
  C20. The balanced allocator returns every peer once. When each of the metrics it allocates by has
  one value for each candidate and for each priority peer, \<open>Allocate\<close> succeeds with a list of all the
  priority peers followed by a list of all the candidates, without duplicates: the loop of
  \<open>sortedPeers\<close> ends and loses no peer.
\<close>

theorem Allocate_all_peers:
  assumes "complete_set by Pc candidates" "complete_set by Pp priority"
  shows "\<exists>first last. Allocate by current candidates priority = Inr (first @ last) \<and>
    distinct first \<and> set first = Pp \<and> distinct last \<and> set last = Pc"
  using sortedPeers_complete [OF assms(1)] sortedPeers_complete [OF assms(2)] unfolding Allocate_def Let_def by blast

definition example_metric :: "string \<Rightarrow> peer_id \<Rightarrow> string \<Rightarrow> int \<Rightarrow> bool \<Rightarrow> Metric" where
  "example_metric n p v w part = \<lparr>m_Name = n, m_Peer = p, m_Value = v, m_Expire = 100, m_Valid = True,
     m_Weight = w, m_Partitionable = part, m_ReceivedAt = 0\<rparr>"

definition example_set :: MetricsSet where
  "example_set =
     [(''tag:group'', [example_metric ''tag:group'' ''p1'' ''eu'' 0 True, example_metric ''tag:group'' ''p2'' ''us'' 0 True,
                       example_metric ''tag:group'' ''p3'' ''eu'' 0 True]),
      (''freespace'', [example_metric ''freespace'' ''p1'' ''10'' 10 False, example_metric ''freespace'' ''p2'' ''5'' 5 False,
                       example_metric ''freespace'' ''p3'' ''20'' 20 False])]"

lemma example_set_complete:
  "complete_set [''tag:group'', ''freespace''] {''p1'', ''p2'', ''p3''} example_set"
  "complete_set [''tag:group'', ''freespace''] {} []"
  by code_simp+

theorem Allocate_all_peers_witness:
  "\<exists>first last. Allocate [''tag:group'', ''freespace''] [] example_set [] = Inr (first @ last) \<and>
     distinct first \<and> set first = {} \<and> distinct last \<and> set last = {''p1'', ''p2'', ''p3''}"
  by (rule Allocate_all_peers [OF example_set_complete])

text \<open>
  The balanced allocator spreads its choices. The top partitions of the tree (for example one
  per region) are all non-empty, and the first peers that \<open>sortedPeers\<close> returns come one from each of
  them, in their order: no partition is used twice before all the others have been used.
\<close>

theorem sortedPeers_spread:
  assumes "complete_set by P st" "j < length (pm_partitions (partitionMetrics st by))"
  shows "j < length (sortedPeers (partitionMetrics st by)) \<and>
    sortedPeers (partitionMetrics st by) ! j \<in> set (pt_ids (pm_partitions (partitionMetrics st by) ! j))"
  using assms by (rule sortedPeers_first_round)

theorem sortedPeers_spread_witness:
  "sortedPeers (partitionMetrics example_set [''tag:group'', ''freespace'']) ! 1
     \<in> set (pt_ids (pm_partitions (partitionMetrics example_set [''tag:group'', ''freespace'']) ! 1))"
proof -
  have "length (pm_partitions (partitionMetrics example_set [''tag:group'', ''freespace''])) = 2" by code_simp
  then show ?thesis using sortedPeers_spread [OF example_set_complete(1), of 1] by simp
qed

text \<open>
  Allocating by one metric whose values are not grouped, such as free space: the peers come in
  order of decreasing weight.
\<close>

theorem sortedPeers_by_weight:
  assumes "complete_set [n] P st" "\<forall>m \<in> set (map_get [] st n). \<not> m_Partitionable m"
  shows "\<exists>ms. mset ms = mset (map_get [] st n) \<and> sortedPeers (partitionMetrics st [n]) = map m_Peer ms \<and>
    sorted_wrt (\<lambda>a b. m_Weight b \<le> m_Weight a) ms"
proof -
  let ?ms = "map_get [] st n"
  let ?pt = "\<lambda>m. Partition (m_Value m) (m_Weight m) (m_Weight m) [(m_Peer m, False)] None"
  let ?parts = "sort_slice lessF (map ?pt ?ms)"
  have parts: "pm_partitions (partitionMetrics st [n]) = ?parts"
    using partitionValues_single [OF assms(2)] by simp
  define ms where "ms = sort_slice (\<lambda>a b. lessF (?pt a) (?pt b)) ?ms"
  have ms: "mset ms = mset ?ms" "?parts = map ?pt ms" by (simp_all add: ms_def sort_slice_map)
  have len: "length (sortedPeers (partitionMetrics st [n])) = length ms"
  proof -
    have "length ms = length ?ms" using ms(1) by (rule mset_eq_length)
    also have "\<dots> = card P" using complete_setD [OF assms(1), of n] by (metis distinct_card length_map list.set_intros(1))
    also have "\<dots> = length (sortedPeers (partitionMetrics st [n]))"
      using sortedPeers_complete [OF assms(1)] by (metis distinct_card)
    finally show ?thesis by simp
  qed
  have "sortedPeers (partitionMetrics st [n]) ! j = m_Peer (ms ! j)" if "j < length ms" for j
    using sortedPeers_first_round [OF assms(1), of j] that unfolding parts ms(2) by (simp add: pt_ids_def)
  then have "sortedPeers (partitionMetrics st [n]) = map m_Peer ms" using len by (simp add: list_eq_iff_nth_eq)
  moreover have "sorted_wrt (\<lambda>x y. \<not> lessF y x) (map ?pt ms)"
    unfolding ms(2) [symmetric] by (rule sorted_sort_slice) (use lessF_order in blast)+
  then have "sorted_wrt (\<lambda>a b. \<not> lessF (?pt b) (?pt a)) ms" by (simp add: sorted_wrt_map)
  then have "sorted_wrt (\<lambda>a b. m_Weight b \<le> m_Weight a) ms"
    by (rule sorted_wrt_mono_rel [rotated]) (auto simp: lessF_def split: if_splits)
  ultimately show ?thesis using ms(1) by blast
qed

theorem sortedPeers_by_weight_witness:
  "\<exists>ms :: Metric list. sortedPeers (partitionMetrics example_set [''freespace'']) = map m_Peer ms \<and>
     sorted_wrt (\<lambda>a b. m_Weight b \<le> m_Weight a) ms"
proof -
  have c: "complete_set [''freespace''] {''p1'', ''p2'', ''p3''} example_set" by code_simp
  have "\<forall>m \<in> set (map_get [] example_set ''freespace''). \<not> m_Partitionable m" by code_simp
  from sortedPeers_by_weight [OF c this] show ?thesis by blast
qed

end
