(* ===== verification/Metrics_Store.thy ===== *)
theory Metrics_Store
  imports Balanced_Allocator
begin

text \<open>
  The monitor: \<open>monitor/metrics/window.go\<close> (the last metrics of a peer, a ring buffer),
  \<open>monitor/metrics/store.go\<close> (a window per metric name and peer), \<open>monitor/metrics/checker.go\<close>
  (alerts for expired metrics), \<open>monitor/metrics/util.go\<close> and the operations of
  \<open>monitor/pubsubmon/pubsubmon.go\<close>. The clock is an argument; one pass over the metrics reads it once.
  The peer set provider, the encoding of metrics and the topic they are published on are arguments.
  The lemmas show that a window is the list of the last metrics added, that the store answers from the
  last metric logged for each name and peer, when alerts are sent and repeated, and that the monitor
  is what \<open>allocate\<close> expects of it.
\<close>

section \<open>Windows\<close>

text \<open>
  \<open>container/ring\<close>: the elements in ring order and the element the \<open>*Ring\<close> points to. \<open>Next\<close> and
  \<open>Prev\<close> move around, \<open>Do\<close> visits all the elements in forward order from there.
\<close>

record 'a ring =
  ring_elems :: "'a option list"
  ring_cur :: nat

definition ring_New :: "nat \<Rightarrow> 'a ring" where
  "ring_New n = \<lparr>ring_elems = replicate n None, ring_cur = 0\<rparr>"

definition ring_Len :: "'a ring \<Rightarrow> nat" where
  "ring_Len r = length (ring_elems r)"

definition ring_Value :: "'a ring \<Rightarrow> 'a option" where
  "ring_Value r = ring_elems r ! ring_cur r"

definition ring_set_Value :: "'a \<Rightarrow> 'a ring \<Rightarrow> 'a ring" where
  "ring_set_Value v r = r\<lparr>ring_elems := (ring_elems r)[ring_cur r := Some v]\<rparr>"

definition ring_Next :: "'a ring \<Rightarrow> 'a ring" where
  "ring_Next r = r\<lparr>ring_cur := (ring_cur r + 1) mod ring_Len r\<rparr>"

definition ring_Prev :: "'a ring \<Rightarrow> 'a ring" where
  "ring_Prev r = r\<lparr>ring_cur := (ring_cur r + (ring_Len r - 1)) mod ring_Len r\<rparr>"

definition ring_Do :: "'a ring \<Rightarrow> 'a option list" where
  "ring_Do r = drop (ring_cur r) (ring_elems r) @ take (ring_cur r) (ring_elems r)"

type_synonym Window = "Metric ring"

definition DefaultWindowCap :: int where
  "DefaultWindowCap = 25"

datatype metrics_error = ErrNoMetrics | ErrAlertChannelFull

text \<open>\<open>NewWindow\<close> panics (\<open>None\<close>) when the capacity is not positive.\<close>

definition NewWindow :: "int \<Rightarrow> Window option" where
  "NewWindow windowCap = (if windowCap \<le> 0 then None else Some (ring_New (nat windowCap)))"

definition Window_Add :: "gotime \<Rightarrow> Window \<Rightarrow> Metric \<Rightarrow> Window" where
  "Window_Add now mw m = ring_Next (ring_set_Value (m\<lparr>m_ReceivedAt := now\<rparr>) mw)"

definition Window_Latest :: "Window \<Rightarrow> metrics_error + Metric" where
  "Window_Latest mw =
     (case ring_Value (ring_Prev mw) of
        None \<Rightarrow> Inl ErrNoMetrics
      | Some m \<Rightarrow> if \<not> Metric_Defined m then Inl ErrNoMetrics else Inr m)"

definition Window_All :: "Window \<Rightarrow> Metric list" where
  "Window_All mw =
     foldl (\<lambda>values v. case v of Some i \<Rightarrow> i # values | None \<Rightarrow> values) [] (ring_Do mw)"

section \<open>The store\<close>

type_synonym PeerMetrics = "(peer_id, Window) gomap"
type_synonym Store = "(string, PeerMetrics) gomap"

definition zero_Metric :: Metric where
  "zero_Metric = \<lparr>m_Name = [], m_Peer = [], m_Value = [], m_Expire = 0, m_Valid = False, m_Weight = 0,
                  m_Partitionable = False, m_ReceivedAt = 0\<rparr>"

definition NewStore :: Store where
  "NewStore = []"

definition Store_Add :: "gotime \<Rightarrow> Store \<Rightarrow> Metric \<Rightarrow> Store" where
  "Store_Add now byName m =
     (let name = m_Name m;
          peer = m_Peer m;
          mbyp = map_get [] byName name;
          window = (case map_of mbyp peer of
                      Some w \<Rightarrow> w
                    | None \<Rightarrow> the (NewWindow DefaultWindowCap))
      in map_put name (map_put peer (Window_Add now window m) mbyp) byName)"

definition RemovePeer :: "Store \<Rightarrow> peer_id \<Rightarrow> Store" where
  "RemovePeer byName pid = map (\<lambda>(n, metrics). (n, map_delete pid metrics)) byName"

definition RemovePeerMetrics :: "Store \<Rightarrow> peer_id \<Rightarrow> string \<Rightarrow> Store" where
  "RemovePeerMetrics byName pid name =
     (case map_of byName name of
        None \<Rightarrow> byName
      | Some metrics \<Rightarrow> map_put name (map_delete pid metrics) byName)"

definition LatestValid :: "gotime \<Rightarrow> Store \<Rightarrow> string \<Rightarrow> Metric list" where
  "LatestValid now byName name =
     (case map_of byName name of
        None \<Rightarrow> []
      | Some byPeer \<Rightarrow>
          let metrics = concat (map (\<lambda>(_, window).
                case Window_Latest window of
                  Inl err \<Rightarrow> []
                | Inr m \<Rightarrow> if Metric_Discard now m then [] else [m]) byPeer)
          in sort_slice MetricSlice_Less metrics)"

definition AllMetrics :: "Store \<Rightarrow> Metric list" where
  "AllMetrics byName =
     concat (map (\<lambda>(_, byPeer). concat (map (\<lambda>(_, window).
       case Window_Latest window of
         Inl err \<Rightarrow> []
       | Inr metric \<Rightarrow> if \<not> m_Valid metric then [] else [metric]) byPeer)) byName)"

definition Store_PeerMetrics :: "Store \<Rightarrow> peer_id \<Rightarrow> Metric list" where
  "Store_PeerMetrics byName pid =
     concat (map (\<lambda>(_, byPeer).
       case map_of byPeer pid of
         None \<Rightarrow> []
       | Some window \<Rightarrow>
           (case Window_Latest window of
              Inl err \<Rightarrow> []
            | Inr metric \<Rightarrow> if \<not> m_Valid metric then [] else [metric])) byName)"

definition PeerMetricAll :: "Store \<Rightarrow> string \<Rightarrow> peer_id \<Rightarrow> Metric list" where
  "PeerMetricAll byName name pid =
     (case map_of byName name of
        None \<Rightarrow> []
      | Some byPeer \<Rightarrow>
          (case map_of byPeer pid of
             None \<Rightarrow> []
           | Some window \<Rightarrow> Window_All window))"

definition PeerLatest :: "Store \<Rightarrow> string \<Rightarrow> peer_id \<Rightarrow> Metric" where
  "PeerLatest byName name pid =
     (case map_of byName name of
        None \<Rightarrow> zero_Metric
      | Some byPeer \<Rightarrow>
          (case map_of byPeer pid of
             None \<Rightarrow> zero_Metric
           | Some window \<Rightarrow>
               (case Window_Latest window of
                  Inl err \<Rightarrow> zero_Metric
                | Inr m \<Rightarrow> m)))"

definition MetricNames :: "Store \<Rightarrow> string list" where
  "MetricNames byName = map_keys byName"

definition PeersetFilter :: "Metric list \<Rightarrow> peer_id list \<Rightarrow> Metric list" where
  "PeersetFilter metrics peerset =
     (let peerMap = foldl (\<lambda>pm pid. map_put pid () pm) [] peerset
      in filter (\<lambda>metric. map_has peerMap (m_Peer metric)) metrics)"

section \<open>The checker\<close>

record Checker =
  chk_alertCh :: "Alert list"
  chk_failedPeers :: "(peer_id, (string, int) gomap) gomap"

definition AlertChannelCap :: nat where
  "AlertChannelCap = 256"

definition MaxAlertThreshold :: int where
  "MaxAlertThreshold = 1"

definition NewChecker :: Checker where
  "NewChecker = \<lparr>chk_alertCh = [], chk_failedPeers = []\<rparr>"

text \<open>Deletes a metric name of a peer, and the peer when it was the last one.\<close>

definition forget_metric ::
  "(peer_id, (string, int) gomap) gomap \<Rightarrow> peer_id \<Rightarrow> (string, int) gomap \<Rightarrow> string \<Rightarrow>
     (peer_id, (string, int) gomap) gomap" where
  "forget_metric failedPeers pid failedMetrics metricName =
     (let failedMetrics' = map_delete metricName failedMetrics
      in if failedMetrics' = [] then map_delete pid failedPeers
         else map_put pid failedMetrics' failedPeers)"

definition ResetAlerts :: "Checker \<Rightarrow> peer_id \<Rightarrow> string \<Rightarrow> Checker" where
  "ResetAlerts mc pid metricName =
     (case map_of (chk_failedPeers mc) pid of
        None \<Rightarrow> mc
      | Some failedMetrics \<Rightarrow>
          mc\<lparr>chk_failedPeers := forget_metric (chk_failedPeers mc) pid failedMetrics metricName\<rparr>)"

definition Checker_alert ::
  "gotime \<Rightarrow> Store \<Rightarrow> Checker \<Rightarrow> peer_id \<Rightarrow> string \<Rightarrow> Checker \<times> metrics_error option" where
  "Checker_alert now metrics mc pid metricName =
     (let failedMetrics = map_get [] (chk_failedPeers mc) pid;
          lastMetric = PeerLatest metrics metricName pid;
          lastMetric = (if \<not> Metric_Defined lastMetric
                        then zero_Metric\<lparr>m_Name := metricName, m_Peer := pid\<rparr> else lastMetric);
          count = map_get 0 failedMetrics metricName + 1;
          failedMetrics = map_put metricName count failedMetrics
      in if count > MaxAlertThreshold
         then (mc\<lparr>chk_failedPeers :=
                 (if count \<ge> 300 then forget_metric (chk_failedPeers mc) pid failedMetrics metricName
                  else map_put pid failedMetrics (chk_failedPeers mc))\<rparr>, None)
         else let mc = mc\<lparr>chk_failedPeers := map_put pid failedMetrics (chk_failedPeers mc)\<rparr>;
                  alrt = \<lparr>al_Metric = lastMetric, al_TriggeredAt = now\<rparr>
              in if length (chk_alertCh mc) < AlertChannelCap
                 then (mc\<lparr>chk_alertCh := chk_alertCh mc @ [alrt]\<rparr>, None)
                 else (mc, Some ErrAlertChannelFull))"

definition FailedMetric :: "gotime \<Rightarrow> Store \<Rightarrow> string \<Rightarrow> peer_id \<Rightarrow> bool" where
  "FailedMetric now metrics metric pid = Metric_Expired now (PeerLatest metrics metric pid)"

text \<open>The loop both checks share: alert for the failed metrics of a list, up to the first error.\<close>

fun check_metrics ::
  "gotime \<Rightarrow> Store \<Rightarrow> Checker \<Rightarrow> (string \<times> peer_id) list \<Rightarrow> Checker \<times> metrics_error option" where
  "check_metrics now metrics mc [] = (mc, None)"
| "check_metrics now metrics mc ((name, peer) # rest) =
     (if FailedMetric now metrics name peer
      then (case Checker_alert now metrics mc peer name of
              (mc', Some err) \<Rightarrow> (mc', Some err)
            | (mc', None) \<Rightarrow> check_metrics now metrics mc' rest)
      else check_metrics now metrics mc rest)"

definition CheckPeers ::
  "gotime \<Rightarrow> Store \<Rightarrow> Checker \<Rightarrow> peer_id list \<Rightarrow> Checker \<times> metrics_error option" where
  "CheckPeers now metrics mc peers =
     check_metrics now metrics mc
       (concat (map (\<lambda>name. concat (map (\<lambda>peer.
          map (\<lambda>metric. (m_Name metric, peer)) (PeerMetricAll metrics name peer)) peers))
        (MetricNames metrics)))"

definition CheckAll :: "gotime \<Rightarrow> Store \<Rightarrow> Checker \<Rightarrow> Checker \<times> metrics_error option" where
  "CheckAll now metrics mc =
     check_metrics now metrics mc (map (\<lambda>metric. (m_Name metric, m_Peer metric)) (AllMetrics metrics))"

text \<open>One tick of \<open>Watch\<close>; \<open>peersF\<close> is absent, or yields a peer set or an error.\<close>

definition Watch_tick ::
  "gotime \<Rightarrow> (unit + peer_id list) option \<Rightarrow> Store \<Rightarrow> Checker \<Rightarrow> Checker" where
  "Watch_tick now peersF metrics mc =
     (case peersF of
        Some (Inl err) \<Rightarrow> mc
      | Some (Inr peers) \<Rightarrow> fst (CheckPeers now metrics mc peers)
      | None \<Rightarrow> fst (CheckAll now metrics mc))"

section \<open>The monitor\<close>

record Monitor =
  mon_metrics :: Store
  mon_checker :: Checker
  mon_peers :: "(unit + peer_id list) option"
  mon_shutdown :: bool

definition Monitor_New :: "(unit + peer_id list) option \<Rightarrow> Monitor" where
  "Monitor_New peers = \<lparr>mon_metrics = NewStore, mon_checker = NewChecker, mon_peers = peers, mon_shutdown = False\<rparr>"

definition LogMetric :: "gotime \<Rightarrow> Monitor \<Rightarrow> Metric \<Rightarrow> Monitor" where
  "LogMetric now mon m =
     (let mon = mon\<lparr>mon_metrics := Store_Add now (mon_metrics mon) m\<rparr>
      in if \<not> Metric_Discard now m
         then mon\<lparr>mon_checker := ResetAlerts (mon_checker mon) (m_Peer m) (m_Name m)\<rparr>
         else mon)"

definition multicodecPrefix :: string where
  "multicodecPrefix = CHR 0x09 # ''/msgpack'' @ [CHR 0x0A]"

text \<open>
  One message of \<open>logFromPubsub\<close>. Decoding is the msgpack library's. \<open>Shutdown\<close> cancels the context
  that ends this loop and the one of \<open>Watch\<close>.
\<close>

definition logFromPubsub_msg :: "(string \<Rightarrow> Metric option) \<Rightarrow> gotime \<Rightarrow> Monitor \<Rightarrow> string \<Rightarrow> Monitor" where
  "logFromPubsub_msg decode now mon data =
     (if mon_shutdown mon then mon
      else case decode data of
        Some metric \<Rightarrow> LogMetric now mon metric
      | None \<Rightarrow>
          if HasPrefix data multicodecPrefix
          then (case decode (drop (length multicodecPrefix) data) of
                  Some metric \<Rightarrow> LogMetric now mon metric
                | None \<Rightarrow> mon)
          else mon)"

text \<open>\<open>PublishMetric\<close>: the bytes handed to the topic, if any.\<close>

definition PublishMetric ::
  "(Metric \<Rightarrow> string + string) \<Rightarrow> (string \<Rightarrow> string option) \<Rightarrow> gotime \<Rightarrow> Metric \<Rightarrow> string option \<times> string option" where
  "PublishMetric encode publish now m =
     (if Metric_Discard now m then (None, None)
      else case encode m of
             Inl err \<Rightarrow> (None, Some err)
           | Inr b \<Rightarrow> (Some b, publish b))"

definition LatestMetrics :: "gotime \<Rightarrow> Monitor \<Rightarrow> string \<Rightarrow> Metric list" where
  "LatestMetrics now mon name =
     (let latest = LatestValid now (mon_metrics mon) name
      in case mon_peers mon of
           None \<Rightarrow> latest
         | Some (Inl err) \<Rightarrow> []
         | Some (Inr peers) \<Rightarrow> PeersetFilter latest peers)"

definition LatestForPeer :: "Monitor \<Rightarrow> string \<Rightarrow> peer_id \<Rightarrow> Metric" where
  "LatestForPeer mon name pid = PeerLatest (mon_metrics mon) name pid"

definition Monitor_Watch :: "gotime \<Rightarrow> Monitor \<Rightarrow> Monitor" where
  "Monitor_Watch now mon =
     (if mon_shutdown mon then mon
      else mon\<lparr>mon_checker := Watch_tick now (mon_peers mon) (mon_metrics mon) (mon_checker mon)\<rparr>)"

definition Monitor_Shutdown :: "Monitor \<Rightarrow> Monitor" where
  "Monitor_Shutdown mon = (if mon_shutdown mon then mon else mon\<lparr>mon_shutdown := True\<rparr>)"

section \<open>A window is the list of the last metrics added\<close>

text \<open>
  A window in use: the cursor is in range, and from it on the ring has the free elements and then the
  metrics in the order they came.
\<close>

definition wf_win :: "Window \<Rightarrow> bool" where
  "wf_win w \<longleftrightarrow> ring_cur w < ring_Len w \<and>
     (\<exists>k. ring_Do w = replicate k None @ map Some (rev (Window_All w)))"

text \<open>What a client of windows sees: a bounded log, newest metric first.\<close>

locale bounded_log =
  fixes winv :: "'w \<Rightarrow> bool"
    and cap :: "'w \<Rightarrow> nat"
    and add :: "gotime \<Rightarrow> 'w \<Rightarrow> Metric \<Rightarrow> 'w"
    and all :: "'w \<Rightarrow> Metric list"
  assumes add_inv: "winv w \<Longrightarrow> winv (add now w m) \<and> cap (add now w m) = cap w"
    and add_all: "winv w \<Longrightarrow> all (add now w m) = take (cap w) (m\<lparr>m_ReceivedAt := now\<rparr> # all w)"
begin

lemma run_inv: "winv w \<Longrightarrow> winv (foldl (\<lambda>w (now, m). add now w m) w ms) \<and>
    cap (foldl (\<lambda>w (now, m). add now w m) w ms) = cap w"
  by (induction ms arbitrary: w) (auto simp: add_inv)

lemma run_all:
  "winv w \<Longrightarrow> all (foldl (\<lambda>w (now, m). add now w m) w ms) =
     (if ms = [] then all w
      else take (cap w) (rev (map (\<lambda>(now, m). m\<lparr>m_ReceivedAt := now\<rparr>) ms) @ all w))"
proof (induction ms rule: rev_induct)
  case (snoc x ms)
  obtain now m where x: "x = (now, m)" by (cases x)
  have "winv (foldl (\<lambda>w (now, m). add now w m) w ms)" using run_inv [OF snoc.prems] by blast
  from add_all [OF this] show ?case
    using snoc run_inv [OF snoc.prems] unfolding x by (auto simp: take_Cons min_def split: nat.split)
qed simp

end

lemma Window_All_Do: "Window_All w = rev (List.map_filter id (ring_Do w))"
proof -
  have "foldl (\<lambda>values v. case v of Some i \<Rightarrow> i # values | None \<Rightarrow> values) acc vs
      = rev (List.map_filter id vs) @ acc" for acc and vs :: "Metric option list"
    by (induction vs arbitrary: acc) (auto simp: List.map_filter_def split: option.split)
  then show ?thesis by (simp add: Window_All_def)
qed

lemma ring_Len_Add [simp]: "ring_Len (Window_Add now w m) = ring_Len w"
  by (simp add: Window_Add_def ring_Next_def ring_set_Value_def ring_Len_def)

lemma length_ring_Do [simp]: "ring_cur w < ring_Len w \<Longrightarrow> length (ring_Do w) = ring_Len w"
  by (simp add: ring_Do_def ring_Len_def)

lemma ring_Do_Add:
  assumes "ring_cur w < ring_Len w"
  shows "ring_Do (Window_Add now w m) = tl (ring_Do w) @ [Some (m\<lparr>m_ReceivedAt := now\<rparr>)]"
proof -
  obtain xs i where w: "w = \<lparr>ring_elems = xs, ring_cur = i\<rparr>" by (cases w)
  let ?v = "Some (m\<lparr>m_ReceivedAt := now\<rparr>)"
  have i: "i < length xs" using assms by (simp add: w ring_Len_def)
  have new: "Window_Add now w m = \<lparr>ring_elems = xs[i := ?v], ring_cur = (i + 1) mod length xs\<rparr>"
    by (simp add: w Window_Add_def ring_Next_def ring_set_Value_def ring_Len_def)
  have "take (Suc i) (xs[i := ?v]) = take i xs @ [?v]" using i by (simp add: take_Suc_conv_app_nth)
  moreover have "tl (drop i xs) = drop (Suc i) xs" by (simp add: drop_Suc tl_drop)
  moreover have "drop i xs \<noteq> []" using i by simp
  moreover have "xs[i := ?v] = take (Suc i) (xs[i := ?v])" if "Suc i = length xs" using that by simp
  ultimately show ?thesis using i unfolding new unfolding w
    by (cases "Suc i = length xs") (simp_all add: ring_Do_def)
qed

lemma map_filter_replicate [simp]: "List.map_filter id (replicate k None @ map Some xs) = xs"
  by (simp add: List.map_filter_def comp_def)

lemma ring_cur_Add: "ring_cur w < ring_Len w \<Longrightarrow> ring_cur (Window_Add now w m) < ring_Len w"
  unfolding Window_Add_def ring_Next_def ring_set_Value_def ring_Len_def
  by (simp, rule mod_less_divisor) linarith

lemma Window_Add_all:
  assumes "wf_win w"
  shows "Window_All (Window_Add now w m) = take (ring_Len w) (m\<lparr>m_ReceivedAt := now\<rparr> # Window_All w)"
    and "wf_win (Window_Add now w m)"
proof -
  obtain k where k: "ring_cur w < ring_Len w" "ring_Do w = replicate k None @ map Some (rev (Window_All w))"
    using assms by (auto simp: wf_win_def)
  let ?m = "m\<lparr>m_ReceivedAt := now\<rparr>" and ?xs = "rev (Window_All w)"
  have len: "k + length ?xs = ring_Len w" using length_ring_Do [OF k(1)] k(2) by simp
  obtain k' ys where ys: "ring_Do (Window_Add now w m) = replicate k' None @ map Some ys"
      "rev ys = take (ring_Len w) (?m # Window_All w)"
  proof (cases k)
    case 0
    with k len have "ring_Do (Window_Add now w m) = replicate 0 None @ map Some (tl ?xs @ [?m])"
      by (simp add: ring_Do_Add map_tl)
    moreover have "rev (tl ?xs @ [?m]) = take (ring_Len w) (?m # Window_All w)"
      using 0 len k(1) by (cases "ring_Len w") (auto simp: butlast_conv_take simp flip: butlast_rev)
    ultimately show thesis by (rule that)
  next
    case (Suc j)
    with k have "ring_Do (Window_Add now w m) = replicate j None @ map Some (?xs @ [?m])"
      by (simp add: ring_Do_Add)
    moreover have "rev (?xs @ [?m]) = take (ring_Len w) (?m # Window_All w)" using Suc len by simp
    ultimately show thesis by (rule that)
  qed
  show all: "Window_All (Window_Add now w m) = take (ring_Len w) (?m # Window_All w)"
    using ys by (simp add: Window_All_Do [of "Window_Add now w m"])
  have "rev (Window_All (Window_Add now w m)) = ys" using all ys(2) by (metis rev_rev_ident)
  then show "wf_win (Window_Add now w m)"
    using ys(1) ring_cur_Add [OF k(1)] by (auto simp: wf_win_def)
qed

interpretation win: bounded_log wf_win ring_Len Window_Add Window_All
  by unfold_locales (simp_all add: Window_Add_all)

lemma Window_Latest_all:
  assumes "wf_win w"
  shows "Window_Latest w = (case Window_All w of
      [] \<Rightarrow> Inl ErrNoMetrics | m # _ \<Rightarrow> if Metric_Defined m then Inr m else Inl ErrNoMetrics)"
proof -
  obtain k where k: "ring_cur w < ring_Len w" "ring_Do w = replicate k None @ map Some (rev (Window_All w))"
    using assms by (auto simp: wf_win_def)
  have "ring_Value (ring_Prev w) = last (ring_Do w)"
  proof (cases "ring_cur w")
    case 0
    then show ?thesis using k(1)
      by (auto simp: ring_Value_def ring_Prev_def ring_Do_def ring_Len_def last_conv_nth)
  next
    case (Suc i)
    then have "(ring_cur w + (ring_Len w - 1)) mod ring_Len w = i"
      using k(1) by (simp add: mod_if)
    then show ?thesis using k(1) Suc
      by (auto simp: ring_Value_def ring_Prev_def ring_Do_def ring_Len_def last_append last_conv_nth)
  qed
  moreover have "last (ring_Do w) = (case Window_All w of [] \<Rightarrow> None | m # _ \<Rightarrow> Some m)"
    using k length_ring_Do [OF k(1)] by (cases "Window_All w") (auto simp: last_append)
  ultimately show ?thesis by (auto simp: Window_Latest_def split: list.split)
qed

lemma wf_win_New: "0 < n \<Longrightarrow> wf_win (ring_New n) \<and> Window_All (ring_New n) = [] \<and> ring_Len (ring_New n :: Window) = n"
proof -
  have "ring_Do (ring_New n) = replicate n None @ map Some []" by (simp add: ring_Do_def ring_New_def)
  then have "Window_All (ring_New n) = []" unfolding Window_All_Do by (metis map_filter_replicate rev.simps(1))
  then show "0 < n \<Longrightarrow> ?thesis" by (auto simp: wf_win_def ring_Do_def ring_New_def ring_Len_def)
qed

section \<open>The store answers from the last metrics logged\<close>

definition store_win :: "Store \<Rightarrow> string \<Rightarrow> peer_id \<Rightarrow> Window option" where
  "store_win s n p = Option.bind (map_of s n) (\<lambda>byPeer. map_of byPeer p)"

text \<open>Every window is filed under the name and the peer of its metrics, and has some.\<close>

definition win_ok :: "string \<Rightarrow> peer_id \<Rightarrow> Window \<Rightarrow> bool" where
  "win_ok n p w \<longleftrightarrow> wf_win w \<and> ring_Len w = 25 \<and> (\<forall>m \<in> set (Window_All w). m_Name m = n \<and> m_Peer m = p)"

definition store_inv :: "Store \<Rightarrow> bool" where
  "store_inv s \<longleftrightarrow> wf_map s \<and> (\<forall>n byPeer. map_of s n = Some byPeer \<longrightarrow> wf_map byPeer) \<and>
     (\<forall>n p w. store_win s n p = Some w \<longrightarrow> win_ok n p w \<and> Window_All w \<noteq> [])"

lemma win_ok_New: "win_ok n p (ring_New 25)"
  using wf_win_New [of 25] by (simp add: win_ok_def)

lemma win_ok_Add:
  assumes "win_ok (m_Name m) (m_Peer m) w"
  shows "win_ok (m_Name m) (m_Peer m) (Window_Add now w m)"
    and "Window_All (Window_Add now w m) = take 25 (m\<lparr>m_ReceivedAt := now\<rparr> # Window_All w)"
proof -
  have w: "wf_win w" "ring_Len w = 25" using assms by (simp_all add: win_ok_def)
  show all: "Window_All (Window_Add now w m) = take 25 (m\<lparr>m_ReceivedAt := now\<rparr> # Window_All w)"
    using Window_Add_all(1) [OF w(1)] w(2) by simp
  have "\<forall>m' \<in> set (Window_All (Window_Add now w m)). m_Name m' = m_Name m \<and> m_Peer m' = m_Peer m"
    using assms unfolding all by (auto simp: win_ok_def dest!: in_set_takeD)
  then show "win_ok (m_Name m) (m_Peer m) (Window_Add now w m)"
    using w Window_Add_all(2) [OF w(1)] by (simp add: win_ok_def)
qed

lemma NewWindow_default: "the (NewWindow DefaultWindowCap) = ring_New 25"
  by (simp add: NewWindow_def DefaultWindowCap_def)

lemma store_win_Add:
  "store_win (Store_Add now s m) n p =
     (if n = m_Name m \<and> p = m_Peer m
      then Some (Window_Add now (case store_win s n p of Some w \<Rightarrow> w | None \<Rightarrow> ring_New 25) m)
      else store_win s n p)"
  by (auto simp: store_win_def Store_Add_def Let_def map_get_def NewWindow_default split: option.split)

lemma map_of_RemovePeer: "map_of (RemovePeer s q) n = map_option (map_delete q) (map_of s n)"
  by (induction s) (auto simp: RemovePeer_def)

lemma store_win_RemovePeer: "store_win (RemovePeer s q) n p = (if p = q then None else store_win s n p)"
  by (cases "map_of s n") (auto simp: store_win_def map_of_RemovePeer)

lemma store_win_RemovePeerMetrics:
  "store_win (RemovePeerMetrics s q n') n p = (if p = q \<and> n = n' then None else store_win s n p)"
  by (auto simp: store_win_def RemovePeerMetrics_def split: option.split)

lemma wf_RemovePeer: "wf_map (RemovePeer s q) = wf_map s"
  by (simp add: wf_map_def RemovePeer_def comp_def case_prod_unfold)

lemma store_win_ok:
  "store_inv s \<Longrightarrow> win_ok n p (case store_win s n p of Some w \<Rightarrow> w | None \<Rightarrow> ring_New 25)"
  by (auto simp: store_inv_def win_ok_New split: option.split)

lemma store_inv_Add:
  assumes "store_inv s"
  shows "store_inv (Store_Add now s m)"
proof -
  note w = win_ok_Add [OF store_win_ok [OF assms, of "m_Name m" "m_Peer m"], of now]
  have "wf_map (Store_Add now s m)" "\<forall>n bp. map_of (Store_Add now s m) n = Some bp \<longrightarrow> wf_map bp"
    using assms by (auto simp: store_inv_def Store_Add_def Let_def map_get_def split: option.splits)
  moreover have "win_ok n p v \<and> Window_All v \<noteq> []" if "store_win (Store_Add now s m) n p = Some v" for n p v
  proof (cases "n = m_Name m \<and> p = m_Peer m")
    case True
    with that have "v = Window_Add now (case store_win s (m_Name m) (m_Peer m) of Some w \<Rightarrow> w | None \<Rightarrow> ring_New 25) m"
      by (simp add: store_win_Add)
    with True w show ?thesis by simp
  next
    case False
    with that assms show ?thesis unfolding store_inv_def store_win_Add by metis
  qed
  ultimately show ?thesis unfolding store_inv_def by blast
qed

lemma store_inv_Remove:
  assumes "store_inv s"
  shows "store_inv (RemovePeer s q)" "store_inv (RemovePeerMetrics s q n)"
proof -
  have "\<forall>n bp. map_of (RemovePeer s q) n = Some bp \<longrightarrow> wf_map bp"
    using assms by (auto simp: store_inv_def map_of_RemovePeer)
  then show "store_inv (RemovePeer s q)"
    using assms by (auto simp: store_inv_def store_win_RemovePeer wf_RemovePeer)
  have "wf_map (RemovePeerMetrics s q n)" "\<forall>n' bp. map_of (RemovePeerMetrics s q n) n' = Some bp \<longrightarrow> wf_map bp"
    using assms by (auto simp: store_inv_def RemovePeerMetrics_def split: option.splits)
  then show "store_inv (RemovePeerMetrics s q n)"
    using assms by (auto simp: store_inv_def store_win_RemovePeerMetrics)
qed

lemma store_inv_New: "store_inv NewStore"
  by (simp add: store_inv_def NewStore_def store_win_def)

text \<open>What was logged for a name and a peer, from the operations on a store, newest first.\<close>

datatype store_op = OpAdd gotime Metric | OpRemovePeer peer_id | OpRemovePeerMetrics peer_id string

primrec store_step :: "Store \<Rightarrow> store_op \<Rightarrow> Store" where
  "store_step s (OpAdd now m) = Store_Add now s m"
| "store_step s (OpRemovePeer p) = RemovePeer s p"
| "store_step s (OpRemovePeerMetrics p n) = RemovePeerMetrics s p n"

definition store_run :: "store_op list \<Rightarrow> Store" where
  "store_run ops = foldl store_step NewStore ops"

fun logged :: "store_op list \<Rightarrow> string \<Rightarrow> peer_id \<Rightarrow> Metric list" where
  "logged [] n p = []"
| "logged (OpAdd now m # ops) n p =
     (if n = m_Name m \<and> p = m_Peer m then m\<lparr>m_ReceivedAt := now\<rparr> # logged ops n p else logged ops n p)"
| "logged (OpRemovePeer q # ops) n p = (if p = q then [] else logged ops n p)"
| "logged (OpRemovePeerMetrics q n' # ops) n p = (if p = q \<and> n = n' then [] else logged ops n p)"

lemma store_run_inv: "store_inv (store_run ops)"
proof (induction ops rule: rev_induct)
  case (snoc x ops)
  then show ?case by (cases x) (auto simp: store_run_def intro: store_inv_Add store_inv_Remove)
qed (simp add: store_run_def store_inv_New)

lemma PeerMetricAll_win: "PeerMetricAll s n p = (case store_win s n p of None \<Rightarrow> [] | Some w \<Rightarrow> Window_All w)"
  by (simp add: PeerMetricAll_def store_win_def split: option.split)

lemma PeerMetricAll_run: "PeerMetricAll (store_run ops) n p = take 25 (logged (rev ops) n p)"
proof (induction ops rule: rev_induct)
  case Nil
  then show ?case by (simp add: store_run_def PeerMetricAll_win NewStore_def store_win_def)
next
  case (snoc x ops)
  have step: "store_run (ops @ [x]) = store_step (store_run ops) x" by (simp add: store_run_def)
  show ?case
  proof (cases x)
    case (OpAdd now m)
    show ?thesis
    proof (cases "n = m_Name m \<and> p = m_Peer m")
      case True
      let ?w = "case store_win (store_run ops) n p of Some w \<Rightarrow> w | None \<Rightarrow> ring_New 25"
      have "win_ok (m_Name m) (m_Peer m) ?w" using True store_win_ok [OF store_run_inv] by simp
      note w = win_ok_Add(2) [OF this]
      have "Window_All ?w = take 25 (logged (rev ops) n p)"
        using snoc wf_win_New [of 25] by (simp add: PeerMetricAll_win split: option.splits)
      have "PeerMetricAll (store_run (ops @ [x])) n p = Window_All (Window_Add now ?w m)"
        using True unfolding step by (simp add: OpAdd PeerMetricAll_win store_win_Add)
      also have "\<dots> = take 25 (m\<lparr>m_ReceivedAt := now\<rparr> # Window_All ?w)"
        by (rule w)
      also have "\<dots> = take 25 (logged (rev (ops @ [x])) n p)"
        using True \<open>Window_All ?w = _\<close> by (simp add: OpAdd take_Cons')
      finally show ?thesis .
    next
      case False
      then show ?thesis using snoc unfolding step by (auto simp: OpAdd PeerMetricAll_win store_win_Add)
    qed
  next
    case (OpRemovePeer q)
    then show ?thesis using snoc unfolding step by (simp add: PeerMetricAll_win store_win_RemovePeer)
  next
    case (OpRemovePeerMetrics q n')
    then show ?thesis using snoc unfolding step by (simp add: PeerMetricAll_win store_win_RemovePeerMetrics)
  qed
qed

lemma PeerLatest_inv:
  assumes "store_inv s"
  shows "PeerLatest s n p = (case PeerMetricAll s n p of [] \<Rightarrow> zero_Metric | m # _ \<Rightarrow> if n = [] then zero_Metric else m)"
proof (cases "store_win s n p")
  case None
  then show ?thesis by (auto simp: PeerLatest_def PeerMetricAll_win store_win_def split: option.splits)
next
  case (Some w)
  then have w: "wf_win w" "\<forall>m \<in> set (Window_All w). m_Name m = n" using assms by (auto simp: store_inv_def win_ok_def)
  have "PeerLatest s n p = (case Window_Latest w of Inl err \<Rightarrow> zero_Metric | Inr m \<Rightarrow> m)"
    using Some by (auto simp: PeerLatest_def store_win_def split: Option.bind_splits)
  then show ?thesis
    using w Some by (auto simp: Window_Latest_all PeerMetricAll_win Metric_Defined_def split: list.splits)
qed

text \<open>
  C18. The store refines a log. After any sequence of \<open>Add\<close>, \<open>RemovePeer\<close> and \<open>RemovePeerMetrics\<close> on a new
  store, \<open>PeerMetricAll\<close> returns the last 25 metrics added for that name and peer since they were last
  removed, newest first, and \<open>PeerLatest\<close> the newest of them (the zero metric when there is none or
  when the name is empty).
\<close>

theorem Store_refines_log:
  "PeerMetricAll (store_run ops) n p = take 25 (logged (rev ops) n p) \<and>
   PeerLatest (store_run ops) n p =
     (case logged (rev ops) n p of [] \<Rightarrow> zero_Metric | m # _ \<Rightarrow> if n = [] then zero_Metric else m)"
  using PeerMetricAll_run [of ops n p] PeerLatest_inv [OF store_run_inv, of ops n p]
  by (auto split: list.split)

section \<open>The latest valid metrics\<close>

definition valid_of :: "gotime \<Rightarrow> Window \<Rightarrow> Metric list" where
  "valid_of now window = (case Window_Latest window of Inl err \<Rightarrow> [] | Inr m \<Rightarrow> if Metric_Discard now m then [] else [m])"

lemma LatestValid_valid_of:
  "LatestValid now s n = (case map_of s n of None \<Rightarrow> []
     | Some byPeer \<Rightarrow> sort_slice MetricSlice_Less (concat (map (\<lambda>(_, w). valid_of now w) byPeer)))"
  unfolding LatestValid_def valid_of_def Let_def ..

lemma MetricSlice_Less_order:
  "MetricSlice_Less x y \<Longrightarrow> \<not> MetricSlice_Less z y \<Longrightarrow> MetricSlice_Less x z"
  "MetricSlice_Less x y \<Longrightarrow> \<not> MetricSlice_Less y x"
  by (auto simp: MetricSlice_Less_def split: if_splits)

lemma valid_of_ok:
  assumes "win_ok n p w"
  shows "set (valid_of now w) = {m. \<exists>ms. Window_All w = m # ms \<and> n \<noteq> [] \<and> \<not> Metric_Discard now m}"
    and "length (valid_of now w) \<le> 1" and "\<forall>m \<in> set (valid_of now w). m_Peer m = p \<and> m_Name m = n"
proof -
  have w: "wf_win w" "\<forall>m \<in> set (Window_All w). m_Name m = n \<and> m_Peer m = p" using assms by (auto simp: win_ok_def)
  show "set (valid_of now w) = {m. \<exists>ms. Window_All w = m # ms \<and> n \<noteq> [] \<and> \<not> Metric_Discard now m}"
    using w by (cases "Window_All w") (auto simp: valid_of_def Window_Latest_all Metric_Defined_def)
  then show "\<forall>m \<in> set (valid_of now w). m_Peer m = p \<and> m_Name m = n" using w by auto
  show "length (valid_of now w) \<le> 1" by (simp add: valid_of_def split: sum.split)
qed

lemma distinct_valid_of:
  assumes "wf_map bp" "\<forall>(p, w) \<in> set bp. win_ok n p w"
  shows "distinct (map m_Peer (concat (map (\<lambda>(_, w). valid_of now w) bp)))"
  using assms
proof (induction bp)
  case (Cons a bp)
  obtain p w where a: "a = (p, w)" by (cases a)
  have w: "win_ok n p w" and p: "p \<notin> fst ` set bp" using Cons.prems a by (auto simp: wf_map_Cons)
  have "distinct (map m_Peer (valid_of now w))"
    using valid_of_ok(2) [OF w, of now] by (cases "valid_of now w") auto
  moreover have "m_Peer m \<noteq> p" if "(q, v) \<in> set bp" "m \<in> set (valid_of now v)" for q v m
  proof -
    have "m_Peer m = q" using valid_of_ok(3) [of n q v now] Cons.prems that by auto
    then show ?thesis using p that(1) by force
  qed
  ultimately show ?case
    using Cons valid_of_ok(3) [OF w, of now] by (force simp: a wf_map_Cons)
qed simp

lemma sorted_strict:
  "sorted_wrt (\<lambda>x y. \<not> MetricSlice_Less y x) ms \<Longrightarrow> distinct (map m_Peer ms) \<Longrightarrow>
     sorted_wrt (\<lambda>a b. m_Peer a < m_Peer b) ms"
  by (induction ms) (auto simp: MetricSlice_Less_def not_less order.strict_iff_order split: if_splits)

lemma LatestValid_spec:
  assumes s: "store_inv s"
  shows "set (LatestValid now s n) = {m. \<exists>p ms. PeerMetricAll s n p = m # ms \<and> n \<noteq> [] \<and> \<not> Metric_Discard now m}"
      (is "_ = ?V")
    and "sorted_wrt (\<lambda>a b. m_Peer a < m_Peer b) (LatestValid now s n)"
    and "\<forall>m \<in> set (LatestValid now s n). m_Name m = n"
proof -
  have "set (LatestValid now s n) = ?V \<and> sorted_wrt (\<lambda>a b. m_Peer a < m_Peer b) (LatestValid now s n) \<and>
      (\<forall>m \<in> set (LatestValid now s n). m_Name m = n)"
  proof (cases "map_of s n")
    case None
    then show ?thesis by (simp add: LatestValid_def PeerMetricAll_def)
  next
    case (Some bp)
    have bp: "wf_map bp" using s Some by (auto simp: store_inv_def)
    have win: "store_win s n p = map_of bp p" for p by (simp add: store_win_def Some)
    have ok: "\<forall>(p, w) \<in> set bp. win_ok n p w"
      using s by (auto simp: store_inv_def win bp map_of_in_set [OF bp, symmetric])
    let ?ms = "concat (map (\<lambda>(_, w). valid_of now w) bp)"
    have L: "LatestValid now s n = sort_slice MetricSlice_Less ?ms" by (simp add: LatestValid_valid_of Some)
    have "m \<in> set ?ms \<longleftrightarrow> (\<exists>p w. map_of bp p = Some w \<and> m \<in> set (valid_of now w))" for m
      by (auto simp: map_of_in_set [OF bp])
    moreover have "m \<in> set (valid_of now w) \<longleftrightarrow> (\<exists>ms. PeerMetricAll s n p = m # ms \<and> n \<noteq> [] \<and> \<not> Metric_Discard now m)"
      if "map_of bp p = Some w" for p w m
    proof -
      have "win_ok n p w" using ok that by (auto simp: map_of_in_set [OF bp])
      from valid_of_ok(1) [OF this] show ?thesis using that by (simp add: PeerMetricAll_win win)
    qed
    moreover have "PeerMetricAll s n p = []" if "map_of bp p = None" for p
      using that by (simp add: PeerMetricAll_win win)
    ultimately have "set ?ms = ?V" by (smt (verit) Collect_cong list.distinct(1) not_Some_eq Collect_mem_eq)
    moreover have "sorted_wrt (\<lambda>x y. \<not> MetricSlice_Less y x) (LatestValid now s n)"
      unfolding L by (rule sorted_sort_slice) (use MetricSlice_Less_order in blast)+
    moreover have "distinct (map m_Peer (LatestValid now s n))"
      using distinct_valid_of [OF bp ok, of now] mset_eq_imp_distinct_iff [of "map m_Peer (LatestValid now s n)" "map m_Peer ?ms"]
      by (simp add: L)
    moreover have "\<forall>m \<in> set ?ms. m_Name m = n" using valid_of_ok(3) ok by fastforce
    ultimately show ?thesis using sorted_strict [of "LatestValid now s n"] by (simp add: L)
  qed
  then show "set (LatestValid now s n) = ?V" "sorted_wrt (\<lambda>a b. m_Peer a < m_Peer b) (LatestValid now s n)"
    "\<forall>m \<in> set (LatestValid now s n). m_Name m = n" by blast+
qed

lemma PeersetFilter_filter: "PeersetFilter ms ps = filter (\<lambda>m. m_Peer m \<in> set ps) ms"
proof -
  have "map_has (foldl (\<lambda>pm pid. map_put pid () pm) m ps) p \<longleftrightarrow> p \<in> set ps \<or> map_has m p" for m p
    by (induction ps arbitrary: m) (auto simp: map_has_def)
  then show ?thesis by (simp add: PeersetFilter_def map_has_def)
qed

definition in_peerset :: "Monitor \<Rightarrow> peer_id \<Rightarrow> bool" where
  "in_peerset mon p = (case mon_peers mon of None \<Rightarrow> True | Some (Inl err) \<Rightarrow> False | Some (Inr peers) \<Rightarrow> p \<in> set peers)"

lemma LatestMetrics_filter:
  "LatestMetrics now mon n = filter (\<lambda>m. in_peerset mon (m_Peer m)) (LatestValid now (mon_metrics mon) n)"
  by (simp add: LatestMetrics_def Let_def in_peerset_def PeersetFilter_filter split: option.split sum.split)

text \<open>
  What \<open>LatestMetrics\<close> returns. For a monitor whose store saw any sequence of operations: exactly the
  metrics that are the newest of their name and peer, are valid and have not expired, and come from a
  peer of the current peer set (all peers if there is no provider, none if it fails); in order of
  peer ID, so no peer appears twice.
\<close>

theorem LatestMetrics_spec:
  "set (LatestMetrics now (mon\<lparr>mon_metrics := store_run ops\<rparr>) n) =
     {m. \<exists>p ms. logged (rev ops) n p = m # ms \<and> n \<noteq> [] \<and> \<not> Metric_Discard now m \<and> in_peerset mon p} \<and>
   sorted_wrt (\<lambda>a b. m_Peer a < m_Peer b) (LatestMetrics now (mon\<lparr>mon_metrics := store_run ops\<rparr>) n)"
proof -
  let ?m' = "mon\<lparr>mon_metrics := store_run ops\<rparr>"
  have peer: "m_Peer m = p" if "logged xs n p = m # ms" for m p ms xs
    using that by (induction xs n p rule: logged.induct) (auto split: if_splits)
  have "PeerMetricAll (store_run ops) n p = m # ms \<Longrightarrow> \<exists>ms. logged (rev ops) n p = m # ms" for p m ms
    by (cases "logged (rev ops) n p") (auto simp: PeerMetricAll_run)
  moreover have "logged (rev ops) n p = m # ms \<Longrightarrow> \<exists>ms. PeerMetricAll (store_run ops) n p = m # ms" for p m ms
    by (simp add: PeerMetricAll_run)
  ultimately have "set (LatestValid now (store_run ops) n) =
      {m. \<exists>p ms. logged (rev ops) n p = m # ms \<and> n \<noteq> [] \<and> \<not> Metric_Discard now m}"
    unfolding LatestValid_spec(1) [OF store_run_inv] by blast
  moreover have "in_peerset ?m' = in_peerset mon" by (simp add: in_peerset_def fun_eq_iff)
  ultimately show ?thesis
    using LatestValid_spec(2) [OF store_run_inv, of now ops n] peer
    by (auto simp: LatestMetrics_filter sorted_wrt_filter)
qed

section \<open>The monitor behind allocations\<close>

text \<open>
  The peers of the peer set have non-empty identifiers; without a peer set provider, the metrics do.
\<close>

definition monitor_inv :: "Monitor \<Rightarrow> bool" where
  "monitor_inv mon \<longleftrightarrow> store_inv (mon_metrics mon) \<and>
     (case mon_peers mon of
        None \<Rightarrow> (\<forall>n. PeerMetricAll (mon_metrics mon) n [] = [])
      | Some (Inl err) \<Rightarrow> True
      | Some (Inr peers) \<Rightarrow> [] \<notin> set peers)"

lemma LatestMetrics_one_per_peer:
  assumes "monitor_inv mon"
  shows "one_per_peer n (LatestMetrics now mon n)"
proof -
  have s: "store_inv (mon_metrics mon)" using assms by (simp add: monitor_inv_def)
  note spec = LatestValid_spec [OF s, of now n]
  have "distinct (map m_Peer (LatestValid now (mon_metrics mon) n))"
    using spec(2) unfolding sorted_wrt_map [of "(<)" m_Peer, symmetric] strict_sorted_iff by blast
  moreover have "m_Peer m \<noteq> []" if "m \<in> set (LatestMetrics now mon n)" for m
  proof
    assume p: "m_Peer m = []"
    have m: "m \<in> set (LatestValid now (mon_metrics mon) n)" "in_peerset mon []"
      using that p by (auto simp: LatestMetrics_filter)
    then obtain p ms where "PeerMetricAll (mon_metrics mon) n p = m # ms" using spec(1) by blast
    moreover from this obtain w where "store_win (mon_metrics mon) n p = Some w" "m \<in> set (Window_All w)"
      by (auto simp: PeerMetricAll_win split: option.splits)
    then have "m_Peer m = p" using s by (auto simp: store_inv_def win_ok_def)
    ultimately show False using assms m(2) p
      by (auto simp: monitor_inv_def in_peerset_def split: option.splits sum.splits)
  qed
  ultimately show ?thesis using spec(3)
    by (auto simp: one_per_peer_def list_all_iff LatestMetrics_filter distinct_map_filter)
qed

interpretation psmon: peer_monitor monitor_inv LatestMetrics
  by unfold_locales (rule LatestMetrics_one_per_peer)

interpretation clalloc: allocation balanced_valid "\<lambda>AllocateBy. AllocateBy" Allocate monitor_inv LatestMetrics ..

lemma monitor_inv_log:
  assumes "monitor_inv mon" "mon_peers mon \<noteq> None \<or> m_Peer m \<noteq> []"
  shows "monitor_inv (LogMetric now mon m)"
proof -
  have "PeerMetricAll (Store_Add now (mon_metrics mon) m) n [] = PeerMetricAll (mon_metrics mon) n []"
    if "m_Peer m \<noteq> []" for n using that by (simp add: PeerMetricAll_win store_win_Add)
  then show ?thesis using assms store_inv_Add [of "mon_metrics mon" now m]
    by (auto simp: monitor_inv_def LogMetric_def Let_def split: option.splits sum.splits)
qed

text \<open>
  C6. Allocations. With the balanced allocator and the pubsub monitor, and replication factors
  \<open>0 < rmin \<le> rmax\<close>: \<open>allocate\<close> fails exactly when fewer peers than \<open>rmin\<close> have all the metrics and are
  not excluded; it leaves the allocations as they are when enough and not too many of them are such
  peers; otherwise it returns as many different such peers as there are up to \<open>rmax\<close>, keeping the
  valid current allocations when there were too few, and preferred peers before any others.
\<close>

theorem allocate_balanced:
  assumes "balanced_valid by" "monitor_inv mon" "0 < rmin" "rmin \<le> rmax"
  shows "allocation_ok (eligible cfg by (LatestMetrics now mon) blacklist)
     (if Pin_Defined pin then pin_Allocations pin else []) priorityList rmin rmax
     (allocate cfg (Allocate by) by (LatestMetrics now mon) pin rmin rmax blacklist priorityList)"
  using assms by (rule clalloc.allocate_correct)

definition example_log :: "store_op list" where
  "example_log = map (\<lambda>(p, w). OpAdd 10 (example_metric ''freespace'' p ''x'' w False)) [(''p1'', 5), (''p2'', 9), (''p3'', 7)]"

definition example_monitor :: Monitor where
  "example_monitor = (Monitor_New (Some (Inr [''p1'', ''p2'', ''p3''])))\<lparr>mon_metrics := store_run example_log\<rparr>"

definition example_alloc_config :: alloc_config where
  "example_alloc_config = \<lparr>ac_PinOnlyOnTrustedPeers = False, ac_PinOnlyOnUntrustedPeers = False, ac_IsTrustedPeer = (\<lambda>p. True)\<rparr>"

lemma example_monitor_inv: "monitor_inv example_monitor"
  by (simp add: monitor_inv_def example_monitor_def store_run_inv Monitor_New_def)

theorem allocate_balanced_witness:
  "allocation_ok (eligible example_alloc_config [''freespace''] (LatestMetrics 20 example_monitor) []) [] [''p1''] 1 2
     (allocate example_alloc_config (Allocate [''freespace'']) [''freespace''] (LatestMetrics 20 example_monitor)
        zero_Pin 1 2 [] [''p1''])"
proof -
  have "balanced_valid [''freespace'']" by (simp add: balanced_valid_def)
  from allocate_balanced [OF this example_monitor_inv, of 1 2 example_alloc_config 20 "[]" zero_Pin "[''p1'']"]
  show ?thesis by (simp add: Pin_Defined_def zero_Pin_def)
qed

lemma example_allocation:
  "allocate example_alloc_config (Allocate [''freespace'']) [''freespace''] (LatestMetrics 20 example_monitor)
     zero_Pin 1 2 [] [''p1''] = Inr [''p1'', ''p2'']"
  by code_simp

end
