(* ===== verification/Monitor_Alerts.thy ===== *)
theory Monitor_Alerts
  imports Metrics_Store
begin

text \<open>
  The alerts of \<open>monitor/metrics/checker.go\<close> and runs of the monitor of \<open>monitor/pubsubmon\<close>: when an
  alert is sent, when it is repeated or lost, what a new metric resets, and the bounds on what the
  monitor keeps.
\<close>

section \<open>Alerts\<close>

text \<open>How often a metric of a peer has alerted in a row.\<close>

definition alert_count :: "Checker \<Rightarrow> peer_id \<Rightarrow> string \<Rightarrow> int" where
  "alert_count mc p n = map_get 0 (map_get [] (chk_failedPeers mc) p) n"

definition counts_ok :: "(string, int) gomap \<Rightarrow> bool" where
  "counts_ok fm \<longleftrightarrow> fm \<noteq> [] \<and> wf_map fm \<and> (\<forall>n c. map_of fm n = Some c \<longrightarrow> 1 \<le> c \<and> c < 300)"

text \<open>
  The channel is within its capacity; every peer listed has failed metrics, and each has alerted
  less than 300 times.
\<close>

definition chk_inv :: "Checker \<Rightarrow> bool" where
  "chk_inv mc \<longleftrightarrow> length (chk_alertCh mc) \<le> AlertChannelCap \<and> wf_map (chk_failedPeers mc) \<and>
     (\<forall>p fm. map_of (chk_failedPeers mc) p = Some fm \<longrightarrow> counts_ok fm)"

definition alert_for :: "gotime \<Rightarrow> Store \<Rightarrow> peer_id \<Rightarrow> string \<Rightarrow> Alert" where
  "alert_for now s p n =
     \<lparr>al_Metric = (if \<not> Metric_Defined (PeerLatest s n p) then zero_Metric\<lparr>m_Name := n, m_Peer := p\<rparr> else PeerLatest s n p),
      al_TriggeredAt = now\<rparr>"

lemma map_put_not_Nil [simp]: "map_put k v m \<noteq> []"
  by (cases m) (auto split: if_splits)

lemma counts_ok_put: "counts_ok fm \<or> fm = [] \<Longrightarrow> 1 \<le> c \<Longrightarrow> c < 300 \<Longrightarrow> counts_ok (map_put n c fm)"
  by (auto simp: counts_ok_def wf_map_Cons)

lemma map_delete_Nil [simp]: "map_delete k [] = []"
  by (simp add: map_delete_def)

lemma counts_ok_delete: "counts_ok fm \<or> fm = [] \<Longrightarrow> map_delete n fm \<noteq> [] \<Longrightarrow> counts_ok (map_delete n fm)"
  by (auto simp: counts_ok_def split: if_splits)

lemma map_delete_put: "map_delete n (map_put n c fm) = map_delete n fm"
  by (induction n c fm rule: map_put.induct) (auto simp: map_delete_def)

lemma map_of_forget:
  "map_of (forget_metric fp p fm n) q =
     (if q = p then (if map_delete n fm = [] then None else Some (map_delete n fm)) else map_of fp q)"
  by (simp add: forget_metric_def Let_def)

lemma wf_forget: "wf_map fp \<Longrightarrow> wf_map (forget_metric fp p fm n)"
  by (simp add: forget_metric_def Let_def)

lemma alert_count_range: "chk_inv mc \<Longrightarrow> 0 \<le> alert_count mc p n \<and> alert_count mc p n < 300"
  by (auto simp: alert_count_def map_get_def chk_inv_def counts_ok_def split: option.split)
    (meson order.trans zero_le_one)+

lemma map_get_delete: "map_get z (map_delete k m) k' = (if k' = k then z else map_get z m k')"
  by (simp add: map_get_def)

lemma alert_count_forget:
  "alert_count (mc\<lparr>chk_failedPeers := forget_metric (chk_failedPeers mc) p fm n\<rparr>) q n' =
     (if q = p then map_get 0 (map_delete n fm) n' else alert_count mc q n')"
  by (cases "map_delete n fm = []") (simp_all add: alert_count_def map_get_def map_of_forget)

lemma Checker_alert_step:
  assumes inv: "chk_inv mc"
    and room: "length (chk_alertCh mc) < AlertChannelCap \<or> alert_count mc p n \<noteq> 0"
  shows "\<exists>mc'. Checker_alert now s mc p n = (mc', None) \<and> chk_inv mc' \<and>
    chk_alertCh mc' = chk_alertCh mc @ (if alert_count mc p n = 0 then [alert_for now s p n] else []) \<and>
    (\<forall>q n'. alert_count mc' q n' =
       (if q = p \<and> n' = n then (alert_count mc p n + 1) mod 300 else alert_count mc q n'))"
proof -
  let ?fm = "map_get [] (chk_failedPeers mc) p"
  have fm: "counts_ok ?fm \<or> ?fm = []"
    using inv by (auto simp: chk_inv_def map_get_def split: option.split)
  have c: "0 \<le> map_get 0 ?fm n" "map_get 0 ?fm n < 300"
    using alert_count_range [OF inv, of p n] by (simp_all add: alert_count_def)
  consider (first) "map_get 0 ?fm n = 0" | (more) "0 < map_get 0 ?fm n" "map_get 0 ?fm n + 1 < 300"
    | (last) "map_get 0 ?fm n = 299" using c by linarith
  then show ?thesis
  proof cases
    case first
    then have "length (chk_alertCh mc) < AlertChannelCap" using room by (simp add: alert_count_def)
    with first show ?thesis using inv counts_ok_put [OF fm, of 1 n]
      by (auto simp: Checker_alert_def Let_def MaxAlertThreshold_def chk_inv_def alert_count_def alert_for_def)
  next
    case more
    then show ?thesis using inv counts_ok_put [OF fm, of "map_get 0 ?fm n + 1" n]
      by (auto simp: Checker_alert_def Let_def MaxAlertThreshold_def chk_inv_def alert_count_def)
  next
    case last
    let ?mc = "mc\<lparr>chk_failedPeers := forget_metric (chk_failedPeers mc) p (map_put n 300 ?fm) n\<rparr>"
    have "Checker_alert now s mc p n = (?mc, None)"
      using last by (simp add: Checker_alert_def Let_def MaxAlertThreshold_def)
    moreover have "chk_inv ?mc"
      using inv counts_ok_delete [OF fm] by (auto simp: chk_inv_def map_of_forget wf_forget map_delete_put)
    moreover have "alert_count ?mc q n' = (if q = p \<and> n' = n then 0 else alert_count mc q n')" for q n'
      unfolding alert_count_forget map_delete_put by (auto simp: map_get_delete alert_count_def)
    ultimately show ?thesis using last by (auto simp: alert_count_def)
  qed
qed

lemma Checker_alert_full:
  assumes inv: "chk_inv mc" and full: "length (chk_alertCh mc) = AlertChannelCap" "alert_count mc p n = 0"
  shows "\<exists>mc'. Checker_alert now s mc p n = (mc', Some ErrAlertChannelFull) \<and> chk_inv mc' \<and>
    chk_alertCh mc' = chk_alertCh mc \<and> alert_count mc' p n = 1"
proof -
  have "counts_ok (map_get [] (chk_failedPeers mc) p) \<or> map_get [] (chk_failedPeers mc) p = []"
    using inv by (auto simp: chk_inv_def map_get_def split: option.split)
  from counts_ok_put [OF this, of 1 n] show ?thesis using inv full
    by (auto simp: Checker_alert_def Let_def MaxAlertThreshold_def chk_inv_def alert_count_def)
qed

lemma chk_inv_alert:
  assumes "chk_inv mc"
  shows "chk_inv (fst (Checker_alert now s mc p n))"
proof (cases "length (chk_alertCh mc) < AlertChannelCap \<or> alert_count mc p n \<noteq> 0")
  case True
  then show ?thesis using Checker_alert_step [OF assms True, of now s] by auto
next
  case False
  then have "length (chk_alertCh mc) = AlertChannelCap" "alert_count mc p n = 0"
    using assms by (simp_all add: chk_inv_def)
  from Checker_alert_full [OF assms this, of now s] show ?thesis by auto
qed

lemma chk_inv_check: "chk_inv mc \<Longrightarrow> chk_inv (fst (check_metrics now s mc ks))"
proof (induction now s mc ks rule: check_metrics.induct)
  case (2 now metrics mc name peer rest)
  obtain mc' e where a: "Checker_alert now metrics mc peer name = (mc', e)" by (cases "Checker_alert now metrics mc peer name")
  then have "chk_inv mc'" using chk_inv_alert [OF 2(3)] by (metis fst_conv)
  then show ?case using 2 a by (cases e) auto
qed simp

lemma chk_inv_reset: "chk_inv mc \<Longrightarrow> chk_inv (ResetAlerts mc p n)"
  by (auto simp: ResetAlerts_def chk_inv_def map_of_forget wf_forget counts_ok_delete split: option.split if_splits)

text \<open>
  A run of the monitor: metrics arrive, the checker ticks, the cluster takes alerts from the channel,
  and the monitor is shut down, in any order. \<open>peers\<close> is what the peer set provider says at a tick.
\<close>

datatype monitor_event =
    EvMetric gotime Metric
  | EvTick gotime "(unit + peer_id list) option"
  | EvReceiveAlert
  | EvShutdown

primrec monitor_step :: "Monitor \<Rightarrow> monitor_event \<Rightarrow> Monitor" where
  "monitor_step mon (EvMetric now m) = LogMetric now mon m"
| "monitor_step mon (EvTick now peers) = Monitor_Watch now (mon\<lparr>mon_peers := peers\<rparr>)"
| "monitor_step mon EvReceiveAlert =
     mon\<lparr>mon_checker := (mon_checker mon)\<lparr>chk_alertCh := tl (chk_alertCh (mon_checker mon))\<rparr>\<rparr>"
| "monitor_step mon EvShutdown = Monitor_Shutdown mon"

definition monitor_run :: "(unit + peer_id list) option \<Rightarrow> monitor_event list \<Rightarrow> Monitor" where
  "monitor_run peers evs = foldl monitor_step (Monitor_New peers) evs"

lemma monitor_step_inv:
  assumes "store_inv (mon_metrics mon) \<and> chk_inv (mon_checker mon)"
  shows "store_inv (mon_metrics (monitor_step mon e)) \<and> chk_inv (mon_checker (monitor_step mon e))"
proof (cases e)
  case (EvMetric now m)
  then show ?thesis using assms by (simp add: LogMetric_def Let_def store_inv_Add chk_inv_reset)
next
  case (EvTick now peers)
  have "chk_inv (Watch_tick now peers (mon_metrics mon) (mon_checker mon))"
    using assms by (auto simp: Watch_tick_def CheckPeers_def CheckAll_def chk_inv_check split: option.split sum.split)
  then show ?thesis using assms EvTick by (simp add: Monitor_Watch_def)
next
  case EvReceiveAlert
  then show ?thesis using assms by (auto simp: chk_inv_def)
next
  case EvShutdown
  then show ?thesis using assms by (simp add: Monitor_Shutdown_def)
qed

lemma monitor_run_inv:
  "store_inv (mon_metrics (monitor_run peers evs)) \<and> chk_inv (mon_checker (monitor_run peers evs))"
proof (induction evs rule: rev_induct)
  case Nil
  then show ?case by (simp add: monitor_run_def Monitor_New_def store_inv_New chk_inv_def NewChecker_def)
next
  case (snoc e evs)
  then show ?case using monitor_step_inv by (simp add: monitor_run_def)
qed

lemma wf_win_length: "wf_win w \<Longrightarrow> length (Window_All w) \<le> ring_Len w"
proof -
  assume "wf_win w"
  then obtain k where "ring_cur w < ring_Len w" "ring_Do w = replicate k None @ map Some (rev (Window_All w))"
    by (auto simp: wf_win_def)
  with length_ring_Do [of w] have "ring_Len w = k + length (Window_All w)" by simp
  then show ?thesis by simp
qed

lemma PeerMetricAll_names: "store_inv s \<Longrightarrow> \<forall>m \<in> set (PeerMetricAll s n p). m_Name m = n \<and> m_Peer m = p"
  by (cases "store_win s n p") (auto simp: PeerMetricAll_win store_inv_def win_ok_def)

lemma PeerMetricAll_length: "store_inv s \<Longrightarrow> length (PeerMetricAll s n p) \<le> 25"
  using wf_win_length by (cases "store_win s n p") (fastforce simp: PeerMetricAll_win store_inv_def win_ok_def)+

text \<open>
  The monitor's memory is bounded. After any run, at most 25 metrics are kept for a name and a peer,
  all of them of that name and peer, the alert channel holds at most 256 alerts, and a metric of a peer
  that is marked as failed has alerted between 1 and 299 times.
\<close>

theorem monitor_bounds:
  "length (PeerMetricAll (mon_metrics (monitor_run peers evs)) n p) \<le> 25 \<and>
   list_all (\<lambda>m. m_Name m = n \<and> m_Peer m = p) (PeerMetricAll (mon_metrics (monitor_run peers evs)) n p) \<and>
   length (chk_alertCh (mon_checker (monitor_run peers evs))) \<le> AlertChannelCap \<and>
   0 \<le> alert_count (mon_checker (monitor_run peers evs)) p n \<and>
   alert_count (mon_checker (monitor_run peers evs)) p n < 300"
proof -
  let ?s = "mon_metrics (monitor_run peers evs)" and ?c = "mon_checker (monitor_run peers evs)"
  have inv: "store_inv ?s" "chk_inv ?c" using monitor_run_inv by blast+
  have "length (PeerMetricAll ?s n p) \<le> 25 \<and> list_all (\<lambda>m. m_Name m = n \<and> m_Peer m = p) (PeerMetricAll ?s n p)"
    using PeerMetricAll_names [OF inv(1)] PeerMetricAll_length [OF inv(1)] by (simp add: list_all_iff)
  moreover have "length (chk_alertCh ?c) \<le> AlertChannelCap" using inv(2) by (simp add: chk_inv_def)
  ultimately show ?thesis using alert_count_range [OF inv(2), of p n] by blast
qed

section \<open>A pass of the checker\<close>







text \<open>The metrics of a list that have not alerted yet.\<close>

definition silent :: "Checker \<Rightarrow> (string \<times> peer_id) list \<Rightarrow> (string \<times> peer_id) set" where
  "silent mc ks = {(n, p) \<in> set ks. alert_count mc p n = 0}"


lemma finite_silent [simp]: "finite (silent mc ks)"
  unfolding silent_def by (rule finite_subset [OF _ finite_set [of ks]]) auto












text \<open>
  An alert that does not fit into the channel is lost. \<open>CheckPeers\<close> is to alert for expired metrics
  as long as no alert has been sent, but the count is raised before the send: when the channel is full
  the call fails, and the next failure of the same metric sends nothing, even if the channel has been
  emptied meanwhile.
\<close>

theorem alert_lost_when_full:
  assumes "chk_inv mc" "length (chk_alertCh mc) = AlertChannelCap" "alert_count mc p n = 0"
  shows "\<exists>mc'. Checker_alert now s mc p n = (mc', Some ErrAlertChannelFull) \<and>
    (\<forall>now' s'. \<exists>mc''. Checker_alert now' s' (mc'\<lparr>chk_alertCh := []\<rparr>) p n = (mc'', None) \<and> chk_alertCh mc'' = [])"
proof -
  obtain mc' where mc': "Checker_alert now s mc p n = (mc', Some ErrAlertChannelFull)" "chk_inv mc'" "alert_count mc' p n = 1"
    using Checker_alert_full [OF assms] by blast
  have "\<exists>mc''. Checker_alert now' s' (mc'\<lparr>chk_alertCh := []\<rparr>) p n = (mc'', None) \<and> chk_alertCh mc'' = []" for now' s'
    using Checker_alert_step [of "mc'\<lparr>chk_alertCh := []\<rparr>" p n now' s'] mc'(2,3)
    by (auto simp: chk_inv_def alert_count_def)
  with mc'(1) show ?thesis by blast
qed

definition full_checker :: Checker where
  "full_checker = NewChecker\<lparr>chk_alertCh := replicate AlertChannelCap \<lparr>al_Metric = zero_Metric, al_TriggeredAt = 0\<rparr>\<rparr>"

theorem alert_lost_when_full_witness:
  "\<exists>mc'. Checker_alert 200 NewStore full_checker ''p1'' ''ping'' = (mc', Some ErrAlertChannelFull)"
proof -
  have "chk_inv full_checker" "length (chk_alertCh full_checker) = AlertChannelCap" "alert_count full_checker ''p1'' ''ping'' = 0"
    by (simp_all add: full_checker_def NewChecker_def chk_inv_def alert_count_def map_get_def)
  from alert_lost_when_full [OF this, of 200 NewStore] show ?thesis by blast
qed

text \<open>
  A new metric re-arms the alerts. After any run, logging a valid unexpired metric clears the count of
  its name and peer and no other, and makes it the metric that is checked: it counts as failed exactly
  from its expiry on.
\<close>

theorem LogMetric_rearms:
  assumes "\<not> Metric_Discard now m" "m_Name m \<noteq> []"
  shows "alert_count (mon_checker (LogMetric now (monitor_run peers evs) m)) p n =
      (if p = m_Peer m \<and> n = m_Name m then 0 else alert_count (mon_checker (monitor_run peers evs)) p n) \<and>
    (FailedMetric t (mon_metrics (LogMetric now (monitor_run peers evs) m)) (m_Name m) (m_Peer m) \<longleftrightarrow> m_Expire m < t)"
proof -
  let ?mon = "monitor_run peers evs"
  have inv: "store_inv (Store_Add now (mon_metrics ?mon) m)" using monitor_run_inv store_inv_Add by blast
  have "PeerMetricAll (Store_Add now (mon_metrics ?mon) m) (m_Name m) (m_Peer m) =
      take 25 (m\<lparr>m_ReceivedAt := now\<rparr> # Window_All (case store_win (mon_metrics ?mon) (m_Name m) (m_Peer m) of Some w \<Rightarrow> w | None \<Rightarrow> ring_New 25))"
    using monitor_run_inv win_ok_Add(2) [OF store_win_ok] by (simp add: PeerMetricAll_win store_win_Add)
  then have "PeerLatest (Store_Add now (mon_metrics ?mon) m) (m_Name m) (m_Peer m) = m\<lparr>m_ReceivedAt := now\<rparr>"
    using assms(2) by (simp add: PeerLatest_inv [OF inv])
  moreover have "alert_count (ResetAlerts (mon_checker ?mon) (m_Peer m) (m_Name m)) p n =
      (if p = m_Peer m \<and> n = m_Name m then 0 else alert_count (mon_checker ?mon) p n)"
    unfolding ResetAlerts_def
    by (auto simp: alert_count_forget map_get_delete split: option.split) (simp_all add: alert_count_def map_get_def)
  ultimately show ?thesis using assms(1) by (simp add: LogMetric_def Let_def FailedMetric_def Metric_Expired_def)
qed

theorem LogMetric_rearms_witness:
  "alert_count (mon_checker (LogMetric 10 (monitor_run None [EvShutdown]) (example_metric ''ping'' ''p1'' ''x'' 1 False)))
     ''p1'' ''ping'' = 0"
proof -
  let ?m = "example_metric ''ping'' ''p1'' ''x'' 1 False"
  have "\<not> Metric_Discard 10 ?m" "m_Name ?m \<noteq> []"
    by (simp_all add: example_metric_def Metric_Discard_def Metric_Expired_def)
  from LogMetric_rearms [OF this, of None "[EvShutdown]" "''p1''" "''ping''"] show ?thesis
    by (simp add: example_metric_def)
qed

end
