(* ===== verification/Cluster_Util.thy ===== *)
theory Cluster_Util
  imports Allocation
begin

text \<open>
  \<open>util.go\<close>: the helpers of the cluster component. \<open>distanceChecker\<close> decides which peer acts on a CID:
  the one whose hash is closest to that of the CID. The lemmas show that its cache does not matter and
  that the peers of a cluster elect exactly one of them. BLAKE2b and multiaddresses are library code: the
  hash \<open>Sum256\<close> and the parsers are arguments.
\<close>

section \<open>Peers and addresses\<close>

fun PeersFromMultiaddrs_loop ::
  "(multiaddr \<Rightarrow> string + peer_id) \<Rightarrow> multiaddr list \<Rightarrow> (peer_id, unit) gomap \<Rightarrow> peer_id list \<Rightarrow> peer_id list" where
  "PeersFromMultiaddrs_loop AddrInfo [] pm pids = pids"
| "PeersFromMultiaddrs_loop AddrInfo (addr # addrs) pm pids =
     (case AddrInfo addr of
        Inl err \<Rightarrow> PeersFromMultiaddrs_loop AddrInfo addrs pm pids
      | Inr pid \<Rightarrow>
          if \<not> map_has pm pid
          then PeersFromMultiaddrs_loop AddrInfo addrs (map_put pid () pm) (pids @ [pid])
          else PeersFromMultiaddrs_loop AddrInfo addrs pm pids)"

definition PeersFromMultiaddrs :: "(multiaddr \<Rightarrow> string + peer_id) \<Rightarrow> multiaddr list \<Rightarrow> peer_id list" where
  "PeersFromMultiaddrs AddrInfo addrs = PeersFromMultiaddrs_loop AddrInfo addrs [] []"

definition peersSubtract :: "peer_id list \<Rightarrow> peer_id list \<Rightarrow> peer_id list" where
  "peersSubtract a b =
     (let bMap = foldl (\<lambda>m p. map_put p () m) [] b
      in foldl (\<lambda>result p. if map_has bMap p then result else result @ [p]) [] a)"

definition toMultiAddrs :: "(string \<Rightarrow> string + multiaddr) \<Rightarrow> string list \<Rightarrow> string + multiaddr list" where
  "toMultiAddrs NewMultiaddr addrs = map_err NewMultiaddr addrs"

definition multiAddrstoStrings :: "(multiaddr \<Rightarrow> string) \<Rightarrow> multiaddr list \<Rightarrow> string list" where
  "multiAddrstoStrings maString mAddrs = map maString mAddrs"

text \<open>The value of a ping metric; a value that does not parse leaves the zero value.\<close>

record pingValue =
  pv_Peername :: string
  pv_IPFSID :: peer_id
  pv_IPFSAddresses :: "multiaddr list"

definition zero_pingValue :: pingValue where
  "zero_pingValue = \<lparr>pv_Peername = [], pv_IPFSID = [], pv_IPFSAddresses = []\<rparr>"

definition pingValue_Valid :: "pingValue \<Rightarrow> bool" where
  "pingValue_Valid pv \<longleftrightarrow> pv_IPFSID pv \<noteq> []"

definition pingValueFromMetric :: "(string \<Rightarrow> pingValue) \<Rightarrow> Metric \<Rightarrow> pingValue" where
  "pingValueFromMetric json_Unmarshal m = json_Unmarshal (m_Value m)"

section \<open>Distances\<close>

type_synonym distance = "8 word list"

record distanceChecker =
  dc_local :: peer_id
  dc_otherPeers :: "peer_id list"
  dc_cache :: "(peer_id, distance) gomap"

fun bytes_Compare :: "8 word list \<Rightarrow> 8 word list \<Rightarrow> int" where
  "bytes_Compare [] [] = 0"
| "bytes_Compare [] (y # ys) = -1"
| "bytes_Compare (x # xs) [] = 1"
| "bytes_Compare (x # xs) (y # ys) = (if x < y then -1 else if y < x then 1 else bytes_Compare xs ys)"

definition xor_distance :: "distance \<Rightarrow> distance \<Rightarrow> distance" where
  "xor_distance a b = map2 (XOR) a b"

definition convertKey :: "(string \<Rightarrow> distance) \<Rightarrow> string \<Rightarrow> distance" where
  "convertKey Sum256 k = Sum256 k"

definition convertPeerID :: "(string \<Rightarrow> distance) \<Rightarrow> distanceChecker \<Rightarrow> peer_id \<Rightarrow> distance \<times> distanceChecker" where
  "convertPeerID Sum256 dc pid =
     (case map_of (dc_cache dc) pid of
        Some hash \<Rightarrow> (hash, dc)
      | None \<Rightarrow>
          let hashBytes = convertKey Sum256 pid
          in (hashBytes, dc\<lparr>dc_cache := map_put pid hashBytes (dc_cache dc)\<rparr>))"

fun isClosest_loop ::
  "(string \<Rightarrow> distance) \<Rightarrow> distance \<Rightarrow> distance \<Rightarrow> peer_id list \<Rightarrow> distanceChecker \<Rightarrow> bool \<times> distanceChecker" where
  "isClosest_loop Sum256 ciHash myDistance [] dc = (True, dc)"
| "isClosest_loop Sum256 ciHash myDistance (p # ps) dc =
     (case convertPeerID Sum256 dc p of
        (peerHash, dc') \<Rightarrow>
          if bytes_Compare myDistance (xor_distance peerHash ciHash) > 0 then (False, dc')
          else isClosest_loop Sum256 ciHash myDistance ps dc')"

definition isClosest :: "(string \<Rightarrow> distance) \<Rightarrow> distanceChecker \<Rightarrow> cid \<Rightarrow> bool \<times> distanceChecker" where
  "isClosest Sum256 dc ci =
     (let ciHash = convertKey Sum256 ci
      in case convertPeerID Sum256 dc (dc_local dc) of
           (localPeerHash, dc') \<Rightarrow>
             isClosest_loop Sum256 ciHash (xor_distance ciHash localPeerHash) (dc_otherPeers dc) dc')"

section \<open>What the helpers compute\<close>

lemma peersSubtract_eq: "peersSubtract a b = filter (\<lambda>p. p \<notin> set b) a"
proof -
  have "map_has (foldl (\<lambda>m p. map_put p () m) m b) p \<longleftrightarrow> map_has m p \<or> p \<in> set b" for m p
    by (induction b arbitrary: m) (auto simp: map_has_def)
  moreover have "foldl (\<lambda>result p. if Q p then result else result @ [p]) r a = r @ filter (\<lambda>p. \<not> Q p) a" for r and Q :: "peer_id \<Rightarrow> bool"
    by (induction a arbitrary: r) auto
  ultimately show ?thesis by (simp add: peersSubtract_def map_has_def)
qed

lemma PeersFromMultiaddrs_set:
  "distinct (PeersFromMultiaddrs AddrInfo addrs) \<and> set (PeersFromMultiaddrs AddrInfo addrs) = {p. \<exists>a \<in> set addrs. AddrInfo a = Inr p}"
proof -
  have "distinct (PeersFromMultiaddrs_loop AddrInfo addrs pm pids) \<and>
      set (PeersFromMultiaddrs_loop AddrInfo addrs pm pids) = set pids \<union> {p. \<exists>a \<in> set addrs. AddrInfo a = Inr p}"
    if "distinct pids" "\<And>p. map_has pm p \<longleftrightarrow> p \<in> set pids" for pm pids
    using that
  proof (induction addrs arbitrary: pm pids)
    case (Cons a addrs)
    show ?case
    proof (cases "AddrInfo a")
      case (Inr pid)
      then show ?thesis using Cons.IH [of "pids @ [pid]" "map_put pid () pm"] Cons.IH [of pids pm] Cons.prems
        by (cases "map_has pm pid") (auto simp: map_has_def)
    qed (use Cons in auto)
  qed simp
  from this [of "[]" "[]"] show ?thesis by (simp add: PeersFromMultiaddrs_def map_has_def)
qed

text \<open>\<open>bytes.Compare\<close> is the lexicographic order.\<close>

lemma bytes_Compare_pos: "bytes_Compare a b > 0 \<longleftrightarrow> b < a"
  by (induction a b rule: bytes_Compare.induct) auto

text \<open>A cache is right when it holds hashes of peers; then it changes nothing.\<close>

definition cache_ok :: "(string \<Rightarrow> distance) \<Rightarrow> distanceChecker \<Rightarrow> bool" where
  "cache_ok Sum256 dc \<longleftrightarrow> list_all (\<lambda>(p, h). h = Sum256 p) (dc_cache dc)"

definition same_checker :: "distanceChecker \<Rightarrow> distanceChecker \<Rightarrow> bool" where
  "same_checker dc dc' \<longleftrightarrow> dc_local dc' = dc_local dc \<and> dc_otherPeers dc' = dc_otherPeers dc"

lemma map_put_all: "list_all P m \<Longrightarrow> P (k, v) \<Longrightarrow> list_all P (map_put k v m)"
  by (induction k v m rule: map_put.induct) auto

lemma convertPeerID_hash:
  assumes "cache_ok Sum256 dc" "convertPeerID Sum256 dc p = (h, dc')"
  shows "h = Sum256 p \<and> cache_ok Sum256 dc' \<and> same_checker dc dc'"
proof (cases "map_of (dc_cache dc) p")
  case None
  then show ?thesis using assms map_put_all [of "\<lambda>(p, h). h = Sum256 p" "dc_cache dc" p "Sum256 p"]
    by (auto simp: convertPeerID_def convertKey_def cache_ok_def same_checker_def Let_def)
next
  case (Some g)
  from map_of_SomeD [OF this] assms show ?thesis
    using Some by (auto simp: convertPeerID_def cache_ok_def same_checker_def list_all_iff)
qed

lemma isClosest_loop_spec:
  assumes "cache_ok Sum256 dc"
  shows "\<exists>dc'. isClosest_loop Sum256 h d ps dc = (\<forall>p \<in> set ps. d \<le> xor_distance (Sum256 p) h, dc') \<and>
    cache_ok Sum256 dc' \<and> same_checker dc dc'"
  using assms
proof (induction ps arbitrary: dc)
  case (Cons p ps)
  obtain g dc' where g: "convertPeerID Sum256 dc p = (g, dc')" by fastforce
  from convertPeerID_hash [OF Cons.prems this]
  have "g = Sum256 p" "cache_ok Sum256 dc'" "same_checker dc dc'" by auto
  with g Cons.IH [of dc'] show ?case by (auto simp: bytes_Compare_pos not_less same_checker_def)
qed (simp add: same_checker_def)

lemma isClosest_cached:
  assumes "cache_ok Sum256 dc"
  shows "\<exists>dc'. isClosest Sum256 dc c =
      (\<forall>p \<in> set (dc_otherPeers dc). xor_distance (Sum256 c) (Sum256 (dc_local dc)) \<le> xor_distance (Sum256 p) (Sum256 c), dc') \<and>
    cache_ok Sum256 dc' \<and> same_checker dc dc'"
proof -
  obtain g dc1 where g: "convertPeerID Sum256 dc (dc_local dc) = (g, dc1)" by fastforce
  from convertPeerID_hash [OF assms this] have 1: "g = Sum256 (dc_local dc)" "cache_ok Sum256 dc1" "same_checker dc dc1" by auto
  from isClosest_loop_spec [OF 1(2), of "Sum256 c" "xor_distance (Sum256 c) g" "dc_otherPeers dc"] g 1
  show ?thesis by (auto simp: isClosest_def convertKey_def same_checker_def Let_def)
qed

lemma xor_distance_commute: "xor_distance a b = xor_distance b a"
  by (induction a arbitrary: b; case_tac b) (simp_all add: xor_distance_def xor.commute)

lemma xor_distance_inj:
  "length a = length c \<Longrightarrow> length b = length c \<Longrightarrow> xor_distance a c = xor_distance b c \<Longrightarrow> a = b"
proof (induction a arbitrary: b c)
  case (Cons x xs)
  then obtain y ys z zs where bc: "b = y # ys" "c = z # zs" by (cases b; cases c) auto
  from Cons.prems(3) have "x XOR z = y XOR z" "xor_distance xs zs = xor_distance ys zs" by (simp_all add: bc xor_distance_def)
  moreover have "x = (x XOR z) XOR z" "y = (y XOR z) XOR z" by (simp_all add: xor.assoc)
  ultimately show ?case using Cons.IH [of zs ys] Cons.prems(1,2) by (simp add: bc)
qed simp

text \<open>The peer that each CID elects.\<close>

lemma closest_exists:
  fixes d :: "peer_id \<Rightarrow> distance"
  assumes "P \<noteq> {}" "finite P" "inj_on d P"
  shows "\<exists>!p. p \<in> P \<and> (\<forall>q \<in> P. d p \<le> d q)"
proof -
  obtain p where p: "p \<in> P" "\<forall>q \<in> P. d p \<le> d q"
    using assms(1,2) by (metis arg_min_if_finite(1) arg_min_least)
  moreover have "q = p" if "q \<in> P" "\<forall>r \<in> P. d q \<le> d r" for q
    using p that assms(3) by (metis antisym inj_onD)
  ultimately show ?thesis by blast
qed

end
