(* ===== verification/Cluster_Pin.thy ===== *)
theory Cluster_Pin
  imports Crdt_Consensus Monitor_Alerts Cluster_Util
begin

text \<open>
  \<open>cluster.go\<close>: pinning and unpinning. A cluster peer checks a request, allocates peers, and logs the
  result through the consensus component; it also unpins expired items and moves pins away from
  peers that fail. The consensus, the monitor, the allocator and the IPFS daemon are the fields of
  \<open>cluster\<close>. The locale \<open>consensus_log\<close> says what is expected of the consensus; the lemmas about the operations
  are proved there and hold for the CRDT component over a datastore by an interpretation.
\<close>

section \<open>Components\<close>

datatype cluster_error =
    ErrFollowerMode | ClusterError string | StateErr state_error | AllocErr alloc_error

record cluster_config =
  cc_FollowerMode :: bool
  cc_DisableRepinning :: bool
  cc_ReplicationFactorMin :: int
  cc_ReplicationFactorMax :: int
  cc_alloc :: alloc_config

record 's cluster =
  cl_id :: peer_id
  cl_config :: cluster_config
  cl_State :: "'s \<Rightarrow> state_error + ReadOnlyState"
  cl_LogPin :: "Pin \<Rightarrow> 's \<Rightarrow> state_error option \<times> 's"
  cl_LogUnpin :: "Pin \<Rightarrow> 's \<Rightarrow> state_error option \<times> 's"
  cl_Peers :: "'s \<Rightarrow> state_error + peer_id list"
  cl_metricNames :: "string list"
  cl_Allocate :: allocator_fn
  cl_LatestMetrics :: "string \<Rightarrow> Metric list"
  cl_Resolve :: "string \<Rightarrow> string + cid"
  cl_BlockGet :: "cid \<Rightarrow> string + bytes"
  cl_CborLinks :: "bytes \<Rightarrow> string + cid list"
  cl_Sum256 :: "string \<Rightarrow> distance"

fun state_error_String :: "state_error \<Rightarrow> string" where
  "state_error_String ErrNotFound = ''pin is not part of the pinset''"
| "state_error_String (StateError msg) = msg"

section \<open>Checking a pin\<close>

definition isReplicationFactorValid :: "int \<Rightarrow> int \<Rightarrow> cluster_error option" where
  "isReplicationFactorValid rplMin rplMax =
     (if rplMin = 0 \<or> rplMax = 0 then Some (ClusterError ''cluster.replication_factor_min and max must be set'')
      else if rplMin > rplMax then Some (ClusterError ''cluster.replication_factor_min is larger than max'')
      else if rplMin < -1 then Some (ClusterError ''cluster.replication_factor_min is wrong'')
      else if rplMax < -1 then Some (ClusterError ''cluster.replication_factor_max is wrong'')
      else if (rplMin = -1 \<and> rplMax \<noteq> -1) \<or> (rplMin \<noteq> -1 \<and> rplMax = -1)
      then Some (ClusterError ''cluster.replication_factor_min and max must be -1 when one of them is'')
      else None)"

definition set_rmin :: "int \<Rightarrow> Pin \<Rightarrow> Pin" where
  "set_rmin r pin = pin\<lparr>pin_Options := (pin_Options pin)\<lparr>po_ReplicationFactorMin := r\<rparr>\<rparr>"

definition set_rmax :: "int \<Rightarrow> Pin \<Rightarrow> Pin" where
  "set_rmax r pin = pin\<lparr>pin_Options := (pin_Options pin)\<lparr>po_ReplicationFactorMax := r\<rparr>\<rparr>"

definition setupReplicationFactor :: "cluster_config \<Rightarrow> Pin \<Rightarrow> Pin \<times> cluster_error option" where
  "setupReplicationFactor cfg pin =
     (let pin = (if pin_rmin pin = 0 then set_rmin (cc_ReplicationFactorMin cfg) pin else pin);
          pin = (if pin_rmax pin = 0 then set_rmax (cc_ReplicationFactorMax cfg) pin else pin);
          rplMin = pin_rmin pin;
          rplMax = pin_rmax pin;
          pin = (if IsPinEverywhere pin then pin\<lparr>pin_Allocations := []\<rparr> else pin)
      in (pin, isReplicationFactorValid rplMin rplMax))"

definition checkPinType :: "Pin \<Rightarrow> cluster_error option" where
  "checkPinType pin =
     (if pin_Type pin = DataType
      then if pin_Reference pin \<noteq> None then Some (ClusterError ''data pins should not reference other pins'') else None
      else if pin_Type pin = ShardType
      then if pin_MaxDepth pin \<noteq> 1 then Some (ClusterError ''must pin shards go depth 1'') else None
      else if pin_Type pin = ClusterDAGType
      then if pin_MaxDepth pin \<noteq> 0 then Some (ClusterError ''must pin roots directly'')
           else if pin_Reference pin = None then Some (ClusterError ''clusterDAG pins should reference a Meta pin'')
           else None
      else if pin_Type pin = MetaType
      then if pin_Allocations pin \<noteq> [] then Some (ClusterError ''meta pin should not specify allocations'')
           else if pin_Reference pin = None then Some (ClusterError ''metaPins should reference a ClusterDAG'')
           else None
      else Some (ClusterError ''unrecognized pin type''))"

definition setupPin :: "cluster_config \<Rightarrow> gotime \<Rightarrow> Pin \<Rightarrow> Pin \<Rightarrow> Pin \<times> cluster_error option" where
  "setupPin cfg now pin existing =
     (case setupReplicationFactor cfg pin of
        (pin, Some err) \<Rightarrow> (pin, Some err)
      | (pin, None) \<Rightarrow>
          if \<not> time_IsZero (po_ExpireAt (pin_Options pin)) \<and> po_ExpireAt (pin_Options pin) < now
          then (pin, Some (ClusterError ''pin.ExpireAt set before current time''))
          else if \<not> Pin_Defined existing then (pin, None)
          else if pin_Type existing \<noteq> pin_Type pin
          then (pin, Some (ClusterError
                 (''cannot repin CID with different tracking method, clear state with pin rm to proceed. New: '' @
                  PinType_String (pin_Type pin) @ ''. Was: '' @ PinType_String (pin_Type existing))))
          else if po_Mode (pin_Options existing) = PinModeRecursive \<and> po_Mode (pin_Options pin) \<noteq> PinModeRecursive
          then (pin, Some (ClusterError
                 (''cannot repin a CID which is already pinned in recursive mode (new pin is pinned as '' @
                  PinMode_String (po_Mode (pin_Options pin)) @ ''). Unpin it first.'')))
          else (pin, checkPinType pin))"

section \<open>Pinning\<close>

definition PinGet :: "'s cluster \<Rightarrow> 's \<Rightarrow> cid \<Rightarrow> state_error + Pin" where
  "PinGet cl s h =
     (case cl_State cl s of
        Inl err \<Rightarrow> Inl err
      | Inr st \<Rightarrow> st_Get st h)"

text \<open>The state after a call of the consensus, with its error.\<close>

definition log_result :: "state_error option \<times> 's \<Rightarrow> cluster_error option \<times> 's" where
  "log_result r = (map_option StateErr (fst r), snd r)"

text \<open>\<open>now\<close> and \<open>now'\<close> are what the two calls of \<open>time.Now\<close> return.\<close>

definition cluster_PinUpdate ::
  "'s cluster \<Rightarrow> gotime \<Rightarrow> gotime \<Rightarrow> cid \<Rightarrow> cid \<Rightarrow> PinOptions \<Rightarrow> 's \<Rightarrow> Pin \<times> cluster_error option \<times> 's" where
  "cluster_PinUpdate cl now now' from_cid to_cid opts s =
     (case PinGet cl s from_cid of
        Inl err \<Rightarrow> (zero_Pin, Some (StateErr err), s)
      | Inr existing \<Rightarrow>
          if pin_Type existing \<noteq> DataType then (zero_Pin, Some (ClusterError ''this pin type cannot be updated''), s)
          else let po = (pin_Options existing)\<lparr>po_PinUpdate := from_cid\<rparr>;
                   po = (if po_Name opts \<noteq> [] then po\<lparr>po_Name := po_Name opts\<rparr> else po);
                   po = (if \<not> time_IsZero (po_ExpireAt opts) \<and> po_ExpireAt opts > now'
                         then po\<lparr>po_ExpireAt := po_ExpireAt opts\<rparr> else po);
                   pin = existing\<lparr>pin_Cid := to_cid, pin_Options := po, pin_Timestamp := now\<rparr>
               in (pin, log_result (cl_LogPin cl pin s)))"

definition cluster_allocate :: "'s cluster \<Rightarrow> Pin \<Rightarrow> Pin \<Rightarrow> peer_id list \<Rightarrow> alloc_error + peer_id list" where
  "cluster_allocate cl pin existing blacklist =
     allocate (cc_alloc (cl_config cl)) (cl_Allocate cl) (cl_metricNames cl) (cl_LatestMetrics cl) existing
       (pin_rmin pin) (pin_rmax pin) blacklist (po_UserAllocations (pin_Options pin))"

text \<open>\<open>pin\<close> after its checks: set the timestamp, allocate if need be, and log the pin.\<close>

definition pin_submit ::
  "'s cluster \<Rightarrow> gotime \<Rightarrow> Pin \<Rightarrow> peer_id list \<Rightarrow> Pin \<Rightarrow> 's \<Rightarrow> Pin \<times> bool \<times> cluster_error option \<times> 's" where
  "pin_submit cl now existing blacklist pin s =
     (let pin = pin\<lparr>pin_Timestamp := now\<rparr>
      in if pin_Type pin = MetaType then (pin, True, log_result (cl_LogPin cl pin s))
         else if pin_Allocations pin = []
         then (case cluster_allocate cl pin existing blacklist of
                 Inl err \<Rightarrow> (pin, False, Some (AllocErr err), s)
               | Inr allocs \<Rightarrow>
                   let pin = pin\<lparr>pin_Allocations := allocs\<rparr>
                   in (pin, True, log_result (cl_LogPin cl pin s)))
         else (pin, True, log_result (cl_LogPin cl pin s)))"

text \<open>The pin that is in the state, the zero pin if there is none.\<close>

definition pin_existing :: "'s cluster \<Rightarrow> 's \<Rightarrow> cid \<Rightarrow> state_error + Pin" where
  "pin_existing cl s c =
     (case PinGet cl s c of
        Inr existing \<Rightarrow> Inr existing
      | Inl err \<Rightarrow> if err = ErrNotFound then Inr zero_Pin else Inl err)"

definition cluster_pin ::
  "'s cluster \<Rightarrow> gotime \<Rightarrow> gotime \<Rightarrow> Pin \<Rightarrow> peer_id list \<Rightarrow> 's \<Rightarrow> Pin \<times> bool \<times> cluster_error option \<times> 's" where
  "cluster_pin cl now now' pin blacklist s =
     (if cc_FollowerMode (cl_config cl) then (zero_Pin, False, Some ErrFollowerMode, s)
      else if \<not> Cid_Defined (pin_Cid pin) then (pin, False, Some (ClusterError ''bad pin object''), s)
      else let update = po_PinUpdate (pin_Options pin)
      in if Cid_Defined update \<and> update \<noteq> pin_Cid pin
         then (case cluster_PinUpdate cl now now' update (pin_Cid pin) (pin_Options pin) s of
                 (pin, err, s) \<Rightarrow> (pin, True, err, s))
         else (case pin_existing cl s (pin_Cid pin) of
                 Inl err \<Rightarrow> (pin, False, Some (StateErr err), s)
               | Inr existing \<Rightarrow>
                   (case setupPin (cl_config cl) now pin existing of
                      (pin, Some err) \<Rightarrow> (pin, False, Some err, s)
                    | (pin, None) \<Rightarrow> pin_submit cl now' existing blacklist pin s)))"

definition cluster_Pin :: "'s cluster \<Rightarrow> gotime \<Rightarrow> gotime \<Rightarrow> cid \<Rightarrow> PinOptions \<Rightarrow> 's \<Rightarrow> Pin \<times> cluster_error option \<times> 's" where
  "cluster_Pin cl now now' h opts s =
     (case cluster_pin cl now now' (PinWithOpts now h opts) [] s of
        (result, _, err, s) \<Rightarrow> (result, err, s))"

definition cluster_PinPath :: "'s cluster \<Rightarrow> gotime \<Rightarrow> gotime \<Rightarrow> string \<Rightarrow> PinOptions \<Rightarrow> 's \<Rightarrow> Pin \<times> cluster_error option \<times> 's" where
  "cluster_PinPath cl now now' path opts s =
     (case cl_Resolve cl path of
        Inl err \<Rightarrow> (zero_Pin, Some (ClusterError err), s)
      | Inr ci \<Rightarrow> cluster_Pin cl now now' ci opts s)"

section \<open>Unpinning\<close>

definition cidsFromMetaPin :: "'s cluster \<Rightarrow> 's \<Rightarrow> cid \<Rightarrow> cluster_error + cid list" where
  "cidsFromMetaPin cl s h =
     (case PinGet cl s h of
        Inl err \<Rightarrow> Inl (StateErr err)
      | Inr pin \<Rightarrow>
          if pin_Type pin \<noteq> MetaType then Inr [h]
          else (case pin_Reference pin of
                  None \<Rightarrow> Inl (ClusterError ''metaPin.Reference is unset'')
                | Some ref \<Rightarrow>
                    (case PinGet cl s ref of
                       Inl err \<Rightarrow> Inl (ClusterError (''could not get clusterDAG pin from state. Malformed pin?: '' @ state_error_String err))
                     | Inr clusterDagPin \<Rightarrow>
                         (case cl_BlockGet cl (pin_Cid clusterDagPin) of
                            Inl err \<Rightarrow> Inl (ClusterError (''error reading clusterDAG block from ipfs: '' @ err))
                          | Inr clusterDagBlock \<Rightarrow>
                              (case cl_CborLinks cl clusterDagBlock of
                                 Inl err \<Rightarrow> Inl (ClusterError (''error parsing clusterDAG block: '' @ err))
                               | Inr links \<Rightarrow> Inr (foldl (\<lambda>lst l. l # lst) [ref, h] links))))))"

fun LogUnpin_all :: "'s cluster \<Rightarrow> gotime \<Rightarrow> cid list \<Rightarrow> 's \<Rightarrow> cluster_error option \<times> 's" where
  "LogUnpin_all cl now [] s = (None, s)"
| "LogUnpin_all cl now (ci # cids) s =
     (case cl_LogUnpin cl (PinCid now ci) s of
        (Some err, s) \<Rightarrow> (Some (StateErr err), s)
      | (None, s) \<Rightarrow> LogUnpin_all cl now cids s)"

definition unpinClusterDag :: "'s cluster \<Rightarrow> gotime \<Rightarrow> Pin \<Rightarrow> 's \<Rightarrow> cluster_error option \<times> 's" where
  "unpinClusterDag cl now metaPin s =
     (case cidsFromMetaPin cl s (pin_Cid metaPin) of
        Inl err \<Rightarrow> (Some err, s)
      | Inr cids \<Rightarrow> LogUnpin_all cl now cids s)"

definition cluster_Unpin :: "'s cluster \<Rightarrow> gotime \<Rightarrow> cid \<Rightarrow> 's \<Rightarrow> Pin \<times> cluster_error option \<times> 's" where
  "cluster_Unpin cl now h s =
     (if cc_FollowerMode (cl_config cl) then (zero_Pin, Some ErrFollowerMode, s)
      else case PinGet cl s h of
        Inl err \<Rightarrow> (zero_Pin, Some (StateErr err), s)
      | Inr pin \<Rightarrow>
          if pin_Type pin = DataType then (pin, log_result (cl_LogUnpin cl pin s))
          else if pin_Type pin = ShardType
          then (pin, Some (ClusterError ''cannot unpin a shard directly. Unpin content root CID instead''), s)
          else if pin_Type pin = MetaType
          then (case unpinClusterDag cl now pin s of
                  (Some err, s) \<Rightarrow> (pin, Some err, s)
                | (None, s) \<Rightarrow> (pin, log_result (cl_LogUnpin cl pin s)))
          else if pin_Type pin = ClusterDAGType
          then (pin, Some (ClusterError ''cannot unpin a Cluster DAG directly. Unpin content root CID instead''), s)
          else (pin, Some (ClusterError ''unrecognized pin type''), s))"

definition cluster_UnpinPath :: "'s cluster \<Rightarrow> gotime \<Rightarrow> string \<Rightarrow> 's \<Rightarrow> Pin \<times> cluster_error option \<times> 's" where
  "cluster_UnpinPath cl now path s =
     (case cl_Resolve cl path of
        Inl err \<Rightarrow> (zero_Pin, Some (ClusterError err), s)
      | Inr ci \<Rightarrow> cluster_Unpin cl now ci s)"

section \<open>The contract of the consensus\<close>

text \<open>
  What the cluster expects of the consensus: its state shows the pin set, logging a pin or an unpin
  changes the set accordingly, and an operation that fails changes nothing.
\<close>

locale consensus_log =
  fixes st_inv :: "'s \<Rightarrow> bool"
    and storable :: "'s \<Rightarrow> Pin \<Rightarrow> bool"
    and norm :: "Pin \<Rightarrow> Pin"
    and pins :: "'s \<Rightarrow> cid \<rightharpoonup> Pin"
    and read_state :: "'s \<Rightarrow> state_error + ReadOnlyState"
    and log_pin :: "Pin \<Rightarrow> 's \<Rightarrow> state_error option \<times> 's"
    and log_unpin :: "Pin \<Rightarrow> 's \<Rightarrow> state_error option \<times> 's"
  assumes state_err: "st_inv s \<Longrightarrow> read_state s \<noteq> Inl ErrNotFound"
    and state_get: "st_inv s \<Longrightarrow> read_state s = Inr st \<Longrightarrow> st_Get st c = (case pins s c of None \<Rightarrow> Inl ErrNotFound | Some p \<Rightarrow> Inr p)"
    and state_list: "st_inv s \<Longrightarrow> read_state s = Inr st \<Longrightarrow> distinct (map pin_Cid (st_List st)) \<and>
      (\<forall>c p. pins s c = Some p \<longleftrightarrow> p \<in> set (st_List st) \<and> pin_Cid p = c)"
    and log_pin_pins: "st_inv s \<Longrightarrow> storable s p \<Longrightarrow> log_pin p s = (e, s') \<Longrightarrow>
      st_inv s' \<and> storable s' = storable s \<and> pins s' = (if e = None then (pins s)(pin_Cid p \<mapsto> norm p) else pins s)"
    and log_unpin_pins: "st_inv s \<Longrightarrow> log_unpin p s = (e, s') \<Longrightarrow>
      st_inv s' \<and> storable s' = storable s \<and> pins s' = (if e = None then (pins s)(pin_Cid p := None) else pins s)"

definition cluster_over ::
  "('s \<Rightarrow> state_error + ReadOnlyState) \<Rightarrow> (Pin \<Rightarrow> 's \<Rightarrow> state_error option \<times> 's) \<Rightarrow> (Pin \<Rightarrow> 's \<Rightarrow> state_error option \<times> 's) \<Rightarrow>
     's cluster \<Rightarrow> bool" where
  "cluster_over read_state log_pin log_unpin cl \<longleftrightarrow>
     cl_State cl = read_state \<and> cl_LogPin cl = log_pin \<and> cl_LogUnpin cl = log_unpin"

text \<open>The CIDs that unpinning \<open>h\<close> removes: the CID itself and, for a sharded pin, what belongs to it.\<close>

definition unpin_cids :: "'s cluster \<Rightarrow> 's \<Rightarrow> cid \<Rightarrow> cid set" where
  "unpin_cids cl s h =
     (case PinGet cl s h of
        Inl err \<Rightarrow> {}
      | Inr p \<Rightarrow>
          if pin_Type p = DataType then {h}
          else if pin_Type p = MetaType then (case cidsFromMetaPin cl s h of Inl err \<Rightarrow> {} | Inr cids \<Rightarrow> set cids)
          else {})"

lemma cidsFromMetaPin_set:
  assumes "cidsFromMetaPin cl s h = Inr cids"
  shows "h \<in> set cids \<and> (\<exists>p. PinGet cl s h = Inr p \<and> (pin_Type p = MetaType \<longrightarrow> (\<exists>ref q blk links.
    pin_Reference p = Some ref \<and> PinGet cl s ref = Inr q \<and> cl_BlockGet cl (pin_Cid q) = Inr blk \<and>
    cl_CborLinks cl blk = Inr links \<and> cids = rev links @ [ref, h])))"
proof -
  have rev: "foldl (\<lambda>lst l. l # lst) xs links = rev links @ xs" for xs and links :: "cid list"
    by (induction links arbitrary: xs) auto
  show ?thesis using assms unfolding cidsFromMetaPin_def
    by (auto simp: rev split: sum.splits if_splits option.splits)
qed

lemma restrict_UNIV [simp]: "m |` UNIV = m"
  by (simp add: restrict_map_def)

context consensus_log
begin

abbreviation over :: "'s cluster \<Rightarrow> bool" where
  "over \<equiv> cluster_over read_state log_pin log_unpin"

lemma PinGet_pins:
  assumes "over cl" "st_inv s"
  shows "PinGet cl s c = Inr p \<Longrightarrow> pins s c = Some p \<and> pin_Cid p = c"
    and "PinGet cl s c = Inl ErrNotFound \<Longrightarrow> pins s c = None"
proof -
  assume r: "PinGet cl s c = Inr p"
  then obtain st where st: "read_state s = Inr st" "st_Get st c = Inr p"
    using assms(1) by (auto simp: PinGet_def cluster_over_def split: sum.splits)
  then have "pins s c = Some p" using state_get [OF assms(2) st(1), of c] by (simp split: option.splits)
  then show "pins s c = Some p \<and> pin_Cid p = c" using state_list [OF assms(2) st(1)] by blast
next
  assume r: "PinGet cl s c = Inl ErrNotFound"
  then obtain st where st: "read_state s = Inr st" "st_Get st c = Inl ErrNotFound"
    using assms state_err [OF assms(2)] by (auto simp: PinGet_def cluster_over_def split: sum.splits)
  then show "pins s c = None" using state_get [OF assms(2) st(1), of c] by (simp split: option.splits)
qed

text \<open>Logging the removal of several CIDs removes those before the first error.\<close>

lemma LogUnpin_all_pins:
  assumes "over cl" "st_inv s" "LogUnpin_all cl now cids s = (e, s')"
  shows "st_inv s' \<and> storable s' = storable s \<and>
    (\<exists>gone rest. cids = gone @ rest \<and> pins s' = pins s |` (- set gone) \<and> (e = None \<longleftrightarrow> rest = []))"
  using assms(2,3)
proof (induction cids arbitrary: s)
  case Nil
  then show ?case by simp
next
  case (Cons c cids)
  obtain e1 s1 where s1: "log_unpin (PinCid now c) s = (e1, s1)" by fastforce
  note u = log_unpin_pins [OF Cons.prems(1) s1]
  show ?case
  proof (cases e1)
    case (Some err)
    then have "s' = s1" "e = Some (StateErr err)" using Cons.prems(2) s1 assms(1) by (simp_all add: cluster_over_def)
    with u Some show ?thesis by (intro conjI exI [of _ "[]"] exI [of _ "c # cids"]) auto
  next
    case None
    then have "LogUnpin_all cl now cids s1 = (e, s')" using Cons.prems(2) s1 assms(1) by (simp add: cluster_over_def)
    from Cons.IH [OF _ this] u obtain gone rest where r: "st_inv s'" "storable s' = storable s1" "cids = gone @ rest"
        "pins s' = pins s1 |` (- set gone)" "e = None \<longleftrightarrow> rest = []" by blast
    have "pins s1 = (pins s)(c := None)" using u None by (simp add: PinCid_def)
    then have "pins s' = pins s |` (- set (c # gone))" using r(4) by (auto simp: restrict_map_def fun_eq_iff)
    with r u show ?thesis by (intro conjI exI [of _ "c # gone"] exI [of _ rest]) auto
  qed
qed

lemma Unpin_pins:
  assumes "over cl" "st_inv s" "cluster_Unpin cl now h s = (p, e, s')"
  shows "st_inv s' \<and> storable s' = storable s \<and>
    (\<exists>gone. pins s' = pins s |` (- gone) \<and> gone \<subseteq> unpin_cids cl s h \<and>
      (e = None \<longrightarrow> gone = unpin_cids cl s h \<and> h \<in> gone \<and> pins s h = Some p \<and> pin_Type p \<in> {DataType, MetaType}))"
proof (cases "s' = s \<and> e \<noteq> None")
  case True
  then show ?thesis using assms(2) by (intro conjI exI [of _ "{}"]) auto
next
  case False
  then obtain q where q: "PinGet cl s h = Inr q" using assms(3) by (auto simp: cluster_Unpin_def split: if_splits sum.splits)
  note get = PinGet_pins(1) [OF assms(1,2) q]
  have log: "cl_LogUnpin cl = log_unpin" using assms(1) by (simp add: cluster_over_def)
  consider (data) "pin_Type q = DataType" | (meta) "pin_Type q = MetaType" "pin_Type q \<noteq> DataType"
    using False assms(3) q by (auto simp: cluster_Unpin_def split: if_splits)
  then show ?thesis
  proof cases
    case data
    obtain e1 where u: "log_unpin q s = (e1, s')" "e = map_option StateErr e1" "p = q"
      using assms(3) q data False by (cases "log_unpin q s") (auto simp: cluster_Unpin_def log log_result_def split: if_splits)
    from log_unpin_pins [OF assms(2) u(1)] get q data u show ?thesis
      by (intro conjI exI [of _ "if e = None then {h} else {}"]) (auto simp: unpin_cids_def restrict_map_def fun_eq_iff)
  next
    case meta
    obtain e1 s1 where s1: "unpinClusterDag cl now q s = (e1, s1)" by fastforce
    obtain cids where cids: "cidsFromMetaPin cl s h = Inr cids" "LogUnpin_all cl now cids s = (e1, s1)"
      using False s1 assms(3) q meta get by (auto simp: cluster_Unpin_def unpinClusterDag_def split: if_splits sum.splits)
    have scope: "unpin_cids cl s h = set cids" using q meta cids(1) by (simp add: unpin_cids_def)
    from LogUnpin_all_pins [OF assms(1,2) cids(2)] obtain gone rest where g: "st_inv s1" "storable s1 = storable s" "cids = gone @ rest"
      "pins s1 = pins s |` (- set gone)" "e1 = None \<longleftrightarrow> rest = []" by blast
    show ?thesis
    proof (cases e1)
      case (Some err)
      then have "s' = s1" "e \<noteq> None" using assms(3) q meta s1 False by (auto simp: cluster_Unpin_def split: if_splits)
      with g scope show ?thesis by (intro conjI exI [of _ "set gone"]) auto
    next
      case None
      obtain e2 where u: "log_unpin q s1 = (e2, s')" "e = map_option StateErr e2" "p = q"
        using assms(3) q meta s1 None False by (cases "log_unpin q s1") (auto simp: cluster_Unpin_def log log_result_def split: if_splits)
      have h: "h \<in> set cids" using cidsFromMetaPin_set [OF cids(1)] by blast
      have "pins s' = pins s |` (- set cids)"
        using log_unpin_pins [OF g(1) u(1)] g None get h by (auto simp: restrict_map_def fun_eq_iff)
      then show ?thesis using log_unpin_pins [OF g(1) u(1)] g(2) get u scope h meta
        by (intro conjI exI [of _ "set cids"]) auto
    qed
  qed
qed

end

section \<open>What pinning does\<close>

lemma set_rmin_simps [simp]:
  "pin_rmin (set_rmin r p) = r" "pin_rmax (set_rmin r p) = pin_rmax p" "pin_Cid (set_rmin r p) = pin_Cid p"
  "pin_Type (set_rmin r p) = pin_Type p" "pin_Allocations (set_rmin r p) = pin_Allocations p"
  "pin_rmax (set_rmax r p) = r" "pin_rmin (set_rmax r p) = pin_rmin p" "pin_Cid (set_rmax r p) = pin_Cid p"
  "pin_Type (set_rmax r p) = pin_Type p" "pin_Allocations (set_rmax r p) = pin_Allocations p"
  "po_UserAllocations (pin_Options (set_rmin r p)) = po_UserAllocations (pin_Options p)"
  "po_UserAllocations (pin_Options (set_rmax r p)) = po_UserAllocations (pin_Options p)"
  by (simp_all add: set_rmin_def set_rmax_def)

definition or_default :: "int \<Rightarrow> int \<Rightarrow> int" where
  "or_default r d = (if r = 0 then d else r)"

lemma valid_factors:
  "isReplicationFactorValid rmin rmax = None \<longleftrightarrow> 0 < rmin \<and> rmin \<le> rmax \<or> rmin = -1 \<and> rmax = -1"
  by (auto simp: isReplicationFactorValid_def)

text \<open>What \<open>setupPin\<close> makes of a pin that it accepts.\<close>

lemma setupPin_ok:
  assumes "setupPin cfg now pin existing = (p, None)"
  shows "pin_rmin p = or_default (pin_rmin pin) (cc_ReplicationFactorMin cfg)"
    and "pin_rmax p = or_default (pin_rmax pin) (cc_ReplicationFactorMax cfg)"
    and "0 < pin_rmin p \<and> pin_rmin p \<le> pin_rmax p \<or> IsPinEverywhere p"
    and "pin_Cid p = pin_Cid pin" "pin_Type p = pin_Type pin"
    and "pin_Allocations p = (if IsPinEverywhere p then [] else pin_Allocations pin)"
    and "po_UserAllocations (pin_Options p) = po_UserAllocations (pin_Options pin)"
    and "Pin_Defined existing \<Longrightarrow> pin_Type existing = pin_Type p \<and> checkPinType p = None"
proof -
  have "setupReplicationFactor cfg pin = (p, None)"
    using assms unfolding setupPin_def by (auto split: prod.splits option.splits if_splits)
  then have *: "p = (let q = (if pin_rmin pin = 0 then set_rmin (cc_ReplicationFactorMin cfg) pin else pin);
        r = (if pin_rmax q = 0 then set_rmax (cc_ReplicationFactorMax cfg) q else q)
      in if IsPinEverywhere r then r\<lparr>pin_Allocations := []\<rparr> else r)" "isReplicationFactorValid (pin_rmin p) (pin_rmax p) = None"
    unfolding setupReplicationFactor_def by (auto simp: Let_def split: if_splits)
  from *(1) show "pin_rmin p = or_default (pin_rmin pin) (cc_ReplicationFactorMin cfg)"
    "pin_rmax p = or_default (pin_rmax pin) (cc_ReplicationFactorMax cfg)" "pin_Cid p = pin_Cid pin" "pin_Type p = pin_Type pin"
    "pin_Allocations p = (if IsPinEverywhere p then [] else pin_Allocations pin)"
    "po_UserAllocations (pin_Options p) = po_UserAllocations (pin_Options pin)"
    by (auto simp: Let_def or_default_def IsPinEverywhere_def split: if_splits)
  show "0 < pin_rmin p \<and> pin_rmin p \<le> pin_rmax p \<or> IsPinEverywhere p"
    using *(2) by (simp add: valid_factors IsPinEverywhere_def)
  show "Pin_Defined existing \<Longrightarrow> pin_Type existing = pin_Type p \<and> checkPinType p = None"
    using assms unfolding setupPin_def by (auto split: prod.splits option.splits if_splits)
qed

abbreviation updates :: "Pin \<Rightarrow> bool" where
  "updates pin \<equiv> Cid_Defined (po_PinUpdate (pin_Options pin)) \<and> po_PinUpdate (pin_Options pin) \<noteq> pin_Cid pin"

text \<open>
  The ways in which \<open>pin\<close> ends: it refuses and leaves the state alone, it logs an updated pin, or it logs the
  pin it has set up and allocated.
\<close>

definition allocated :: "'s cluster \<Rightarrow> Pin \<Rightarrow> Pin \<Rightarrow> peer_id list \<Rightarrow> peer_id list \<Rightarrow> bool" where
  "allocated cl p existing blacklist allocs \<longleftrightarrow>
     (if pin_Type p = MetaType \<or> pin_Allocations p \<noteq> [] then allocs = pin_Allocations p
      else cluster_allocate cl p existing blacklist = Inr allocs)"

lemma cluster_pin_cases:
  assumes "cluster_pin cl now now' pin blacklist s = (p', sub, e, s')"
  obtains (refused) "\<not> sub" "e \<noteq> None" "s' = s"
  | (update) "updates pin" "sub" "cluster_PinUpdate cl now now' (po_PinUpdate (pin_Options pin)) (pin_Cid pin) (pin_Options pin) s = (p', e, s')"
      "\<not> cc_FollowerMode (cl_config cl)"
  | (logged) existing p allocs where "\<not> updates pin" "sub" "setupPin (cl_config cl) now pin existing = (p, None)"
      "PinGet cl s (pin_Cid pin) = Inr existing \<or> PinGet cl s (pin_Cid pin) = Inl ErrNotFound \<and> existing = zero_Pin"
      "allocated cl p existing blacklist allocs" "p' = p\<lparr>pin_Timestamp := now', pin_Allocations := allocs\<rparr>"
      "log_result (cl_LogPin cl p' s) = (e, s')" "\<not> cc_FollowerMode (cl_config cl)" "Pin_Defined pin"
proof (cases "cc_FollowerMode (cl_config cl) \<or> \<not> Cid_Defined (pin_Cid pin)")
  case True
  then show ?thesis using assms refused by (auto simp: cluster_pin_def split: if_splits)
next
  case ok: False
  show ?thesis
  proof (cases "updates pin")
    case True
    then show ?thesis using assms ok update by (auto simp: cluster_pin_def Let_def split: prod.splits)
  next
    case False
    show ?thesis
    proof (cases "pin_existing cl s (pin_Cid pin)")
      case (Inl err)
      then show ?thesis using assms ok False refused by (auto simp: cluster_pin_def Let_def)
    next
      case (Inr existing)
      then have ex: "PinGet cl s (pin_Cid pin) = Inr existing \<or> PinGet cl s (pin_Cid pin) = Inl ErrNotFound \<and> existing = zero_Pin"
        by (auto simp: pin_existing_def split: sum.splits if_splits)
      obtain p err where p: "setupPin (cl_config cl) now pin existing = (p, err)" by fastforce
      show ?thesis
      proof (cases err)
        case None
        then have sub: "pin_submit cl now' existing blacklist p s = (p', sub, e, s')"
          using assms ok False Inr p by (auto simp: cluster_pin_def Let_def)
        have "cluster_allocate cl (p\<lparr>pin_Timestamp := now'\<rparr>) existing blacklist = cluster_allocate cl p existing blacklist"
          by (simp add: cluster_allocate_def)
        then have "\<not> sub \<and> e \<noteq> None \<and> s' = s \<or>
            sub \<and> allocated cl p existing blacklist (pin_Allocations p') \<and> log_result (cl_LogPin cl p' s) = (e, s') \<and>
            p' = p\<lparr>pin_Timestamp := now', pin_Allocations := pin_Allocations p'\<rparr>"
          using sub by (auto simp: pin_submit_def Let_def allocated_def split: if_splits sum.splits)
        then show ?thesis using refused logged [of existing p "pin_Allocations p'"] False ex p None ok by (auto simp: Pin_Defined_def)
      next
        case (Some x)
        then show ?thesis using assms ok False Inr p refused by (auto simp: cluster_pin_def Let_def)
      qed
    qed
  qed
qed

lemma log_resultE:
  assumes "log_result r = (e, s')"
  obtains e1 where "r = (e1, s')" "e = map_option StateErr e1"
  using assms by (cases r) (auto simp: log_result_def)

context consensus_log
begin

lemma PinUpdate_pins:
  assumes "over cl" "st_inv s" "cluster_PinUpdate cl now now' c0 c opts s = (p', e, s')" "Pin_Defined p' \<Longrightarrow> storable s p'"
    and "Cid_Defined c"
  shows "st_inv s' \<and> storable s' = storable s \<and> pins s' = (if e = None then (pins s)(c \<mapsto> norm p') else pins s)"
proof (cases "\<exists>q. PinGet cl s c0 = Inr q \<and> pin_Type q = DataType")
  case False
  then have "s' = s \<and> e \<noteq> None" using assms(3) by (auto simp: cluster_PinUpdate_def split: sum.splits if_splits)
  then show ?thesis using assms(2) by auto
next
  case True
  then have l: "log_result (cl_LogPin cl p' s) = (e, s')" "pin_Cid p' = c"
    using assms(3) by (auto simp: cluster_PinUpdate_def Let_def)
  then obtain e1 where e1: "log_pin p' s = (e1, s')" "e = map_option StateErr e1" "pin_Cid p' = c"
    using assms(1) by (auto simp: cluster_over_def elim!: log_resultE)
  from assms(4,5) e1(3) have "storable s p'" by (simp add: Pin_Defined_def)
  from log_pin_pins [OF assms(2) this e1(1)] e1 show ?thesis by simp
qed

lemma pin_pins:
  assumes "over cl" "st_inv s" "cluster_pin cl now now' pin blacklist s = (p', sub, e, s')"
    and "sub \<and> Pin_Defined p' \<Longrightarrow> storable s p'"
  shows "st_inv s' \<and> storable s' = storable s \<and>
    pins s' = (if e = None then (pins s)(pin_Cid pin \<mapsto> norm p') else pins s)"
  using assms(3)
proof (cases rule: cluster_pin_cases)
  case refused
  then show ?thesis using assms(2) by auto
next
  case update
  then have "Cid_Defined (pin_Cid pin)" using assms(3) by (auto simp: cluster_pin_def split: if_splits)
  from PinUpdate_pins [OF assms(1,2) update(3) _ this] assms(4) update(2) show ?thesis by blast
next
  case (logged existing p allocs)
  have cid: "pin_Cid p' = pin_Cid pin" using setupPin_ok(4) [OF logged(3)] logged(6) by simp
  obtain e1 where e1: "log_pin p' s = (e1, s')" "e = map_option StateErr e1"
    using logged(7) assms(1) by (auto simp: cluster_over_def elim!: log_resultE)
  have "storable s p'" using assms(4) logged(2,9) cid by (simp add: Pin_Defined_def)
  from log_pin_pins [OF assms(2) this e1(1)] e1(2) cid show ?thesis by simp
qed

end

section \<open>The CRDT component as the consensus\<close>

text \<open>With the default configuration, updates are not batched: they go straight to the state.\<close>

definition ds_ops :: "'d dsState batching_ops" where
  "ds_ops = \<lparr>bo_Add = ds_Add, bo_Rm = ds_Rm, bo_Commit = (\<lambda>st. (None, st))\<rparr>"

abbreviation crdt_inv :: "'d dsState batcher \<Rightarrow> bool" where
  "crdt_inv b \<equiv> dsst_inv (cb_state b)"

abbreviation crdt_pins :: "'d dsState batcher \<Rightarrow> cid \<rightharpoonup> Pin" where
  "crdt_pins b \<equiv> ds_pins (cb_state b)"

abbreviation crdt_storable :: "'d dsState batcher \<Rightarrow> Pin \<Rightarrow> bool" where
  "crdt_storable b \<equiv> ds_storable (cb_state b)"

lemma crdt_log_unbatched:
  "crdt_LogPin ds_ops crdt_Default p b = (case ds_Add p (cb_state b) of (e, st) \<Rightarrow> (e, b\<lparr>cb_state := st\<rparr>))"
  "crdt_LogUnpin ds_ops crdt_Default p b = (case ds_Rm (pin_Cid p) (cb_state b) of (e, st) \<Rightarrow> (e, b\<lparr>cb_state := st\<rparr>))"
  by (simp_all add: crdt_LogPin_def crdt_LogUnpin_def log_item_def batchingEnabled_def crdt_Default_def ds_ops_def)

interpretation crdtlog: consensus_log crdt_inv crdt_storable "stored_pin zero_Pin" crdt_pins "crdt_State ds_ReadOnly"
  "crdt_LogPin ds_ops crdt_Default" "crdt_LogUnpin ds_ops crdt_Default"
proof (unfold_locales, goal_cases)
  case (1 b)
  then show ?case by (simp add: crdt_State_def)
next
  case (2 b st c)
  then show ?case using dss.get_pins [of "cb_state b" c] by (auto simp: crdt_State_def ds_ReadOnly_def)
next
  case (3 b st)
  then show ?case using ds_List_pins [of "cb_state b"] by (auto simp: crdt_State_def ds_ReadOnly_def)
next
  case (4 b p e b')
  then show ?case using dss.add_pins [of "cb_state b" p e "cb_state b'"] by (auto simp: crdt_log_unbatched split: prod.splits)
next
  case (5 b p e b')
  then show ?case using dss.rm_pins [of "cb_state b" "pin_Cid p" e "cb_state b'"] by (auto simp: crdt_log_unbatched split: prod.splits)
qed

text \<open>A cluster peer over the CRDT component, with the balanced allocator and the pubsub monitor.\<close>

definition cluster_peer :: "string list \<Rightarrow> gotime \<Rightarrow> Monitor \<Rightarrow> 'd dsState batcher cluster \<Rightarrow> bool" where
  "cluster_peer names t mon cl \<longleftrightarrow>
     cluster_over (crdt_State ds_ReadOnly) (crdt_LogPin ds_ops crdt_Default) (crdt_LogUnpin ds_ops crdt_Default) cl \<and>
     balanced_valid names \<and> monitor_inv mon \<and>
     cl_metricNames cl = names \<and> cl_Allocate cl = Allocate names \<and> cl_LatestMetrics cl = LatestMetrics t mon"

abbreviation cluster_eligible :: "'s cluster \<Rightarrow> peer_id list \<Rightarrow> peer_id set" where
  "cluster_eligible cl blacklist \<equiv> eligible (cc_alloc (cl_config cl)) (cl_metricNames cl) (cl_LatestMetrics cl) blacklist"

lemma allocated_ok:
  assumes "cluster_peer names t mon cl" "allocated cl p existing blacklist allocs" "pin_Type p \<noteq> MetaType" "pin_Allocations p = []"
    and "0 < pin_rmin p" "pin_rmin p \<le> pin_rmax p"
  shows "allocation_ok (cluster_eligible cl blacklist) (if Pin_Defined existing then pin_Allocations existing else [])
    (po_UserAllocations (pin_Options p)) (pin_rmin p) (pin_rmax p) (Inr allocs)"
proof -
  have "cluster_allocate cl p existing blacklist = Inr allocs" using assms(2-4) by (simp add: allocated_def)
  then show ?thesis
    using clalloc.allocate_correct [of names mon "pin_rmin p" "pin_rmax p" "cc_alloc (cl_config cl)" t blacklist existing
        "po_UserAllocations (pin_Options p)"] assms(1,5,6)
    by (simp add: cluster_peer_def cluster_allocate_def)
qed

lemma allocated_everywhere:
  assumes "IsPinEverywhere p" "pin_Allocations p = []" "allocated cl p existing blacklist allocs"
  shows "allocs = []"
  using assms by (auto simp: allocated_def cluster_allocate_def allocate_def IsPinEverywhere_def split: if_splits)

lemma setupPin_err: "snd (setupPin cfg now pin existing) \<noteq> Some (AllocErr x)"
proof -
  have valid: "isReplicationFactorValid rmin rmax \<noteq> Some (AllocErr x)" for rmin rmax
    by (simp add: isReplicationFactorValid_def)
  have check: "checkPinType q \<noteq> Some (AllocErr x)" for q by (simp add: checkPinType_def)
  obtain q err where q: "setupReplicationFactor cfg pin = (q, err)" by fastforce
  then have "err \<noteq> Some (AllocErr x)" using valid by (auto simp: setupReplicationFactor_def Let_def)
  with q check [of q] show ?thesis by (cases err) (simp_all add: setupPin_def)
qed

lemma cluster_pin_AllocErr:
  assumes "cluster_pin cl now now' pin blacklist s = (p', sub, Some (AllocErr x), s')" "\<not> updates pin"
  shows "\<exists>existing p. setupPin (cl_config cl) now pin existing = (p, None) \<and>
    (PinGet cl s (pin_Cid pin) = Inr existing \<or> PinGet cl s (pin_Cid pin) = Inl ErrNotFound \<and> existing = zero_Pin) \<and>
    cluster_allocate cl p existing blacklist = Inl x"
proof -
  have upd: "cluster_allocate cl (p\<lparr>pin_Timestamp := now'\<rparr>) ex blacklist = cluster_allocate cl p ex blacklist" for p ex
    by (simp add: cluster_allocate_def)
  obtain existing where ex: "pin_existing cl s (pin_Cid pin) = Inr existing"
    using assms by (auto simp: cluster_pin_def Let_def split: if_splits sum.splits)
  obtain p where p: "setupPin (cl_config cl) now pin existing = (p, None) \<and> pin_submit cl now' existing blacklist p s = (p', sub, Some (AllocErr x), s') \<or>
      (\<exists>e. setupPin (cl_config cl) now pin existing = (p, Some e) \<and> e = AllocErr x)"
    using assms ex by (cases "setupPin (cl_config cl) now pin existing"; cases "snd (setupPin (cl_config cl) now pin existing)")
      (auto simp: cluster_pin_def Let_def split: if_splits)
  have "snd (setupPin (cl_config cl) now pin existing) \<noteq> Some (AllocErr x)"
    by (rule setupPin_err)
  with p have "setupPin (cl_config cl) now pin existing = (p, None)" "cluster_allocate cl p existing blacklist = Inl x"
    by (auto simp: pin_submit_def log_result_def Let_def upd split: if_splits sum.splits)
  then show ?thesis using ex by (auto simp: pin_existing_def split: sum.splits if_splits)
qed

lemma crdt_existing:
  assumes "cluster_peer names t mon cl" "crdt_inv b"
    "PinGet cl b c = Inr existing \<or> PinGet cl b c = Inl ErrNotFound \<and> existing = zero_Pin" "Cid_Defined c"
  shows "(if Pin_Defined existing then pin_Allocations existing else []) =
    (case crdt_pins b c of None \<Rightarrow> [] | Some q \<Rightarrow> pin_Allocations q)"
proof -
  have over: "cluster_over (crdt_State ds_ReadOnly) (crdt_LogPin ds_ops crdt_Default) (crdt_LogUnpin ds_ops crdt_Default) cl"
    using assms(1) by (simp add: cluster_peer_def)
  show ?thesis using assms(3)
  proof
    assume "PinGet cl b c = Inr existing"
    with crdtlog.PinGet_pins(1) [OF over assms(2)] assms(4) show ?thesis by (auto simp: Pin_Defined_def)
  next
    assume *: "PinGet cl b c = Inl ErrNotFound \<and> existing = zero_Pin"
    with crdtlog.PinGet_pins(2) [OF over assms(2)] show ?thesis by (simp add: Pin_Defined_def zero_Pin_def)
  qed
qed

text \<open>
  C2. Pinning. On a peer with the CRDT component, the balanced allocator and the pubsub monitor, pinning a CID that
  does not update another one either stores the returned pin under the CID and changes nothing else, or
  fails and changes nothing. The stored pin has valid replication factors, taken from the configuration where
  they were not given. Pinned everywhere, it has no allocations. Otherwise its allocations are those of the
  existing pin if enough of them are eligible, or as many different eligible peers as the factors ask
  for. An allocation error means that fewer peers than the minimum are eligible.
\<close>

theorem cluster_Pin_correct:
  assumes "cluster_peer names t mon cl" "crdt_inv b" "cluster_Pin cl now now' h opts b = (p, e, b')"
    and "po_PinUpdate opts \<in> {CidUndef, h}" "Pin_Defined p \<longrightarrow> crdt_storable b p"
  shows "crdt_inv b' \<and> crdt_pins b' = (if e = None then (crdt_pins b)(h \<mapsto> stored_pin zero_Pin p) else crdt_pins b) \<and>
    (let rmin = or_default (po_ReplicationFactorMin opts) (cc_ReplicationFactorMin (cl_config cl));
         rmax = or_default (po_ReplicationFactorMax opts) (cc_ReplicationFactorMax (cl_config cl))
     in (e = None \<longrightarrow> pin_Cid p = h \<and> pin_rmin p = rmin \<and> pin_rmax p = rmax \<and>
          (rmin = -1 \<and> rmax = -1 \<and> pin_Allocations p = [] \<or>
           0 < rmin \<and> rmin \<le> rmax \<and> allocation_ok (cluster_eligible cl [])
             (case crdt_pins b h of None \<Rightarrow> [] | Some q \<Rightarrow> pin_Allocations q) (po_UserAllocations opts) rmin rmax
             (Inr (pin_Allocations p)))) \<and>
        (\<forall>x. e = Some (AllocErr x) \<and> 0 < rmin \<longrightarrow> int (card (cluster_eligible cl [])) < rmin))"
proof -
  let ?pin = "PinWithOpts now h opts"
  have over: "cluster_over (crdt_State ds_ReadOnly) (crdt_LogPin ds_ops crdt_Default) (crdt_LogUnpin ds_ops crdt_Default) cl"
    using assms(1) by (simp add: cluster_peer_def)
  have pin: "pin_Cid ?pin = h" "pin_Type ?pin = DataType" "pin_Allocations ?pin = []" "pin_Options ?pin = opts"
    by (simp_all add: PinWithOpts_def PinCid_def Let_def)
  obtain sub where r: "cluster_pin cl now now' ?pin [] b = (p, sub, e, b')"
    using assms(3) by (auto simp: cluster_Pin_def split: prod.splits)
  have upd: "\<not> updates ?pin" using assms(4) pin by (auto simp: CidUndef_def)
  have state: "crdt_inv b' \<and> crdt_pins b' = (if e = None then (crdt_pins b)(h \<mapsto> stored_pin zero_Pin p) else crdt_pins b)"
    using crdtlog.pin_pins [OF over assms(2) r] assms(5) pin(1) by simp
  have data: "DataType \<noteq> MetaType" by (simp add: pin_type_values)
  show ?thesis
  proof (cases "e = None")
    case True
    with r upd show ?thesis
    proof (cases rule: cluster_pin_cases)
      case (logged existing q allocs)
      note ok = setupPin_ok [OF logged(3)]
      have p: "pin_rmin p = pin_rmin q" "pin_rmax p = pin_rmax q" "pin_Allocations p = allocs" "pin_Cid p = h" using logged(6) ok(4) pin by simp_all
      have q: "pin_Type q \<noteq> MetaType" "pin_Allocations q = []" using ok(5,6) pin data by (simp_all split: if_splits)
      have ex: "(if Pin_Defined existing then pin_Allocations existing else []) = (case crdt_pins b h of None \<Rightarrow> [] | Some q \<Rightarrow> pin_Allocations q)"
        using crdt_existing [OF assms(1,2) logged(4)] logged(9) pin by (simp add: Pin_Defined_def)
      from ok(3) show ?thesis
        using state True p ok(1,2,7) pin allocated_ok [OF assms(1) logged(5) q] allocated_everywhere [OF _ q(2) logged(5)] ex
        by (auto simp: Let_def IsPinEverywhere_def)
    qed (use True in auto)
  next
    case False
    have "int (card (cluster_eligible cl [])) < or_default (po_ReplicationFactorMin opts) (cc_ReplicationFactorMin (cl_config cl))"
      if x: "e = Some (AllocErr x)" "0 < or_default (po_ReplicationFactorMin opts) (cc_ReplicationFactorMin (cl_config cl))" for x
    proof -
      from cluster_pin_AllocErr [of cl now now' ?pin "[]" b p sub x b'] r x(1) upd obtain existing q where
        q: "setupPin (cl_config cl) now ?pin existing = (q, None)" "cluster_allocate cl q existing [] = Inl x" by auto
      note ok = setupPin_ok [OF q(1)]
      have "0 < pin_rmin q" "pin_rmin q \<le> pin_rmax q" using ok(1,3) x(2) pin by (auto simp: IsPinEverywhere_def)
      then show ?thesis using clalloc.allocate_correct [of names mon "pin_rmin q" "pin_rmax q" "cc_alloc (cl_config cl)" t "[]" existing
          "po_UserAllocations (pin_Options q)"] assms(1) q(2) ok(1) pin
        by (simp add: cluster_peer_def cluster_allocate_def allocation_ok_def Let_def)
    qed
    then show ?thesis using False state by (auto simp: Let_def)
  qed
qed

definition example_cluster_config :: cluster_config where
  "example_cluster_config = \<lparr>cc_FollowerMode = False, cc_DisableRepinning = False, cc_ReplicationFactorMin = 1,
     cc_ReplicationFactorMax = 2, cc_alloc = example_alloc_config\<rparr>"

definition example_cluster :: "(string, bytes) gomap dsState batcher cluster" where
  "example_cluster = \<lparr>cl_id = ''p1'', cl_config = example_cluster_config, cl_State = crdt_State ds_ReadOnly,
     cl_LogPin = crdt_LogPin ds_ops crdt_Default, cl_LogUnpin = crdt_LogUnpin ds_ops crdt_Default,
     cl_Peers = (\<lambda>s. Inr [''p1'', ''p2'', ''p3'']), cl_metricNames = [''freespace''], cl_Allocate = Allocate [''freespace''],
     cl_LatestMetrics = LatestMetrics 20 example_monitor, cl_Resolve = Inr, cl_BlockGet = Inr,
     cl_CborLinks = (\<lambda>b. Inr []), cl_Sum256 = (\<lambda>k. take 32 (map (\<lambda>c. word_of_nat (of_char c)) k @ replicate 32 0))\<rparr>"

lemma example_cluster_simps [simp]:
  "cl_State example_cluster = crdt_State ds_ReadOnly" "cl_config example_cluster = example_cluster_config"
  "cl_LogPin example_cluster = crdt_LogPin ds_ops crdt_Default" "cl_LogUnpin example_cluster = crdt_LogUnpin ds_ops crdt_Default"
  "cc_FollowerMode example_cluster_config = False" "cc_DisableRepinning example_cluster_config = False"
  by (simp_all add: example_cluster_def example_cluster_config_def)

lemma example_cluster_peer: "cluster_peer [''freespace''] 20 example_monitor example_cluster"
  by (simp add: cluster_peer_def cluster_over_def example_monitor_inv balanced_valid_def) (simp add: example_cluster_def)

definition example_opts :: PinOptions where
  "example_opts = (pin_Options example_pin)\<lparr>po_UserAllocations := [''p2'', ''p1'']\<rparr>"

lemma example_opts_simps [simp]:
  "po_ReplicationFactorMin example_opts = 1" "po_ReplicationFactorMax example_opts = 2" "po_ExpireAt example_opts = zero_time"
  "po_PinUpdate example_opts = CidUndef" "po_UserAllocations example_opts = [''p2'', ''p1'']" "po_Mode example_opts = 0"
  by (simp_all add: example_opts_def example_pin_def zero_PinOptions_def)

lemma zero_pin_undefined [simp]: "\<not> Pin_Defined zero_Pin" "time_IsZero zero_time"
  by (simp_all add: Pin_Defined_def zero_Pin_def time_IsZero_def)

definition example_result :: Pin where
  "example_result = example_pin\<lparr>pin_Options := example_opts\<rparr>"

abbreviation example_b :: "(string, bytes) gomap dsState batcher" where
  "example_b \<equiv> batcher_init example_dsst"

definition example_b1 :: "(string, bytes) gomap dsState batcher" where
  "example_b1 = example_b\<lparr>cb_state := snd (ds_Add example_result example_dsst)\<rparr>"

lemma example_b_inv: "crdt_inv example_b" "crdt_pins example_b = Map.empty"
  using example_dsst_inv
  by (simp_all add: batcher_init_def ds_pins_def example_dsst_def dsstate_New_def fun_eq_iff)

lemma example_result_ok: "ds_storable example_dsst example_result" "ds_Add example_result example_dsst = (None, cb_state example_b1)"
proof -
  have "codec_ok cd example_result = codec_ok cd example_pin" for cd
    unfolding codec_ok_def by (simp add: example_result_def example_opts_def)
  moreover have "serialisable example_result = serialisable example_pin"
    unfolding serialisable_def by (simp add: example_result_def example_opts_def)
  ultimately show "ds_storable example_dsst example_result"
    using example_pin_storable by (simp add: ds_storable_def) (simp add: example_result_def)
  have "ProtoMarshal example_codec example_result = ProtoMarshal example_codec example_pin"
    unfolding ProtoMarshal_def Let_def by (simp add: example_result_def example_opts_def split: sum.split)
  then have ser: "serializePin example_dsst example_result = Inr ''01''"
    using example_pin_ok(4) by (simp add: serializePin_def example_dsst_def dsstate_New_def) (simp add: example_ds_def)
  show "ds_Add example_result example_dsst = (None, cb_state example_b1)"
    using ser by (simp add: ds_Add_def example_b1_def ds_Has_def example_dsst_def dsstate_New_def) (simp add: example_ds_def Let_def)
qed

lemma example_allocs: "allocate example_alloc_config (Allocate [''freespace'']) [''freespace''] (LatestMetrics 20 example_monitor)
     zero_Pin 1 2 [] [''p2'', ''p1''] = Inr [''p2'', ''p1'']"
  by code_simp

lemma example_Pin: "cluster_Pin example_cluster 0 (5 * second) ''Qm'' example_opts example_b = (example_result, None, example_b1)"
proof -
  have ex: "pin_existing example_cluster example_b ''Qm'' = Inr zero_Pin"
    using dss.get_pins [OF example_b_inv(1), of "''Qm''"] example_b_inv(2)
    by (simp add: pin_existing_def PinGet_def crdt_State_def ds_ReadOnly_def)
  have opts: "pin_Options (PinWithOpts 0 ''Qm'' example_opts) = example_opts" "pin_Cid (PinWithOpts 0 ''Qm'' example_opts) = ''Qm''"
    by (simp_all add: PinWithOpts_def PinCid_def Let_def)
  let ?q = "(PinWithOpts 0 ''Qm'' example_opts)\<lparr>pin_Timestamp := 5 * second\<rparr>"
  have set: "setupPin example_cluster_config 0 (PinWithOpts 0 ''Qm'' example_opts) zero_Pin = (PinWithOpts 0 ''Qm'' example_opts, None)"
    by (simp add: setupPin_def setupReplicationFactor_def opts Let_def IsPinEverywhere_def isReplicationFactorValid_def)
  have "cluster_allocate example_cluster ?q zero_Pin [] = Inr [''p2'', ''p1'']"
    using example_allocs by (simp add: cluster_allocate_def opts)
      (simp add: example_cluster_def example_cluster_config_def)
  moreover have "?q\<lparr>pin_Allocations := [''p2'', ''p1'']\<rparr> = example_result"
    by (simp add: PinWithOpts_def PinCid_def Let_def example_result_def example_pin_def zero_Pin_def PinMode_ToPinDepth_def
        PinModeRecursive_def)
  moreover have "pin_Type ?q \<noteq> MetaType" "pin_Allocations ?q = []"
    by (simp_all add: PinWithOpts_def PinCid_def Let_def pin_type_values)
  moreover have "crdt_LogPin ds_ops crdt_Default example_result example_b = (None, example_b1)"
    using example_result_ok(2) by (cases "ds_Add example_result example_dsst") (simp add: crdt_log_unbatched batcher_init_def example_b1_def)
  ultimately have "pin_submit example_cluster (5 * second) zero_Pin [] (PinWithOpts 0 ''Qm'' example_opts) example_b = (example_result, True, None, example_b1)"
    by (simp add: pin_submit_def Let_def log_result_def)
  with ex set show ?thesis by (simp add: cluster_Pin_def cluster_pin_def opts CidUndef_def)
qed

theorem cluster_Pin_correct_witness:
  "cluster_Pin example_cluster 0 (5 * second) ''Qm'' example_opts example_b = (example_result, None, example_b1) \<and>
   crdt_pins example_b1 = [''Qm'' \<mapsto> stored_pin zero_Pin example_result]"
proof -
  have "po_PinUpdate example_opts \<in> {CidUndef, ''Qm''}" by simp
  from cluster_Pin_correct [OF example_cluster_peer example_b_inv(1) example_Pin this] example_result_ok(1) example_b_inv(2)
  show ?thesis using example_Pin by (simp add: batcher_init_def)
qed

text \<open>
  C16. Unpinning. It removes the CID and, for a sharded pin, its shards and its cluster DAG node, and nothing
  else; if it fails it has removed at most these. Only data and sharded pins can be removed, and the
  returned pin is the one that was stored.
\<close>

theorem cluster_Unpin_correct:
  assumes "cluster_peer names t mon cl" "crdt_inv b" "cluster_Unpin cl now h b = (p, e, b')"
  shows "crdt_inv b' \<and> (\<exists>gone. crdt_pins b' = crdt_pins b |` (- gone) \<and> gone \<subseteq> unpin_cids cl b h \<and>
    (e = None \<longrightarrow> gone = unpin_cids cl b h \<and> h \<in> gone \<and> crdt_pins b h = Some p \<and> pin_Type p \<in> {DataType, MetaType}))"
  using crdtlog.Unpin_pins [of cl b now h p e b'] assms by (simp add: cluster_peer_def)

theorem cluster_Unpin_correct_witness:
  "\<exists>p e b'. cluster_Unpin example_cluster 0 ''Qm'' example_b1 = (p, e, b') \<and>
     (\<exists>gone. crdt_pins b' = crdt_pins example_b1 |` (- gone) \<and> gone \<subseteq> {''Qm''})"
proof -
  have inv: "crdt_inv example_b1" "crdt_pins example_b1 = [''Qm'' \<mapsto> stored_pin zero_Pin example_result]"
    using dss.add_pins [OF example_dsst_inv example_result_ok] example_b_inv(2)
    by (simp_all add: example_b1_def batcher_init_def example_result_def example_pin_def)
  have "unpin_cids example_cluster example_b1 ''Qm'' = {''Qm''}"
    using dss.get_pins [OF inv(1), of "''Qm''"] inv(2)
    by (simp add: unpin_cids_def PinGet_def crdt_State_def ds_ReadOnly_def)
      (simp add: stored_pin_def Let_def example_result_def example_pin_def)
  moreover obtain p e b' where "cluster_Unpin example_cluster 0 ''Qm'' example_b1 = (p, e, b')" by (metis prod_cases3)
  ultimately show ?thesis using cluster_Unpin_correct [OF example_cluster_peer inv(1), of 0 "''Qm''"] by fastforce
qed

text \<open>
  A pin that is not yet in the state is not checked against its type: a cluster DAG pin that references
  no meta pin is accepted, which the check refuses for a pin that is in the state.
\<close>

theorem setupPin_new_unchecked:
  "\<exists>pin. checkPinType pin \<noteq> None \<and> pin_Type pin = ClusterDAGType \<and> setupPin example_cluster_config 0 pin zero_Pin = (pin, None)"
proof -
  let ?pin = "zero_Pin\<lparr>pin_Cid := ''Qm'', pin_Type := ClusterDAGType, pin_Options := zero_PinOptions\<lparr>po_ReplicationFactorMin := 1, po_ReplicationFactorMax := 2\<rparr>\<rparr>"
  have "checkPinType ?pin \<noteq> None" by (simp add: checkPinType_def pin_type_values zero_Pin_def)
  moreover have "setupPin example_cluster_config 0 ?pin zero_Pin = (?pin, None)"
    by (simp add: setupPin_def setupReplicationFactor_def Let_def IsPinEverywhere_def isReplicationFactorValid_def)
      (simp add: zero_PinOptions_def)
  ultimately show ?thesis by (intro exI [of _ ?pin]) (simp add: zero_Pin_def)
qed

end
