(* ===== verification/Cluster_Sync.thy ===== *)
theory Cluster_Sync
  imports Cluster_Pin
begin

text \<open>
  The rest of \<open>cluster.go\<close> that acts on the pin set without a request: \<open>StateSync\<close> unpins expired items,
  \<open>alertsHandler\<close> and \<open>vacatePeer\<close> move pins away from a peer. Peers act without coordination: each one handles
  the CIDs it is closest to. \<open>clock i\<close> are the times that the calls of the \<open>i\<close>-th round of a loop read, and what
  the loops log as errors is part of their result.
\<close>

section \<open>Who acts\<close>

definition getTrustedPeers :: "'s cluster \<Rightarrow> 's \<Rightarrow> peer_id \<Rightarrow> state_error + peer_id list" where
  "getTrustedPeers cl s exclude =
     (case cl_Peers cl s of
        Inl err \<Rightarrow> Inl err
      | Inr peers \<Rightarrow>
          Inr (foldl (\<lambda>trustedPeers p.
                 if p = cl_id cl \<or> p = exclude \<or> \<not> ac_IsTrustedPeer (cc_alloc (cl_config cl)) p
                 then trustedPeers else trustedPeers @ [p]) [] peers))"

definition distances :: "'s cluster \<Rightarrow> 's \<Rightarrow> peer_id \<Rightarrow> state_error + distanceChecker" where
  "distances cl s exclude =
     (case getTrustedPeers cl s exclude of
        Inl err \<Rightarrow> Inl err
      | Inr trustedPeers \<Rightarrow> Inr \<lparr>dc_local = cl_id cl, dc_otherPeers = trustedPeers, dc_cache = []\<rparr>)"

section \<open>Expired items\<close>

type_synonym clock = "nat \<Rightarrow> gotime \<times> gotime"

fun StateSync_loop ::
  "'s cluster \<Rightarrow> clock \<Rightarrow> gotime \<Rightarrow> nat \<Rightarrow> Pin list \<Rightarrow> distanceChecker \<Rightarrow> 's \<Rightarrow> cluster_error list \<times> 's" where
  "StateSync_loop cl clock timeNow i [] dc s = ([], s)"
| "StateSync_loop cl clock timeNow i (p # ps) dc s =
     (if ExpiredAt p timeNow
      then (case isClosest (cl_Sum256 cl) dc (pin_Cid p) of
              (False, dc) \<Rightarrow> StateSync_loop cl clock timeNow (Suc i) ps dc s
            | (True, dc) \<Rightarrow>
                (case cluster_Unpin cl (fst (clock i)) (pin_Cid p) s of
                   (_, None, s) \<Rightarrow> StateSync_loop cl clock timeNow (Suc i) ps dc s
                 | (_, Some err, s) \<Rightarrow>
                     (case StateSync_loop cl clock timeNow (Suc i) ps dc s of (errs, s) \<Rightarrow> (err # errs, s))))
      else StateSync_loop cl clock timeNow (Suc i) ps dc s)"

definition StateSync :: "'s cluster \<Rightarrow> clock \<Rightarrow> gotime \<Rightarrow> 's \<Rightarrow> cluster_error option \<times> cluster_error list \<times> 's" where
  "StateSync cl clock timeNow s =
     (if cc_FollowerMode (cl_config cl) then (None, [], s)
      else case cl_State cl s of
        Inl err \<Rightarrow> (Some (StateErr err), [], s)
      | Inr cState \<Rightarrow>
          (case distances cl s [] of
             Inl err \<Rightarrow> (Some (StateErr err), [], s)
           | Inr dc \<Rightarrow> (None, StateSync_loop cl clock timeNow 0 (st_List cState) dc s)))"

section \<open>Moving pins away from a peer\<close>

text \<open>\<open>repinFromPeer\<close>, with whether it logs that the pin was moved.\<close>

definition repinFromPeer :: "'s cluster \<Rightarrow> gotime \<times> gotime \<Rightarrow> peer_id \<Rightarrow> Pin \<Rightarrow> 's \<Rightarrow> bool \<times> 's" where
  "repinFromPeer cl now p pin s =
     (case cluster_pin cl (fst now) (snd now) (pin\<lparr>pin_Allocations := []\<rparr>) [p] s of
        (_, ok, err, s) \<Rightarrow> (ok \<and> err = None, s))"

text \<open>The repins of a loop in order, with the CIDs that were moved.\<close>

fun repin_all :: "'s cluster \<Rightarrow> clock \<Rightarrow> peer_id \<Rightarrow> (nat \<times> Pin) list \<Rightarrow> 's \<Rightarrow> cid list \<times> 's" where
  "repin_all cl clock p [] s = ([], s)"
| "repin_all cl clock p ((i, pin) # todo) s =
     (case repinFromPeer cl (clock i) p pin s of
        (ok, s) \<Rightarrow>
          (case repin_all cl clock p todo s of
             (moved, s) \<Rightarrow> (if ok then pin_Cid pin # moved else moved, s)))"


section \<open>Alerts\<close>

definition maxAlerts :: nat where
  "maxAlerts = 1000"

definition pingMetricName :: string where
  "pingMetricName = ''ping''"

text \<open>The pins of the failed peer that this peer is closest to.\<close>

fun alert_pins :: "'s cluster \<Rightarrow> peer_id \<Rightarrow> (nat \<times> Pin) list \<Rightarrow> distanceChecker \<Rightarrow> (nat \<times> Pin) list" where
  "alert_pins cl peer [] dc = []"
| "alert_pins cl peer ((i, pin) # ps) dc =
     (if containsPeer (pin_Allocations pin) peer
      then (case isClosest (cl_Sum256 cl) dc (pin_Cid pin) of
              (True, dc) \<Rightarrow> (i, pin) # alert_pins cl peer ps dc
            | (False, dc) \<Rightarrow> alert_pins cl peer ps dc)
      else alert_pins cl peer ps dc)"

text \<open>One alert: whether the handler goes on, the alerts recorded, and the state.\<close>

definition alertsHandler_alert :: "'s cluster \<Rightarrow> clock \<Rightarrow> Alert \<Rightarrow> Alert list \<times> 's \<Rightarrow> bool \<times> Alert list \<times> 's" where
  "alertsHandler_alert cl clock alrt st =
     (case st of (alerts, s) \<Rightarrow>
        if cc_FollowerMode (cl_config cl) then (True, alerts, s)
        else let alerts = (if length alerts > maxAlerts then [] else alerts) @ [alrt]
             in if m_Name (al_Metric alrt) \<noteq> pingMetricName then (True, alerts, s)
                else if cc_DisableRepinning (cl_config cl) then (False, alerts, s)
                else (case cl_State cl s of
                        Inl err \<Rightarrow> (False, alerts, s)
                      | Inr cState \<Rightarrow>
                          (case distances cl s (m_Peer (al_Metric alrt)) of
                             Inl err \<Rightarrow> (False, alerts, s)
                           | Inr dc \<Rightarrow>
                               let peer = m_Peer (al_Metric alrt)
                               in (True, alerts, snd (repin_all cl clock peer (alert_pins cl peer (enumerate 0 (st_List cState)) dc) s)))))"

text \<open>The handler on a sequence of alerts: it stops at the first one that makes it return.\<close>

fun alertsHandler :: "'s cluster \<Rightarrow> (clock \<times> Alert) list \<Rightarrow> Alert list \<times> 's \<Rightarrow> Alert list \<times> 's" where
  "alertsHandler cl [] st = st"
| "alertsHandler cl ((clock, alrt) # alrts) st =
     (case alertsHandler_alert cl clock alrt st of
        (True, st) \<Rightarrow> alertsHandler cl alrts st
      | (False, st) \<Rightarrow> st)"

text \<open>\<open>Alerts\<close> copies the recorded alerts into a slice of the same length, from its end.\<close>

definition cluster_Alerts :: "Alert \<Rightarrow> Alert list \<Rightarrow> Alert list" where
  "cluster_Alerts zero_alert alerts =
     foldl (\<lambda>out (i, a). out[length alerts - 1 - i := a]) (replicate (length alerts) zero_alert) (enumerate 0 alerts)"

section \<open>Exactly one peer acts on a CID\<close>

definition elected :: "'s cluster \<Rightarrow> 's \<Rightarrow> peer_id \<Rightarrow> cid \<Rightarrow> bool" where
  "elected cl s exclude c \<longleftrightarrow> (case distances cl s exclude of Inl err \<Rightarrow> False | Inr dc \<Rightarrow> fst (isClosest (cl_Sum256 cl) dc c))"

lemma distances_eq:
  assumes "cl_Peers cl s = Inr peers"
  shows "distances cl s exclude = Inr \<lparr>dc_local = cl_id cl,
    dc_otherPeers = filter (\<lambda>p. p \<noteq> cl_id cl \<and> p \<noteq> exclude \<and> ac_IsTrustedPeer (cc_alloc (cl_config cl)) p) peers, dc_cache = []\<rparr>"
proof -
  have "foldl (\<lambda>trustedPeers p. if p = i \<or> p = x \<or> \<not> T p then trustedPeers else trustedPeers @ [p]) acc peers =
      acc @ filter (\<lambda>p. p \<noteq> i \<and> p \<noteq> x \<and> T p) peers" for i x acc and T :: "peer_id \<Rightarrow> bool"
    by (induction peers arbitrary: acc) auto
  from this [of "cl_id cl" exclude _ "[]"] show ?thesis using assms by (simp add: distances_def getTrustedPeers_def)
qed

lemma elected_iff:
  assumes "cl_Peers cl s = Inr peers"
  shows "elected cl s exclude c \<longleftrightarrow> (\<forall>p \<in> set peers. p \<noteq> cl_id cl \<longrightarrow> p \<noteq> exclude \<longrightarrow> ac_IsTrustedPeer (cc_alloc (cl_config cl)) p \<longrightarrow>
    xor_distance (cl_Sum256 cl (cl_id cl)) (cl_Sum256 cl c) \<le> xor_distance (cl_Sum256 cl p) (cl_Sum256 cl c))"
proof -
  let ?dc = "\<lparr>dc_local = cl_id cl,
    dc_otherPeers = filter (\<lambda>p. p \<noteq> cl_id cl \<and> p \<noteq> exclude \<and> ac_IsTrustedPeer (cc_alloc (cl_config cl)) p) peers, dc_cache = []\<rparr>"
  have "cache_ok (cl_Sum256 cl) ?dc" by (simp add: cache_ok_def)
  from isClosest_cached [OF this, of c] show ?thesis
    by (auto simp: elected_def distances_eq [OF assms] xor_distance_commute)
qed

text \<open>
  C3. Exactly one peer acts. In a cluster whose peers know and trust each other and whose hashes have the same
  length and do not collide, every CID has exactly one peer, among those that are not excluded, that finds itself
  closest to it: expired items are unpinned and pins of a failed peer are moved once, by one peer.
\<close>

theorem one_peer_elected:
  assumes "\<forall>p \<in> set peers. cl_id (net p) = p \<and> cl_Peers (net p) (st p) = Inr peers \<and> cl_Sum256 (net p) = hash \<and>
      (\<forall>q \<in> set peers. ac_IsTrustedPeer (cc_alloc (cl_config (net p))) q)"
    and "\<forall>k. length (hash k) = 32" "inj_on hash (set peers)" "set peers - {exclude} \<noteq> {}"
  shows "\<exists>!p. p \<in> set peers - {exclude} \<and> elected (net p) (st p) exclude c"
proof -
  let ?d = "\<lambda>p. xor_distance (hash p) (hash c)"
  have el: "elected (net p) (st p) exclude c \<longleftrightarrow> (\<forall>q \<in> set peers - {exclude}. ?d p \<le> ?d q)" if "p \<in> set peers - {exclude}" for p
    using elected_iff [of "net p" "st p" peers exclude c] assms(1) that by auto
  have "inj_on ?d (set peers - {exclude})"
  proof (rule inj_onI)
    fix p q
    assume pq: "p \<in> set peers - {exclude}" "q \<in> set peers - {exclude}" "?d p = ?d q"
    from xor_distance_inj [OF _ _ pq(3)] assms(2) have "hash p = hash q" by simp
    with assms(3) pq show "p = q" by (auto dest: inj_onD)
  qed
  from closest_exists [OF assms(4) _ this] el show ?thesis by (metis (no_types, lifting) finite_Diff List.finite_set)
qed

definition example_net :: "peer_id \<Rightarrow> (string, bytes) gomap dsState batcher cluster" where
  "example_net p = example_cluster\<lparr>cl_id := p\<rparr>"

theorem one_peer_elected_witness:
  "\<exists>!p. p \<in> set [''p1'', ''p2'', ''p3''] - {''p3''} \<and> elected (example_net p) example_b ''p3'' ''Qm''"
proof -
  have "inj_on (cl_Sum256 example_cluster) (set [''p1'', ''p2'', ''p3''])"
    by (simp add: example_cluster_def)
  moreover have "\<forall>k. length (cl_Sum256 example_cluster k) = 32" by (simp add: example_cluster_def min_def)
  moreover have "\<forall>p \<in> set [''p1'', ''p2'', ''p3'']. cl_id (example_net p) = p \<and> cl_Peers (example_net p) example_b = Inr [''p1'', ''p2'', ''p3''] \<and>
      cl_Sum256 (example_net p) = cl_Sum256 example_cluster \<and>
      (\<forall>q \<in> set [''p1'', ''p2'', ''p3'']. ac_IsTrustedPeer (cc_alloc (cl_config (example_net p))) q)"
    by (simp add: example_net_def) (simp add: example_cluster_def example_cluster_config_def example_alloc_config_def)
  ultimately show ?thesis
    using one_peer_elected [of "[''p1'', ''p2'', ''p3'']" example_net "\<lambda>p. example_b" "cl_Sum256 example_cluster" "''p3''" "''Qm''"]
    by simp
qed

section \<open>What \<open>StateSync\<close> removes\<close>

definition unpin_scope :: "'s cluster \<Rightarrow> (cid \<rightharpoonup> Pin) \<Rightarrow> cid \<Rightarrow> cid set" where
  "unpin_scope cl m h =
     (case m h of
        None \<Rightarrow> {}
      | Some p \<Rightarrow>
          if pin_Type p = DataType then {h}
          else if pin_Type p \<noteq> MetaType then {}
          else {c. \<exists>ref q blk links. pin_Reference p = Some ref \<and> m ref = Some q \<and> cl_BlockGet cl (pin_Cid q) = Inr blk \<and>
                 cl_CborLinks cl blk = Inr links \<and> c \<in> {h, ref} \<union> set links})"

lemma unpin_scope_mono: "m \<subseteq>\<^sub>m m' \<Longrightarrow> unpin_scope cl m h \<subseteq> unpin_scope cl m' h"
proof -
  assume le: "m \<subseteq>\<^sub>m m'"
  have up: "m' k = Some v" if "m k = Some v" for k v using le that by (metis domI map_le_def)
  show ?thesis
  proof (cases "m h")
    case (Some p)
    with up [OF Some] show ?thesis using up by (auto simp: unpin_scope_def)
  qed (simp add: unpin_scope_def)
qed

definition closest_to :: "(string \<Rightarrow> distance) \<Rightarrow> distanceChecker \<Rightarrow> cid \<Rightarrow> bool" where
  "closest_to hash dc c \<longleftrightarrow>
     (\<forall>p \<in> set (dc_otherPeers dc). xor_distance (hash c) (hash (dc_local dc)) \<le> xor_distance (hash p) (hash c))"

lemma isClosestE:
  assumes "cache_ok hash dc"
  obtains dc' where "isClosest hash dc c = (closest_to hash dc c, dc')" "cache_ok hash dc'" "closest_to hash dc' = closest_to hash dc"
  using isClosest_cached [OF assms, of c] by (auto simp: closest_to_def fun_eq_iff same_checker_def)

definition sync_scope :: "'s cluster \<Rightarrow> (cid \<Rightarrow> bool) \<Rightarrow> gotime \<Rightarrow> Pin list \<Rightarrow> (cid \<rightharpoonup> Pin) \<Rightarrow> cid set" where
  "sync_scope cl acts timeNow ps m = (\<Union>p \<in> {p \<in> set ps. ExpiredAt p timeNow \<and> acts (pin_Cid p)}. unpin_scope cl m (pin_Cid p))"

lemma restrict_restrict_compl: "m |` (- A) |` (- B) = m |` (- (A \<union> B))"
  by (auto simp: restrict_map_def fun_eq_iff)

lemma sync_scope_mono:
  "m \<subseteq>\<^sub>m m' \<Longrightarrow> set ps \<subseteq> set ps' \<Longrightarrow> sync_scope cl acts t ps m \<subseteq> sync_scope cl acts t ps' m'"
  using unpin_scope_mono [of m m' cl] unfolding sync_scope_def by blast

context consensus_log
begin

lemma unpin_cids_scope:
  assumes "over cl" "st_inv s"
  shows "unpin_cids cl s h \<subseteq> unpin_scope cl (pins s) h"
proof (cases "PinGet cl s h")
  case (Inr p)
  then have p: "pins s h = Some p" using PinGet_pins(1) [OF assms] by blast
  show ?thesis
  proof (cases "cidsFromMetaPin cl s h")
    case (Inr cids)
    from cidsFromMetaPin_set [OF Inr] show ?thesis
      using p \<open>PinGet cl s h = Inr p\<close> Inr PinGet_pins(1) [OF assms]
      by (auto simp: unpin_cids_def unpin_scope_def)
  qed (use p Inr in \<open>auto simp: unpin_cids_def unpin_scope_def\<close>)
qed (simp add: unpin_cids_def)

lemma StateSync_loop_pins:
  assumes "over cl" "st_inv s" "cache_ok (cl_Sum256 cl) dc"
    and "StateSync_loop cl clock timeNow i ps dc s = (errs, s')"
  shows "st_inv s' \<and> (\<exists>gone. pins s' = pins s |` (- gone) \<and>
      gone \<subseteq> sync_scope cl (closest_to (cl_Sum256 cl) dc) timeNow ps (pins s)) \<and>
    (errs = [] \<longrightarrow> (\<forall>p \<in> set ps. ExpiredAt p timeNow \<and> closest_to (cl_Sum256 cl) dc (pin_Cid p) \<longrightarrow> pins s' (pin_Cid p) = None))"
  using assms(2-4)
proof (induction ps arbitrary: i dc s errs)
  case Nil
  then show ?case by (auto intro!: exI [of _ "{}"])
next
  case (Cons p ps)
  let ?acts = "closest_to (cl_Sum256 cl) dc"
  obtain dc' where dc': "isClosest (cl_Sum256 cl) dc (pin_Cid p) = (?acts (pin_Cid p), dc')" "cache_ok (cl_Sum256 cl) dc'"
    "closest_to (cl_Sum256 cl) dc' = ?acts" using isClosestE [OF Cons.prems(2)] by blast
  show ?case
  proof (cases "ExpiredAt p timeNow \<and> ?acts (pin_Cid p)")
    case False
    obtain dc1 where r: "StateSync_loop cl clock timeNow (Suc i) ps dc1 s = (errs, s')" "cache_ok (cl_Sum256 cl) dc1"
      "closest_to (cl_Sum256 cl) dc1 = ?acts"
      using False Cons.prems(2,3) dc' by (cases "ExpiredAt p timeNow") auto
    have "{x \<in> set (p # ps). ExpiredAt x timeNow \<and> ?acts (pin_Cid x)} = {x \<in> set ps. ExpiredAt x timeNow \<and> ?acts (pin_Cid x)}"
      using False by auto
    then have eq: "sync_scope cl ?acts timeNow (p # ps) (pins s) = sync_scope cl ?acts timeNow ps (pins s)" by (simp add: sync_scope_def)
    show ?thesis using Cons.IH [OF Cons.prems(1) r(2,1)] False unfolding eq r(3) by (simp, blast)
  next
    case True
    obtain q e s1 where u: "cluster_Unpin cl (fst (clock i)) (pin_Cid p) s = (q, e, s1)" by (metis prod_cases3)
    from Unpin_pins [OF assms(1) Cons.prems(1) u] obtain gone1 where g: "st_inv s1" "pins s1 = pins s |` (- gone1)"
      "gone1 \<subseteq> unpin_cids cl s (pin_Cid p)" "e = None \<longrightarrow> pin_Cid p \<in> gone1" by blast
    obtain errs1 where r: "StateSync_loop cl clock timeNow (Suc i) ps dc' s1 = (errs1, s')" "errs = [] \<longleftrightarrow> errs1 = [] \<and> e = None"
      using Cons.prems(3) True dc'(1) u by (cases e) (auto split: prod.splits)
    from Cons.IH [OF g(1) dc'(2) r(1)] dc'(3) obtain gone2 where g2: "st_inv s'" "pins s' = pins s1 |` (- gone2)"
      "gone2 \<subseteq> sync_scope cl ?acts timeNow ps (pins s1)"
      "errs1 = [] \<longrightarrow> (\<forall>p \<in> set ps. ExpiredAt p timeNow \<and> ?acts (pin_Cid p) \<longrightarrow> pins s' (pin_Cid p) = None)" by auto
    have "pins s1 \<subseteq>\<^sub>m pins s" using g(2) by (auto simp: map_le_def restrict_map_def split: if_splits)
    from sync_scope_mono [OF this, of ps "p # ps" cl ?acts timeNow]
    have "sync_scope cl ?acts timeNow ps (pins s1) \<subseteq> sync_scope cl ?acts timeNow (p # ps) (pins s)" by auto
    moreover have "unpin_cids cl s (pin_Cid p) \<subseteq> sync_scope cl ?acts timeNow (p # ps) (pins s)"
      using unpin_cids_scope [OF assms(1) Cons.prems(1)] True by (auto simp: sync_scope_def)
    ultimately have "gone1 \<union> gone2 \<subseteq> sync_scope cl ?acts timeNow (p # ps) (pins s)" using g(3) g2(3) by blast
    moreover have "pins s' = pins s |` (- (gone1 \<union> gone2))" using g(2) g2(2) by (simp add: restrict_restrict_compl)
    moreover have "errs = [] \<longrightarrow> (\<forall>x \<in> set (p # ps). ExpiredAt x timeNow \<and> ?acts (pin_Cid x) \<longrightarrow> pins s' (pin_Cid x) = None)"
      using r(2) g(4) g2(4) calculation(2) by (auto simp: restrict_map_def)
    ultimately show ?thesis using g2(1) by blast
  qed
qed

end

lemma elected_closest:
  assumes "distances cl s x = Inr dc"
  shows "elected cl s x c = closest_to (cl_Sum256 cl) dc c" "cache_ok (cl_Sum256 cl) dc"
proof -
  have "dc_cache dc = []" using assms by (auto simp: distances_def split: sum.splits)
  then show ok: "cache_ok (cl_Sum256 cl) dc" by (simp add: cache_ok_def)
  obtain dc' where "isClosest (cl_Sum256 cl) dc c = (closest_to (cl_Sum256 cl) dc c, dc')" by (rule isClosestE [OF ok, of c])
  then show "elected cl s x c = closest_to (cl_Sum256 cl) dc c" using assms by (simp add: elected_def)
qed

lemma cluster_peer_over:
  "cluster_peer names t mon cl \<Longrightarrow>
     cluster_over (crdt_State ds_ReadOnly) (crdt_LogPin ds_ops crdt_Default) (crdt_LogUnpin ds_ops crdt_Default) cl"
  by (simp add: cluster_peer_def)

lemma crdt_listed:
  assumes "cluster_peer names t mon cl" "crdt_inv b"
  obtains st where "cl_State cl b = Inr st" "distinct (map pin_Cid (st_List st))"
    "\<And>c p. crdt_pins b c = Some p \<longleftrightarrow> p \<in> set (st_List st) \<and> pin_Cid p = c"
proof
  show "cl_State cl b = Inr (ds_ReadOnly (cb_state b))"
    using cluster_peer_over [OF assms(1)] by (simp add: cluster_over_def crdt_State_def)
  have "crdt_State ds_ReadOnly b = Inr (ds_ReadOnly (cb_state b))" by (simp add: crdt_State_def)
  from crdtlog.state_list [OF assms(2) this] show "distinct (map pin_Cid (st_List (ds_ReadOnly (cb_state b))))"
    "crdt_pins b c = Some p \<longleftrightarrow> p \<in> set (st_List (ds_ReadOnly (cb_state b))) \<and> pin_Cid p = c" for c p by blast+
qed

text \<open>
  C11. Expiry. On a peer that knows its peers, \<open>StateSync\<close> removes only expired items for which the peer is elected,
  with the shards and the cluster DAG node of the sharded ones; when it logs no error, it has removed all expired
  items for which it is elected. A follower changes nothing.
\<close>

theorem StateSync_correct:
  assumes "cluster_peer names t mon cl" "crdt_inv b" "cl_Peers cl b = Inr peers"
    and "StateSync cl clock timeNow b = (e, errs, b')"
  shows "crdt_inv b' \<and> e = None \<and> (cc_FollowerMode (cl_config cl) \<longrightarrow> b' = b) \<and>
    (\<exists>gone. crdt_pins b' = crdt_pins b |` (- gone) \<and>
       gone \<subseteq> (\<Union>h \<in> {h. \<exists>p. crdt_pins b h = Some p \<and> ExpiredAt p timeNow \<and> elected cl b [] h}. unpin_scope cl (crdt_pins b) h)) \<and>
    (errs = [] \<and> \<not> cc_FollowerMode (cl_config cl) \<longrightarrow>
       (\<forall>h p. crdt_pins b h = Some p \<and> ExpiredAt p timeNow \<and> elected cl b [] h \<longrightarrow> crdt_pins b' h = None))"
proof (cases "cc_FollowerMode (cl_config cl)")
  case True
  then show ?thesis using assms(2,4) by (auto simp: StateSync_def intro!: exI [of _ "{}"])
next
  case False
  obtain st where st: "cl_State cl b = Inr st" "\<And>c p. crdt_pins b c = Some p \<longleftrightarrow> p \<in> set (st_List st) \<and> pin_Cid p = c"
    using crdt_listed [OF assms(1,2)] by metis
  obtain dc where dc: "distances cl b [] = Inr dc" using distances_eq [OF assms(3)] by blast
  note el = elected_closest [OF dc]
  have loop: "StateSync_loop cl clock timeNow 0 (st_List st) dc b = (errs, b')" and e: "e = None"
    using assms(4) False st(1) dc by (simp_all add: StateSync_def)
  have scope: "sync_scope cl (closest_to (cl_Sum256 cl) dc) timeNow (st_List st) (crdt_pins b) =
      (\<Union>h \<in> {h. \<exists>p. crdt_pins b h = Some p \<and> ExpiredAt p timeNow \<and> elected cl b [] h}. unpin_scope cl (crdt_pins b) h)"
  proof -
    have "{h. \<exists>p. crdt_pins b h = Some p \<and> ExpiredAt p timeNow \<and> elected cl b [] h} =
        pin_Cid ` {p \<in> set (st_List st). ExpiredAt p timeNow \<and> closest_to (cl_Sum256 cl) dc (pin_Cid p)}"
      by (auto simp: st(2) el(1))
    then show ?thesis by (simp add: sync_scope_def)
  qed
  note r = crdtlog.StateSync_loop_pins [OF cluster_peer_over [OF assms(1)] assms(2) el(2) loop]
  have "crdt_pins b' h = None" if "errs = []" "crdt_pins b h = Some p" "ExpiredAt p timeNow" "elected cl b [] h" for h p
  proof -
    have "p \<in> set (st_List st)" "pin_Cid p = h" "closest_to (cl_Sum256 cl) dc h" using that(2,4) st(2) [of h p] el(1) by simp_all
    with conjunct2 [OF conjunct2 [OF r]] that(1,3) show ?thesis by auto
  qed
  then have "errs = [] \<and> \<not> cc_FollowerMode (cl_config cl) \<longrightarrow>
      (\<forall>h p. crdt_pins b h = Some p \<and> ExpiredAt p timeNow \<and> elected cl b [] h \<longrightarrow> crdt_pins b' h = None)" by blast
  with r [unfolded scope] e False show ?thesis by simp
qed

theorem StateSync_correct_witness:
  "\<exists>e errs b'. StateSync example_cluster (\<lambda>i. (0, 0)) 0 example_b = (e, errs, b') \<and> e = None \<and> crdt_inv b'"
proof -
  have "cl_Peers example_cluster example_b = Inr [''p1'', ''p2'', ''p3'']" by (simp add: example_cluster_def)
  moreover obtain e errs b' where r: "StateSync example_cluster (\<lambda>i. (0, 0)) 0 example_b = (e, errs, b')" by (rule prod_cases3)
  ultimately have "e = None \<and> crdt_inv b'"
    using StateSync_correct [OF example_cluster_peer example_b_inv(1) _ r, of "[''p1'', ''p2'', ''p3'']"] by blast
  with r show ?thesis by blast
qed

section \<open>Moving pins\<close>

definition repin_pin :: "'s cluster \<Rightarrow> Pin \<Rightarrow> gotime \<Rightarrow> peer_id list \<Rightarrow> Pin" where
  "repin_pin cl q t allocs =
     (fst (setupReplicationFactor (cl_config cl) (q\<lparr>pin_Allocations := []\<rparr>)))\<lparr>pin_Timestamp := t, pin_Allocations := allocs\<rparr>"

lemma setupPin_fst: "setupPin cfg now pin existing = (p, None) \<Longrightarrow> p = fst (setupReplicationFactor cfg pin)"
  unfolding setupPin_def by (auto split: prod.splits option.splits if_splits)

context consensus_log
begin

lemma repin_step:
  assumes "over cl" "st_inv s" "pins s c = Some q" "pin_Cid q = c" "\<not> updates q"
    and "\<And>allocs. storable s (repin_pin cl q (snd now) allocs)" "repinFromPeer cl now p q s = (ok, s')"
  shows "st_inv s' \<and> storable s' = storable s \<and>
    (if ok then \<exists>q0 allocs. setupPin (cl_config cl) (fst now) (q\<lparr>pin_Allocations := []\<rparr>) q = (q0, None) \<and> allocated cl q0 q [p] allocs \<and>
        pins s' = (pins s)(c \<mapsto> norm (q0\<lparr>pin_Timestamp := snd now, pin_Allocations := allocs\<rparr>))
     else pins s' = pins s)"
proof -
  let ?q = "q\<lparr>pin_Allocations := []\<rparr>"
  obtain p' sub e s'' where r: "cluster_pin cl (fst now) (snd now) ?q [p] s = (p', sub, e, s'')" by (metis prod_cases4)
  then have s': "s'' = s'" "ok \<longleftrightarrow> sub \<and> e = None" using assms(7) by (auto simp: repinFromPeer_def)
  from r show ?thesis
  proof (cases rule: cluster_pin_cases)
    case refused
    then show ?thesis using assms(2) s' by simp
  next
    case update
    then show ?thesis using assms(5) by simp
  next
    case (logged existing q0 allocs)
    have ex: "existing = q"
      using logged(4) PinGet_pins [OF assms(1,2), of c] assms(3,4) by auto
    have p': "p' = repin_pin cl q (snd now) allocs"
      using logged(6) setupPin_fst [OF logged(3)] by (simp add: repin_pin_def)
    from pin_pins [OF assms(1,2) r] assms(6) p'
    have "st_inv s' \<and> storable s' = storable s \<and> pins s' = (if e = None then (pins s)(c \<mapsto> norm p') else pins s)"
      using assms(4) s'(1) by simp
    then show ?thesis using logged(2,3,5,6) ex s'(2) by auto
  qed
qed

end

definition reallocated :: "'s cluster \<Rightarrow> peer_id \<Rightarrow> Pin \<Rightarrow> Pin \<Rightarrow> bool" where
  "reallocated cl p q q' \<longleftrightarrow> pin_Cid q' = pin_Cid q \<and> pin_Type q' = pin_Type q \<and>
     ((pin_Type q = MetaType \<or> IsPinEverywhere q') \<and> pin_Allocations q' = [] \<or>
      pin_rmin q' \<le> int (card (cluster_eligible cl [p] \<inter> set (pin_Allocations q))) \<and> pin_Allocations q' = pin_Allocations q \<or>
      distinct (pin_Allocations q') \<and> set (pin_Allocations q') \<subseteq> cluster_eligible cl [p] - {p} \<and>
      pin_rmin q' \<le> int (length (pin_Allocations q')) \<and> int (length (pin_Allocations q')) \<le> pin_rmax q')"

lemma eligible_blacklist: "p \<in> set blacklist \<Longrightarrow> p \<notin> eligible cfg names L blacklist"
  by (simp add: eligible_def peer_class_def)

lemma stored_pin_simps [simp]:
  "pin_Cid (stored_pin p0 p) = pin_Cid p" "pin_Type (stored_pin p0 p) = pin_Type p"
  "pin_Allocations (stored_pin p0 p) = pin_Allocations p" "pin_rmin (stored_pin p0 p) = pin_rmin p"
  "pin_rmax (stored_pin p0 p) = pin_rmax p" "IsPinEverywhere (stored_pin p0 p) = IsPinEverywhere p"
  by (simp_all add: stored_pin_def Let_def IsPinEverywhere_def)

lemma reallocated_setup:
  assumes "cluster_peer names t mon cl" "setupPin (cl_config cl) now (q\<lparr>pin_Allocations := []\<rparr>) q = (q0, None)"
    and "allocated cl q0 q [p] allocs" "Pin_Defined q"
  shows "reallocated cl p q (stored_pin zero_Pin (q0\<lparr>pin_Timestamp := now', pin_Allocations := allocs\<rparr>))"
proof -
  note ok = setupPin_ok [OF assms(2)]
  have same: "pin_Cid q0 = pin_Cid q" "pin_Type q0 = pin_Type q" "pin_Allocations q0 = []" using ok(4,5,6) by simp_all
  consider (meta) "pin_Type q = MetaType" | (everywhere) "IsPinEverywhere q0" "pin_Type q \<noteq> MetaType"
    | (some) "0 < pin_rmin q0" "pin_rmin q0 \<le> pin_rmax q0" "pin_Type q \<noteq> MetaType" using ok(3) by blast
  then show ?thesis
  proof cases
    case meta
    then show ?thesis using assms(3) same by (simp add: reallocated_def allocated_def)
  next
    case everywhere
    then show ?thesis using allocated_everywhere [OF _ same(3) assms(3)] same by (simp add: reallocated_def IsPinEverywhere_def)
  next
    case some
    let ?E = "cluster_eligible cl [p]"
    have E: "p \<notin> ?E" by (rule eligible_blacklist) simp
    from allocated_ok [OF assms(1,3) _ same(3) some(1,2)] some(3) same assms(4)
    have "allocation_ok ?E (pin_Allocations q) (po_UserAllocations (pin_Options q0)) (pin_rmin q0) (pin_rmax q0) (Inr allocs)" by simp
    with E some same show ?thesis
      by (auto simp: allocation_ok_def reallocated_def Let_def split: if_splits)
  qed
qed

lemma crdt_repin_all:
  assumes "cluster_peer names t mon cl" "crdt_inv b" "distinct (map (\<lambda>x. pin_Cid (snd x)) todo)"
    and "\<forall>(i, q) \<in> set todo. crdt_pins b (pin_Cid q) = Some q \<and> \<not> updates q \<and> Pin_Defined q \<and>
      (\<forall>allocs. crdt_storable b (repin_pin cl q (snd (clock i)) allocs))"
    and "repin_all cl clock p todo b = (moved, b')"
  shows "crdt_inv b' \<and> set moved \<subseteq> pin_Cid ` snd ` set todo \<and> (\<forall>c. c \<notin> set moved \<longrightarrow> crdt_pins b' c = crdt_pins b c) \<and>
    (\<forall>c \<in> set moved. \<exists>q q'. crdt_pins b c = Some q \<and> crdt_pins b' c = Some q' \<and> reallocated cl p q q')"
  using assms(2-5)
proof (induction todo arbitrary: b moved)
  case Nil
  then show ?case by simp
next
  case (Cons x todo)
  obtain i q where x: "x = (i, q)" by fastforce
  obtain ok b1 where r1: "repinFromPeer cl (clock i) p q b = (ok, b1)" by fastforce
  obtain moved1 where r2: "repin_all cl clock p todo b1 = (moved1, b')" "moved = (if ok then pin_Cid q # moved1 else moved1)"
    using Cons.prems(4) r1 by (auto simp: x split: prod.splits)
  have q: "crdt_pins b (pin_Cid q) = Some q" "\<not> updates q" "Pin_Defined q" "\<And>allocs. crdt_storable b (repin_pin cl q (snd (clock i)) allocs)"
    using Cons.prems(3) x by auto
  note step = crdtlog.repin_step [OF cluster_peer_over [OF assms(1)] Cons.prems(1) q(1) refl q(2,4) r1]
  have other: "crdt_pins b1 c = crdt_pins b c" if "c \<noteq> pin_Cid q \<or> \<not> ok" for c using step that by (auto split: if_splits)
  have mine: "\<exists>q'. crdt_pins b1 (pin_Cid q) = Some q' \<and> reallocated cl p q q'" if ok
    using step that reallocated_setup [OF assms(1) _ _ q(3)] by auto
  have dist: "pin_Cid q \<notin> pin_Cid ` snd ` set todo" using Cons.prems(2) x by force
  have prems: "\<forall>(i, r) \<in> set todo. crdt_pins b1 (pin_Cid r) = Some r \<and> \<not> updates r \<and> Pin_Defined r \<and>
      (\<forall>allocs. crdt_storable b1 (repin_pin cl r (snd (clock i)) allocs))"
  proof (intro ballI, clarify)
    fix j r
    assume r: "(j, r) \<in> set todo"
    then have "pin_Cid r \<in> pin_Cid ` snd ` set todo" by (metis image_eqI snd_conv)
    then have "pin_Cid r \<noteq> pin_Cid q" using dist by metis
    then have "crdt_pins b1 (pin_Cid r) = crdt_pins b (pin_Cid r)" using other by blast
    moreover have "crdt_storable b1 = crdt_storable b" using step by blast
    ultimately show "crdt_pins b1 (pin_Cid r) = Some r \<and> \<not> updates r \<and> Pin_Defined r \<and>
        (\<forall>allocs. crdt_storable b1 (repin_pin cl r (snd (clock j)) allocs))"
      using Cons.prems(3) r by auto
  qed
  have inv: "crdt_inv b1" and d: "distinct (map (\<lambda>x. pin_Cid (snd x)) todo)" using step Cons.prems(2) by simp_all
  note IH = Cons.IH [OF inv d prems r2(1)]
  have new: "pin_Cid q \<notin> set moved1" using IH dist by blast
  have "\<exists>q q'. crdt_pins b c = Some q \<and> crdt_pins b' c = Some q' \<and> reallocated cl p q q'" if "c \<in> set moved" for c
  proof (cases "c = pin_Cid q")
    case True
    then have "ok" "crdt_pins b' c = crdt_pins b1 c" using that new IH r2(2) by (auto split: if_splits)
    with mine q(1) True show ?thesis by auto
  next
    case False
    then have "c \<in> set moved1" using that r2(2) by (auto split: if_splits)
    with IH other False show ?thesis by metis
  qed
  moreover have "crdt_pins b' c = crdt_pins b c" if "c \<notin> set moved" for c
    using that IH other [of c] r2(2) by (auto split: if_splits)
  moreover have "set moved \<subseteq> pin_Cid ` snd ` set (x # todo)" using IH r2(2) x by (auto split: if_splits)
  ultimately show ?case using IH by blast
qed

text \<open>The pins that can be moved: they do not update other pins, and what repinning makes of them can be stored.\<close>

definition repinnable :: "'d dsState batcher cluster \<Rightarrow> clock \<Rightarrow> 'd dsState batcher \<Rightarrow> bool" where
  "repinnable cl clock b \<longleftrightarrow>
     (\<forall>q \<in> ran (crdt_pins b). \<not> updates q \<and> Pin_Defined q \<and>
        (\<forall>i allocs. crdt_storable b (repin_pin cl q (snd (clock i)) allocs)))"

lemma enumerate_pins: "distinct (map pin_Cid ps) \<Longrightarrow> distinct (map (\<lambda>x. pin_Cid (snd x)) (filter P (enumerate n ps)))"
proof -
  assume "distinct (map pin_Cid ps)"
  moreover have "map (\<lambda>x. pin_Cid (snd x)) (enumerate n ps) = map pin_Cid ps"
    by (simp flip: map_map [of pin_Cid snd, unfolded comp_def])
  ultimately show ?thesis by (simp add: distinct_map_filter)
qed

lemma enumerate_mem: "(i, q) \<in> set (enumerate n ps) \<Longrightarrow> q \<in> set ps"
  by (auto simp: enumerate_eq_zip dest: set_zip_rightD)

lemma crdt_repin_listed:
  assumes "cluster_peer names t mon cl" "crdt_inv b" "repinnable cl clock b"
    and "distinct (map pin_Cid ps)" "\<And>c q. crdt_pins b c = Some q \<longleftrightarrow> q \<in> set ps \<and> pin_Cid q = c"
    and "repin_all cl clock p (filter P (enumerate 0 ps)) b = (moved, b')"
  shows "crdt_inv b' \<and> (\<forall>c. c \<notin> set moved \<longrightarrow> crdt_pins b' c = crdt_pins b c) \<and>
    (\<forall>c \<in> set moved. \<exists>q q'. crdt_pins b c = Some q \<and> (\<exists>i. P (i, q)) \<and> crdt_pins b' c = Some q' \<and> reallocated cl p q q')"
proof -
  note e = enumerate_pins [OF assms(4), of P 0]
  have "\<forall>(i, q) \<in> set (filter P (enumerate 0 ps)). crdt_pins b (pin_Cid q) = Some q \<and> \<not> updates q \<and> Pin_Defined q \<and>
      (\<forall>allocs. crdt_storable b (repin_pin cl q (snd (clock i)) allocs))"
  proof (intro ballI, clarify)
    fix i q
    assume "(i, q) \<in> set (filter P (enumerate 0 ps))"
    then have "crdt_pins b (pin_Cid q) = Some q" using enumerate_mem assms(5) by auto
    then show "crdt_pins b (pin_Cid q) = Some q \<and> \<not> updates q \<and> Pin_Defined q \<and>
        (\<forall>allocs. crdt_storable b (repin_pin cl q (snd (clock i)) allocs))"
      using assms(3) unfolding repinnable_def by (meson ranI)
  qed
  from crdt_repin_all [OF assms(1,2) e this assms(6)] have r: "crdt_inv b'"
    "set moved \<subseteq> pin_Cid ` snd ` set (filter P (enumerate 0 ps))" "\<And>c. c \<notin> set moved \<Longrightarrow> crdt_pins b' c = crdt_pins b c"
    "\<And>c. c \<in> set moved \<Longrightarrow> \<exists>q q'. crdt_pins b c = Some q \<and> crdt_pins b' c = Some q' \<and> reallocated cl p q q'" by blast+
  have "\<exists>q q'. crdt_pins b c = Some q \<and> (\<exists>i. P (i, q)) \<and> crdt_pins b' c = Some q' \<and> reallocated cl p q q'" if c: "c \<in> set moved" for c
  proof -
    obtain i q where q: "(i, q) \<in> set (enumerate 0 ps)" "P (i, q)" "c = pin_Cid q" using subsetD [OF r(2) c] by auto
    then have "crdt_pins b c = Some q" using enumerate_mem [OF q(1)] assms(5) [of c q] by simp
    with r(4) [OF c] q(2) show ?thesis by auto
  qed
  with r(1,3) show ?thesis by blast
qed


lemma alert_pins_filter:
  "cache_ok (cl_Sum256 cl) dc \<Longrightarrow>
     alert_pins cl p ps dc = filter (\<lambda>(i, pin). p \<in> set (pin_Allocations pin) \<and> closest_to (cl_Sum256 cl) dc (pin_Cid pin)) ps"
proof (induction ps arbitrary: dc)
  case (Cons x ps)
  obtain i pin where x: "x = (i, pin)" by fastforce
  obtain dc' where dc': "isClosest (cl_Sum256 cl) dc (pin_Cid pin) = (closest_to (cl_Sum256 cl) dc (pin_Cid pin), dc')" "cache_ok (cl_Sum256 cl) dc'"
    "closest_to (cl_Sum256 cl) dc' = closest_to (cl_Sum256 cl) dc" by (rule isClosestE [OF Cons.prems])
  show ?case using Cons.IH [OF Cons.prems] Cons.IH [OF dc'(2)] dc'(1,3)
    by (cases "closest_to (cl_Sum256 cl) dc (pin_Cid pin)") (simp_all add: x containsPeer_iff)
qed simp

text \<open>
  C12. Alerts. Handling an alert changes only pins that are allocated to the failed peer and for which this peer is
  elected, and moves them as above; it does so only for ping alerts, if repinning is not disabled and the peer is not
  a follower. At most 1001 alerts are kept.
\<close>

theorem alertsHandler_alert_correct:
  assumes "cluster_peer names t mon cl" "crdt_inv b" "repinnable cl clock b" "length alerts \<le> maxAlerts + 1"
    and "alertsHandler_alert cl clock alrt (alerts, b) = (continue, alerts', b')"
  shows "crdt_inv b' \<and> length alerts' \<le> maxAlerts + 1 \<and>
    (\<forall>c. crdt_pins b' c = crdt_pins b c \<or>
       m_Name (al_Metric alrt) = ''ping'' \<and> \<not> cc_FollowerMode (cl_config cl) \<and> \<not> cc_DisableRepinning (cl_config cl) \<and>
       elected cl b (m_Peer (al_Metric alrt)) c \<and>
       (\<exists>q q'. crdt_pins b c = Some q \<and> m_Peer (al_Metric alrt) \<in> set (pin_Allocations q) \<and>
          crdt_pins b' c = Some q' \<and> reallocated cl (m_Peer (al_Metric alrt)) q q'))"
proof -
  let ?p = "m_Peer (al_Metric alrt)"
  have len: "length alerts' \<le> maxAlerts + 1"
    using assms(4,5) by (auto simp: alertsHandler_alert_def Let_def split: if_splits sum.splits)
  show ?thesis
  proof (cases "b' = b")
    case True
    then show ?thesis using assms(2) len by simp
  next
    case False
    have cfg: "m_Name (al_Metric alrt) = ''ping''" "\<not> cc_FollowerMode (cl_config cl)" "\<not> cc_DisableRepinning (cl_config cl)"
      using assms(5) False by (auto simp: alertsHandler_alert_def Let_def pingMetricName_def split: if_splits)
    obtain st where st: "cl_State cl b = Inr st" "distinct (map pin_Cid (st_List st))"
      "\<And>c p. crdt_pins b c = Some p \<longleftrightarrow> p \<in> set (st_List st) \<and> pin_Cid p = c" by (rule crdt_listed [OF assms(1,2)]) blast
    obtain dc where dc: "distances cl b ?p = Inr dc"
      using assms(5) False cfg st(1) by (auto simp: alertsHandler_alert_def Let_def split: if_splits sum.splits)
    note el = elected_closest [OF dc]
    obtain moved where "repin_all cl clock ?p (alert_pins cl ?p (enumerate 0 (st_List st)) dc) b = (moved, b')"
      using assms(5) cfg st(1) dc by (cases "repin_all cl clock ?p (alert_pins cl ?p (enumerate 0 (st_List st)) dc) b")
        (auto simp: alertsHandler_alert_def Let_def pingMetricName_def)
    from crdt_repin_listed [OF assms(1-3) st(2,3) this [unfolded alert_pins_filter [OF el(2)]]]
    have r: "crdt_inv b'" "\<And>c. c \<notin> set moved \<Longrightarrow> crdt_pins b' c = crdt_pins b c"
      "\<And>c. c \<in> set moved \<Longrightarrow> \<exists>q q'. crdt_pins b c = Some q \<and> ?p \<in> set (pin_Allocations q) \<and> closest_to (cl_Sum256 cl) dc (pin_Cid q) \<and>
         crdt_pins b' c = Some q' \<and> reallocated cl ?p q q'" by auto
    have "elected cl b ?p c \<and> (\<exists>q q'. crdt_pins b c = Some q \<and> ?p \<in> set (pin_Allocations q) \<and>
          crdt_pins b' c = Some q' \<and> reallocated cl ?p q q')" if "c \<in> set moved" for c
      using r(3) [OF that] st(3) el(1) by auto
    with r(1,2) cfg len show ?thesis by blast
  qed
qed

definition example_clock :: clock where
  "example_clock i = (0, 5 * second)"

lemma example_b1_inv: "crdt_inv example_b1" "crdt_pins example_b1 = [''Qm'' \<mapsto> stored_pin zero_Pin example_result]"
    "crdt_storable example_b1 = ds_storable example_dsst"
  using dss.add_pins [OF example_dsst_inv example_result_ok] example_b_inv(2)
  by (simp_all add: example_b1_def batcher_init_def example_result_def example_pin_def)

lemma example_repinnable: "repinnable example_cluster example_clock example_b1"
proof -
  let ?q = "stored_pin zero_Pin example_result"
  have upd: "\<not> updates ?q" "Pin_Defined ?q"
    by (simp_all add: stored_pin_def Let_def example_result_def CidUndef_def zero_Pin_def zero_PinOptions_def Pin_Defined_def)
      (simp add: example_pin_def)
  have rp: "repin_pin example_cluster ?q t allocs = ?q\<lparr>pin_Timestamp := t, pin_Allocations := allocs\<rparr>" for t allocs
    by (simp add: repin_pin_def setupReplicationFactor_def Let_def IsPinEverywhere_def) (simp add: example_result_def)
  have fields: "pin_Cid ?q = ''Qm''" "pin_Type ?q = DataType" "pin_rmin ?q = 1" "pin_rmax ?q = 2" "pin_MaxDepth ?q = -1" "pin_Reference ?q = None"
    "po_PinUpdate (pin_Options ?q) = CidUndef" "po_ExpireAt (pin_Options ?q) = zero_time" "po_Origins (pin_Options ?q) = [''/ip4'']"
    by (simp_all add: example_result_def) (simp_all add: stored_pin_def Let_def example_pin_def stored_time_def zero_Pin_def zero_PinOptions_def
        example_opts_def)
  have "sortedMetadata [(''b'', ''2''), (''a'', ''1'')] = [(''a'', ''1''), (''b'', ''2'')]" by code_simp
  then have md: "wf_map (po_Metadata (pin_Options ?q))"
    by (simp add: stored_pin_def Let_def example_result_def example_opts_def example_pin_def wf_map_def)
  have ty: "\<exists>n < 64. DataType = 2 ^ n" using pin_type_pow2(1) by (intro exI [of _ 1]) simp
  have "ds_storable example_dsst (?q\<lparr>pin_Timestamp := 5 * second, pin_Allocations := allocs\<rparr>)" for allocs
  proof -
    have "codec_ok example_codec (?q\<lparr>pin_Timestamp := 5 * second, pin_Allocations := allocs\<rparr>)"
      using fields by (simp add: codec_ok_def example_codec_def CidUndef_def list_all_iff)
    moreover have "serialisable (?q\<lparr>pin_Timestamp := 5 * second, pin_Allocations := allocs\<rparr>)"
      using fields ty md by (simp add: serialisable_def fits_signed_def time_Unix_def second_def zero_time_def)
    moreover have "dse_codec (dst_env example_dsst) = example_codec" by (simp add: example_dsst_def dsstate_New_def) (simp add: example_ds_def)
    ultimately show ?thesis using fields by (simp add: ds_storable_def CidUndef_def)
  qed
  with upd show ?thesis unfolding repinnable_def example_b1_inv(2,3) by (simp add: example_clock_def rp)
qed


definition example_alert :: Alert where
  "example_alert = \<lparr>al_Metric = (example_metric ''ping'' ''p2'' '''' 0 False), al_TriggeredAt = 0\<rparr>"

theorem alertsHandler_alert_correct_witness:
  "\<exists>continue alerts' b'. alertsHandler_alert example_cluster example_clock example_alert ([], example_b1) = (continue, alerts', b') \<and>
     crdt_inv b' \<and> length alerts' \<le> maxAlerts + 1"
proof -
  obtain continue alerts' b' where r: "alertsHandler_alert example_cluster example_clock example_alert ([], example_b1) = (continue, alerts', b')"
    by (rule prod_cases3)
  from alertsHandler_alert_correct [OF example_cluster_peer example_b1_inv(1) example_repinnable _ r] r show ?thesis by fastforce
qed

lemma cluster_Alerts_rev: "cluster_Alerts z alerts = rev alerts"
proof -
  have "foldl (\<lambda>out (i, a). out[n - 1 - i := a]) (replicate (n - k) z @ acc) (enumerate k xs) = rev xs @ acc"
    if "n = k + length xs" for n k xs and acc :: "Alert list"
    using that
  proof (induction xs arbitrary: k acc)
    case (Cons x xs)
    have "(replicate (n - k) z @ acc)[n - 1 - k := x] = replicate (n - Suc k) z @ x # acc"
      using Cons.prems by (simp add: list_update_append flip: replicate_append_same)
    then show ?case using Cons.IH [of "Suc k" "x # acc"] Cons.prems by simp
  qed simp
  from this [of "length alerts" 0 alerts "[]"] show ?thesis by (simp add: cluster_Alerts_def)
qed

text \<open>
  A pin that was made by updating another one is not moved away from a failed peer: repinning it logs the
  allocations of the pin it was updated from, whichever peer is to be avoided, and fails if that pin is gone.
\<close>

theorem repin_ignores_blacklist:
  assumes "\<not> cc_FollowerMode (cl_config cl)" "Pin_Defined q" "updates q"
  shows "case PinGet cl s (po_PinUpdate (pin_Options q)) of
      Inl err \<Rightarrow> repinFromPeer cl now p q s = (False, s)
    | Inr f \<Rightarrow> pin_Type f = DataType \<longrightarrow> (\<exists>pin. pin_Cid pin = pin_Cid q \<and> pin_Allocations pin = pin_Allocations f \<and>
        repinFromPeer cl now p q s = (fst (cl_LogPin cl pin s) = None, snd (cl_LogPin cl pin s)))"
proof -
  have r: "repinFromPeer cl now p q s =
      (case cluster_PinUpdate cl (fst now) (snd now) (po_PinUpdate (pin_Options q)) (pin_Cid q) (pin_Options q) s of (_, e, s') \<Rightarrow> (e = None, s'))"
    using assms by (simp add: repinFromPeer_def cluster_pin_def Pin_Defined_def split: prod.splits)
  have "\<exists>pin. pin_Cid pin = pin_Cid q \<and> pin_Allocations pin = pin_Allocations f \<and>
      cluster_PinUpdate cl (fst now) (snd now) (po_PinUpdate (pin_Options q)) (pin_Cid q) (pin_Options q) s = (pin, log_result (cl_LogPin cl pin s))"
    if "PinGet cl s (po_PinUpdate (pin_Options q)) = Inr f" "pin_Type f = DataType" for f
    unfolding cluster_PinUpdate_def Let_def using that by simp
  then show ?thesis
    by (cases "PinGet cl s (po_PinUpdate (pin_Options q))") (fastforce simp: r log_result_def cluster_PinUpdate_def)+
qed

text \<open>A peer whose consensus is a plain map, with a pin and one that was updated from it.\<close>

definition example_map_cluster :: "(cid \<rightharpoonup> Pin) cluster" where
  "example_map_cluster = \<lparr>cl_id = ''p1'', cl_config = example_cluster_config,
     cl_State = (\<lambda>m. Inr \<lparr>st_Get = (\<lambda>c. case m c of None \<Rightarrow> Inl ErrNotFound | Some p \<Rightarrow> Inr p), st_List = []\<rparr>),
     cl_LogPin = (\<lambda>p m. (None, m(pin_Cid p \<mapsto> p))), cl_LogUnpin = (\<lambda>p m. (None, m(pin_Cid p := None))),
     cl_Peers = (\<lambda>s. Inr [''p1'', ''p2'', ''p3'']), cl_metricNames = [''freespace''], cl_Allocate = Allocate [''freespace''],
     cl_LatestMetrics = LatestMetrics 20 example_monitor, cl_Resolve = Inr, cl_BlockGet = Inr,
     cl_CborLinks = (\<lambda>b. Inr []), cl_Sum256 = cl_Sum256 example_cluster\<rparr>"

definition example_updated :: Pin where
  "example_updated = example_pin\<lparr>pin_Cid := ''Qn'', pin_Options := (pin_Options example_pin)\<lparr>po_PinUpdate := ''Qm''\<rparr>\<rparr>"

theorem repin_ignores_blacklist_witness:
  "\<exists>pin. pin_Cid pin = ''Qn'' \<and> ''p2'' \<in> set (pin_Allocations pin) \<and>
     repinFromPeer example_map_cluster (0, 0) ''p2'' example_updated [''Qm'' \<mapsto> example_pin, ''Qn'' \<mapsto> example_updated] =
       (True, [''Qm'' \<mapsto> example_pin, ''Qn'' \<mapsto> pin])"
proof -
  have u: "Pin_Defined example_updated" "updates example_updated" "po_PinUpdate (pin_Options example_updated) = ''Qm''" "pin_Cid example_updated = ''Qn''"
    by (simp_all add: example_updated_def Pin_Defined_def CidUndef_def)
  have "PinGet example_map_cluster [''Qm'' \<mapsto> example_pin, ''Qn'' \<mapsto> example_updated] ''Qm'' = Inr example_pin"
    by (simp add: PinGet_def example_map_cluster_def)
  moreover have "\<not> cc_FollowerMode (cl_config example_map_cluster)" "pin_Type example_pin = DataType" "''p2'' \<in> set (pin_Allocations example_pin)"
    by (simp_all add: example_map_cluster_def example_pin_def)
  ultimately obtain pin where "pin_Cid pin = ''Qn''" "pin_Allocations pin = pin_Allocations example_pin"
    "repinFromPeer example_map_cluster (0, 0) ''p2'' example_updated [''Qm'' \<mapsto> example_pin, ''Qn'' \<mapsto> example_updated] =
       (True, [''Qm'' \<mapsto> example_pin, ''Qn'' \<mapsto> pin])"
    using repin_ignores_blacklist [where cl = example_map_cluster and q = example_updated and
        s = "[''Qm'' \<mapsto> example_pin, ''Qn'' \<mapsto> example_updated]" and now = "(0, 0)" and p = "''p2''"] u
    by (auto simp: example_map_cluster_def)
  then show ?thesis using \<open>''p2'' \<in> set (pin_Allocations example_pin)\<close> by metis
qed

text \<open>
  With repinning disabled, the handler returns at the first ping alert: the alerts after it are not even
  recorded.
\<close>

theorem alertsHandler_stops:
  assumes "\<not> cc_FollowerMode (cl_config cl)" "cc_DisableRepinning (cl_config cl)" "m_Name (al_Metric alrt) = ''ping''"
  shows "alertsHandler cl ((clock, alrt) # alrts) ([], s) = ([alrt], s)"
  using assms by (simp add: alertsHandler_alert_def pingMetricName_def maxAlerts_def Let_def)

theorem alertsHandler_stops_witness:
  "alertsHandler (example_cluster\<lparr>cl_config := example_cluster_config\<lparr>cc_DisableRepinning := True\<rparr>\<rparr>)
     [(example_clock, example_alert), (example_clock, example_alert)] ([], example_b) = ([example_alert], example_b)"
  by (rule alertsHandler_stops) (simp_all add: example_alert_def example_metric_def)

end
