(* ===== verification/Go_Float.thy ===== *)
theory Go_Float
  imports Prelude
begin

text \<open>
  Go's \<open>float64\<close> where the sources compute with it: a finite value is a mantissa and a binary exponent,
  and every operation rounds to 53 bits, ties to even, as IEEE 754 has it. Exponents are not bounded,
  so overflow to infinity and subnormal results are not represented; the sources multiply durations
  by small factors and stay inside that range. No fused multiply-add is assumed.
\<close>

type_synonym float64 = "int \<times> int"

text \<open>The number of binary digits of a number.\<close>

fun bit_len :: "nat \<Rightarrow> nat" where
  "bit_len n = (if n = 0 then 0 else Suc (bit_len (n div 2)))"

declare bit_len.simps [simp del]

definition f64_round :: "float64 \<Rightarrow> float64" where
  "f64_round x =
     (let m = fst x; a = nat \<bar>m\<bar>; k = bit_len a - 53 in
      if k = 0 then x
      else let q = a div 2 ^ k; r = a mod 2 ^ k; h = 2 ^ (k - 1);
               q' = (if h < r \<or> r = h \<and> odd q then q + 1 else q)
           in (sgn m * int q', snd x + int k))"

definition f64_of_int :: "int \<Rightarrow> float64" where
  "f64_of_int n = f64_round (n, 0)"

definition f64_mul :: "float64 \<Rightarrow> float64 \<Rightarrow> float64" where
  "f64_mul x y = f64_round (fst x * fst y, snd x + snd y)"

definition f64_mant :: "int \<Rightarrow> float64 \<Rightarrow> int" where
  "f64_mant e x = fst x * 2 ^ nat (snd x - e)"

definition f64_add :: "float64 \<Rightarrow> float64 \<Rightarrow> float64" where
  "f64_add x y = (let e = min (snd x) (snd y) in f64_round (f64_mant e x + f64_mant e y, e))"

definition f64_less :: "float64 \<Rightarrow> float64 \<Rightarrow> bool" where
  "f64_less x y \<longleftrightarrow> (let e = min (snd x) (snd y) in f64_mant e x < f64_mant e y)"

definition f64_trunc :: "float64 \<Rightarrow> int" where
  "f64_trunc x =
     (if 0 \<le> snd x then fst x * 2 ^ nat (snd x) else sgn (fst x) * (\<bar>fst x\<bar> div 2 ^ nat (- snd x)))"

text \<open>
  The conversion to \<open>int64\<close> drops the fraction. Go leaves the value open when it does not fit; here it
  is the one amd64 gives.
\<close>

definition f64_to_int64 :: "float64 \<Rightarrow> int" where
  "f64_to_int64 x = (let n = f64_trunc x in if fits_signed 64 n then n else - (2 ^ 63))"

lemma bit_len_le: "n < 2 ^ k \<Longrightarrow> bit_len n \<le> k"
proof (induction k arbitrary: n)
  case 0
  then show ?case by (simp add: bit_len.simps)
next
  case (Suc k)
  then have "bit_len (n div 2) \<le> k" by (simp add: less_mult_imp_div_less mult.commute)
  then show ?case by (subst bit_len.simps) simp
qed

lemma f64_round_exact: "\<bar>m\<bar> < 2 ^ 53 \<Longrightarrow> f64_round (m, e) = (m, e)"
  using bit_len_le [of "nat \<bar>m\<bar>" 53] by (simp add: f64_round_def nat_less_iff)

lemma f64_of_int_exact: "\<bar>n\<bar> < 2 ^ 53 \<Longrightarrow> f64_of_int n = (n, 0)"
  by (simp add: f64_of_int_def f64_round_exact)

lemma f64_to_int64_id: "fits_signed 64 n \<Longrightarrow> f64_to_int64 (n, 0) = n"
  by (simp add: f64_to_int64_def f64_trunc_def Let_def)

text \<open>A product that is exact, cut to an integer.\<close>

lemma f64_scale_exact:
  assumes "0 \<le> n" "0 \<le> c" "n < 2 ^ 53" "n * c < 2 ^ 53"
  shows "f64_to_int64 (f64_mul (f64_of_int n) (c, - int k)) = n * c div 2 ^ k"
proof -
  have "0 \<le> n * c" using assms by simp
  then have trunc: "f64_trunc (n * c, - int k) = n * c div 2 ^ k"
    by (cases "n * c = 0") (auto simp: f64_trunc_def abs_of_nonneg sgn_if)
  have "0 \<le> n * c div 2 ^ k" "n * c div 2 ^ k \<le> n * c"
    using \<open>0 \<le> n * c\<close> zdiv_mono2 [of "n * c" 1 "2 ^ k"] by (simp_all add: pos_imp_zdiv_nonneg_iff)
  then have "fits_signed 64 (n * c div 2 ^ k)" using assms(4) by (simp add: fits_signed_def)
  then show ?thesis
    using assms \<open>0 \<le> n * c\<close> trunc
    by (simp add: f64_mul_def f64_of_int_exact f64_round_exact f64_to_int64_def Let_def)
qed

text \<open>Rounding moves a value by less than one unit of its last digit, so an integral part by at most one.\<close>

lemma f64_round_trunc:
  assumes "0 \<le> m" "m < 2 ^ (53 + p)"
  shows "m div 2 ^ p \<le> f64_trunc (f64_round (m, - int p)) \<and> f64_trunc (f64_round (m, - int p)) \<le> m div 2 ^ p + 1"
proof -
  define a where "a = nat m"
  define k where "k = bit_len a - 53"
  have m: "m = int a" using assms(1) by (simp add: a_def)
  have "a < 2 ^ (53 + p)" using assms unfolding m by (metis of_nat_less_iff of_nat_numeral of_nat_power)
  from bit_len_le [OF this] have kp: "k \<le> p" unfolding k_def by linarith
  obtain d where d: "d \<le> 1" "f64_round (m, - int p) = (int (a div 2 ^ k + d), int k - int p)"
  proof (cases "k = 0")
    case True
    then have "f64_round (m, - int p) = (int (a div 2 ^ k + 0), int k - int p)"
      unfolding m f64_round_def k_def by simp
    then show ?thesis by (rule that [of 0, OF zero_le_one])
  next
    case False
    then have "a \<noteq> 0" using bit_len.simps [of 0] by (metis diff_0_eq_0 k_def)
    define d where "d = (if 2 ^ (k - 1) < a mod 2 ^ k \<or> a mod 2 ^ k = 2 ^ (k - 1) \<and> odd (a div 2 ^ k) then 1 else 0 :: nat)"
    have "f64_round (m, - int p) = (int (a div 2 ^ k + d), int k - int p)"
      using False \<open>a \<noteq> 0\<close> unfolding m f64_round_def fst_conv snd_conv Let_def abs_of_nat nat_int k_def [symmetric]
      by (simp add: d_def)
    moreover have "d \<le> 1" by (simp add: d_def)
    ultimately show ?thesis by (intro that)
  qed
  have "f64_trunc (f64_round (m, - int p)) = int ((a div 2 ^ k + d) div 2 ^ (p - k))"
  proof (cases "k = p")
    case False
    with kp have "nat (int p - int k) = p - k" by simp
    with False kp show ?thesis
      by (simp add: d f64_trunc_def sgn_if zdiv_int of_nat_div flip: of_nat_add)
  qed (simp add: d f64_trunc_def)
  moreover have "a div 2 ^ p = a div 2 ^ k div 2 ^ (p - k)"
    using kp by (simp flip: div_mult2_eq power_add)
  moreover have "x div y \<le> (x + d) div y \<and> (x + d) div y \<le> x div y + 1" if "0 < y" for x y :: nat
  proof -
    have "(x + d) div y \<le> (x + y) div y" using that d(1) by (intro div_le_mono) simp
    then show ?thesis using that div_add_self2 [of y x] by (simp add: div_le_mono)
  qed
  from this [of "2 ^ (p - k)" "a div 2 ^ k"]
  have "a div 2 ^ k div 2 ^ (p - k) \<le> (a div 2 ^ k + d) div 2 ^ (p - k) \<and>
    (a div 2 ^ k + d) div 2 ^ (p - k) \<le> a div 2 ^ k div 2 ^ (p - k) + 1" by simp
  moreover have "m div 2 ^ p = int (a div 2 ^ p)" by (simp add: m zdiv_int)
  ultimately show ?thesis by linarith
qed

end
