(* ===== verification/Scylla_Retry.thy ===== *)
theory Scylla_Retry
  imports Go_Float
begin

text \<open>
  \<open>state/scyllastate/retry.go\<close>: which errors of the database driver are worth another attempt, how
  long to wait before it, and the loop that makes the attempts. An operation is a function on the
  state of whatever it works on, so the loop threads that state. The lemmas say how many calls the
  loop makes and what it returns, that the wait before an attempt stays between the configured
  bounds until the error-specific factor is applied, and that every classified error is retried.
\<close>

section \<open>Errors\<close>

text \<open>
  An error is a value of the driver or of a library with its message, or a \<open>fmt.Errorf\<close> around one.
  The kind of a plain error is what a type switch or a comparison with a sentinel sees; wrapping
  hides it from both.
\<close>

datatype err_kind =
    KOther
  | KNotFound
  | KUnavailable
  | KReadTimeout
  | KWriteTimeout
  | KReadFailure int int
  | KWriteFailure int int

datatype goerr = Err err_kind string | Wrapped string goerr

definition gocql_ErrNotFound :: goerr where
  "gocql_ErrNotFound = Err KNotFound ''not found''"

fun err_Error :: "goerr \<Rightarrow> string" where
  "err_Error (Err k msg) = msg"
| "err_Error (Wrapped msg e) = msg @ '': '' @ err_Error e"

fun err_type :: "goerr \<Rightarrow> err_kind" where
  "err_type (Err k msg) = k"
| "err_type (Wrapped msg e) = KOther"

text \<open>\<open>errors.Is\<close>.\<close>

fun errors_Is :: "goerr \<Rightarrow> goerr \<Rightarrow> bool" where
  "errors_Is (Err k msg) target = (Err k msg = target)"
| "errors_Is (Wrapped msg e) target = (Wrapped msg e = target \<or> errors_Is e target)"

text \<open>\<open>strings.ToLower\<close> on messages, which are ASCII.\<close>

definition char_lower :: "char \<Rightarrow> char" where
  "char_lower c =
     (let n = of_char c :: nat in if 65 \<le> n \<and> n \<le> 90 then char_of (n + 32) else c)"

definition str_lower :: "string \<Rightarrow> string" where
  "str_lower s = map char_lower s"

definition contains_any :: "string \<Rightarrow> string list \<Rightarrow> bool" where
  "contains_any s subs = list_ex (str_contains s) subs"

section \<open>The policy\<close>

record RetryPolicyConfig =
  rpc_NumRetries :: int
  rpc_MinRetryDelay :: duration
  rpc_MaxRetryDelay :: duration

record RetryPolicy =
  rp_numRetries :: int
  rp_minDelay :: duration
  rp_maxDelay :: duration
  rp_backoffFactor :: float64

definition NewRetryPolicy :: "RetryPolicyConfig \<Rightarrow> RetryPolicy" where
  "NewRetryPolicy config =
     \<lparr>rp_numRetries = rpc_NumRetries config, rp_minDelay = rpc_MinRetryDelay config,
      rp_maxDelay = rpc_MaxRetryDelay config, rp_backoffFactor = (2, 0)\<rparr>"

section \<open>Classification\<close>

definition IsNodeFailureError :: "goerr option \<Rightarrow> bool" where
  "IsNodeFailureError e =
     (case e of None \<Rightarrow> False
      | Some err \<Rightarrow>
          contains_any (str_lower (err_Error err))
            [''host down'', ''connection refused'', ''no hosts available'', ''host unreachable'', ''network unreachable''])"

definition IsConsistencyError :: "goerr option \<Rightarrow> bool" where
  "IsConsistencyError e =
     (case e of None \<Rightarrow> False
      | Some err \<Rightarrow>
          (case err_type err of
             KUnavailable \<Rightarrow> True
           | _ \<Rightarrow> contains_any (str_lower (err_Error err))
                   [''not enough replicas'', ''cannot achieve consistency'', ''quorum not available'', ''insufficient replicas'']))"

definition GetErrorCategory :: "goerr option \<Rightarrow> string" where
  "GetErrorCategory e =
     (case e of None \<Rightarrow> ''none''
      | Some err \<Rightarrow>
          if IsNodeFailureError e then ''node_failure''
          else if IsConsistencyError e then ''consistency''
          else if contains_any (str_lower (err_Error err)) [''timeout'', ''timed out''] then ''timeout''
          else if contains_any (str_lower (err_Error err)) [''overloaded'', ''throttled''] then ''overload''
          else ''other'')"

text \<open>Go's integer division rounds towards zero.\<close>

definition go_div2 :: "int \<Rightarrow> int" where
  "go_div2 n = sgn n * (\<bar>n\<bar> div 2)"

definition isRetryableError :: "goerr option \<Rightarrow> bool" where
  "isRetryableError e =
     (case e of None \<Rightarrow> False
      | Some err \<Rightarrow>
          let errStrLower = str_lower (err_Error err) in
          if contains_any errStrLower
               [''timeout'', ''timed out'', ''connection refused'', ''connection reset'', ''no hosts available'',
                ''host down'', ''host unreachable'', ''network unreachable''] then True
          else if contains_any errStrLower
               [''unavailable'', ''not enough replicas'', ''cannot achieve consistency'', ''insufficient replicas'',
                ''consistency level'', ''quorum not available''] then True
          else if contains_any errStrLower [''overloaded'', ''too many requests'', ''rate limit'', ''throttled''] then True
          else (case err_type err of
                  KUnavailable \<Rightarrow> True
                | KReadTimeout \<Rightarrow> True
                | KWriteTimeout \<Rightarrow> True
                | KReadFailure received blockFor \<Rightarrow> go_div2 blockFor \<le> received
                | KWriteFailure received blockFor \<Rightarrow> go_div2 blockFor \<le> received
                | _ \<Rightarrow> False))"

datatype RetryType = gocql_Retry | gocql_Rethrow

definition Attempt :: "RetryPolicy \<Rightarrow> int \<Rightarrow> bool" where
  "Attempt rp q_Attempts \<longleftrightarrow> q_Attempts \<le> rp_numRetries rp"

definition GetRetryType :: "goerr option \<Rightarrow> RetryType" where
  "GetRetryType e = (if isRetryableError e then gocql_Retry else gocql_Rethrow)"

section \<open>Delays\<close>

fun f64_pow :: "float64 \<Rightarrow> nat \<Rightarrow> float64" where
  "f64_pow x 0 = (1, 0)"
| "f64_pow x (Suc n) = f64_mul x (f64_pow x n)"

text \<open>
  \<open>rnd\<close> is the random number drawn, as the numerator over \<open>2^53\<close> of the value \<open>rand.Float64()\<close> returns.
  The power is exact for the factor 2 that the constructor sets.
\<close>

definition calculateDelay :: "RetryPolicy \<Rightarrow> int \<Rightarrow> int \<Rightarrow> duration" where
  "calculateDelay rp rnd attempt =
     (if attempt \<le> 0 then 0
      else
        let delay = f64_mul (f64_of_int (rp_minDelay rp)) (f64_pow (rp_backoffFactor rp) (nat (attempt - 1)));
            delay = (if f64_less (f64_of_int (rp_maxDelay rp)) delay then f64_of_int (rp_maxDelay rp) else delay);
            jitterRange = f64_mul delay (1, -2);
            jitter = f64_mul jitterRange (f64_add (f64_mul (rnd, -53) (2, 0)) (-1, 0));
            finalDelay = f64_to_int64 (f64_add delay jitter);
            finalDelay = (if finalDelay < rp_minDelay rp then rp_minDelay rp else finalDelay)
        in if rp_maxDelay rp < finalDelay then rp_maxDelay rp else finalDelay)"

text \<open>The factors 1.5, 0.75, 0.8 and 1.2 as the doubles nearest to them.\<close>

definition f64_1_5 :: float64 where "f64_1_5 = (3, -1)"

definition f64_0_75 :: float64 where "f64_0_75 = (3, -2)"

definition f64_0_8 :: float64 where "f64_0_8 = (7205759403792794, -53)"

definition f64_1_2 :: float64 where "f64_1_2 = (5404319552844595, -52)"

definition scale_delay :: "duration \<Rightarrow> float64 \<Rightarrow> duration" where
  "scale_delay d f = f64_to_int64 (f64_mul (f64_of_int d) f)"

definition calculateDelayForError :: "RetryPolicy \<Rightarrow> int \<Rightarrow> int \<Rightarrow> goerr option \<Rightarrow> duration" where
  "calculateDelayForError rp rnd attempt e =
     (let baseDelay = calculateDelay rp rnd attempt in
      case e of
        None \<Rightarrow> baseDelay
      | Some err \<Rightarrow>
          let errStr = str_lower (err_Error err) in
          if contains_any errStr [''host down'', ''connection refused'', ''no hosts available'']
          then scale_delay baseDelay f64_1_5
          else if contains_any errStr [''not enough replicas'', ''cannot achieve consistency'', ''quorum not available'']
          then scale_delay baseDelay f64_0_75
          else (case err_type err of
                  KUnavailable \<Rightarrow> scale_delay baseDelay f64_0_75
                | KWriteTimeout \<Rightarrow> baseDelay
                | KReadTimeout \<Rightarrow> scale_delay baseDelay f64_0_8
                | KReadFailure r b \<Rightarrow> scale_delay baseDelay f64_1_2
                | KWriteFailure r b \<Rightarrow> scale_delay baseDelay f64_1_2
                | _ \<Rightarrow> baseDelay))"

section \<open>The loop\<close>

text \<open>
  What the loop finds outside: whether the context is done at the check before an attempt, whether the
  wait before an attempt ends with the context instead of the timer, the error of the context, and the
  random numbers. \<open>rn_waits\<close> lists the waits that were started and \<open>rn_retries\<close> the calls of the callback.
\<close>

record retry_env =
  re_done :: "int \<Rightarrow> bool"
  re_done_waiting :: "int \<Rightarrow> bool"
  re_ctxErr :: goerr
  re_rand :: "int \<Rightarrow> int"

record 's retry_run =
  rn_state :: 's
  rn_waits :: "duration list"
  rn_retries :: "(int \<times> goerr option) list"

definition failed_after :: "RetryPolicy \<Rightarrow> goerr option \<Rightarrow> goerr" where
  "failed_after rp lastErr =
     (let msg = ''operation failed after '' @ int_str (rp_numRetries rp + 1) @ '' attempts''
      in case lastErr of
           None \<Rightarrow> Err KOther (msg @ '': %!w(<nil>)'')
         | Some err \<Rightarrow> Wrapped msg err)"

fun retry_loop ::
  "RetryPolicy \<Rightarrow> retry_env \<Rightarrow> ('s \<Rightarrow> goerr option \<times> 's) \<Rightarrow> nat \<Rightarrow> int \<Rightarrow> goerr option \<Rightarrow> 's retry_run \<Rightarrow>
     goerr option \<times> 's retry_run" where
  "retry_loop rp env operation 0 attempt lastErr r = (Some (failed_after rp lastErr), r)"
| "retry_loop rp env operation (Suc n) attempt lastErr r =
     (if re_done env attempt
      then (Some (Wrapped (''operation cancelled after '' @ int_str attempt @ '' attempts'') (re_ctxErr env)), r)
      else
        let r1 = (if 0 < attempt
                  then r\<lparr>rn_waits := rn_waits r @ [calculateDelayForError rp (re_rand env attempt) attempt lastErr]\<rparr>
                  else r)
        in if 0 < attempt \<and> re_done_waiting env attempt
           then (Some (Wrapped (''operation cancelled during retry delay after '' @ int_str attempt @ '' attempts'')
                   (re_ctxErr env)), r1)
           else case operation (rn_state r1) of
                  (None, s') \<Rightarrow> (None, r1\<lparr>rn_state := s'\<rparr>)
                | (Some err, s') \<Rightarrow>
                    let r2 = r1\<lparr>rn_state := s'\<rparr> in
                    if \<not> isRetryableError (Some err)
                    then (Some (Wrapped (''non-retryable error on attempt '' @ int_str (attempt + 1)) err), r2)
                    else if attempt = rp_numRetries rp
                    then (Some (Wrapped (''operation failed after '' @ int_str (rp_numRetries rp + 1)
                            @ '' attempts, last error'') err), r2)
                    else retry_loop rp env operation n (attempt + 1) (Some err) r2)"

definition new_run :: "'s \<Rightarrow> 's retry_run" where
  "new_run s = \<lparr>rn_state = s, rn_waits = [], rn_retries = []\<rparr>"

definition ExecuteWithRetry ::
  "RetryPolicy \<Rightarrow> retry_env \<Rightarrow> ('s \<Rightarrow> goerr option \<times> 's) \<Rightarrow> 's \<Rightarrow> goerr option \<times> 's retry_run" where
  "ExecuteWithRetry rp env operation s =
     retry_loop rp env operation (nat (rp_numRetries rp + 1)) 0 None (new_run s)"

fun retry_metrics_loop ::
  "RetryPolicy \<Rightarrow> retry_env \<Rightarrow> ('s \<Rightarrow> goerr option \<times> 's) \<Rightarrow> bool \<Rightarrow> nat \<Rightarrow> int \<Rightarrow> goerr option \<Rightarrow> 's retry_run \<Rightarrow>
     goerr option \<times> 's retry_run" where
  "retry_metrics_loop rp env operation onRetry 0 attempt lastErr r = (Some (failed_after rp lastErr), r)"
| "retry_metrics_loop rp env operation onRetry (Suc n) attempt lastErr r =
     (if re_done env attempt
      then (Some (Wrapped (''operation cancelled after '' @ int_str attempt @ '' attempts'') (re_ctxErr env)), r)
      else
        let r1 = (if 0 < attempt
                  then r\<lparr>rn_waits := rn_waits r @ [calculateDelay rp (re_rand env attempt) attempt],
                         rn_retries := rn_retries r @ (if onRetry then [(attempt, lastErr)] else [])\<rparr>
                  else r)
        in if 0 < attempt \<and> re_done_waiting env attempt
           then (Some (Wrapped (''operation cancelled during retry delay after '' @ int_str attempt @ '' attempts'')
                   (re_ctxErr env)), r1)
           else case operation (rn_state r1) of
                  (None, s') \<Rightarrow> (None, r1\<lparr>rn_state := s'\<rparr>)
                | (Some err, s') \<Rightarrow>
                    let r2 = r1\<lparr>rn_state := s'\<rparr> in
                    if \<not> isRetryableError (Some err)
                    then (Some (Wrapped (''non-retryable error on attempt '' @ int_str (attempt + 1)) err), r2)
                    else if attempt = rp_numRetries rp
                    then (Some (Wrapped (''operation failed after '' @ int_str (rp_numRetries rp + 1) @ '' attempts'') err), r2)
                    else retry_metrics_loop rp env operation onRetry n (attempt + 1) (Some err) r2)"

definition ExecuteWithRetryAndMetrics ::
  "RetryPolicy \<Rightarrow> retry_env \<Rightarrow> ('s \<Rightarrow> goerr option \<times> 's) \<Rightarrow> bool \<Rightarrow> 's \<Rightarrow> goerr option \<times> 's retry_run" where
  "ExecuteWithRetryAndMetrics rp env operation onRetry s =
     retry_metrics_loop rp env operation onRetry (nat (rp_numRetries rp + 1)) 0 None (new_run s)"

section \<open>What the loop does\<close>

text \<open>The results of consecutive calls of an operation, and the state they leave.\<close>

fun op_calls :: "('s \<Rightarrow> goerr option \<times> 's) \<Rightarrow> nat \<Rightarrow> 's \<Rightarrow> goerr option list \<times> 's" where
  "op_calls operation 0 s = ([], s)"
| "op_calls operation (Suc n) s =
     (case operation s of (e, s') \<Rightarrow> case op_calls operation n s' of (es, s'') \<Rightarrow> (e # es, s''))"

text \<open>
  The outcome \<open>res\<close> of a loop whose first attempt has number \<open>a\<close>, given the results \<open>es\<close> of the calls it
  made: every call but the last failed with an error worth a retry, and the loop ended because the last
  one succeeded, or failed for good, or was the last allowed, or because the context was done.
\<close>

definition retry_outcome :: "RetryPolicy \<Rightarrow> retry_env \<Rightarrow> int \<Rightarrow> goerr option list \<Rightarrow> goerr option \<Rightarrow> bool" where
  "retry_outcome rp env a es res \<longleftrightarrow>
     a + int (length es) \<le> rp_numRetries rp + 1 \<and>
     (\<forall>e \<in> set (butlast es). isRetryableError e) \<and>
     (case res of
        None \<Rightarrow> es \<noteq> [] \<and> last es = None
      | Some err \<Rightarrow>
          (\<exists>msg. err = Wrapped msg (re_ctxErr env)) \<and> (\<forall>e \<in> set es. isRetryableError e) \<and>
            (re_done env (a + int (length es)) \<or> re_done_waiting env (a + int (length es)))
          \<or> (\<exists>e msg. es \<noteq> [] \<and> last es = Some e \<and> err = Wrapped msg e \<and>
               (\<not> isRetryableError (Some e) \<or> a + int (length es) = rp_numRetries rp + 1)))"

lemma retry_outcome_Cons:
  assumes "retry_outcome rp env (a + 1) es res" "isRetryableError (Some e)"
  shows "retry_outcome rp env a (Some e # es) res"
  using assms by (auto simp: retry_outcome_def add.assoc split: option.splits)

lemma retry_loop_outcome:
  assumes "retry_loop rp env operation n a l r = (res, r')" "a + int n = rp_numRetries rp + 1" "0 < n"
  shows "\<exists>es. op_calls operation (length es) (rn_state r) = (es, rn_state r') \<and> retry_outcome rp env a es res"
  using assms
proof (induction n arbitrary: a l r)
  case (Suc n)
  define r1 where "r1 = (if 0 < a
    then r\<lparr>rn_waits := rn_waits r @ [calculateDelayForError rp (re_rand env a) a l]\<rparr> else r)"
  have st: "rn_state r1 = rn_state r" by (simp add: r1_def)
  show ?case
  proof (cases "re_done env a \<or> 0 < a \<and> re_done_waiting env a")
    case True
    then have "(\<exists>msg. res = Some (Wrapped msg (re_ctxErr env))) \<and> rn_state r' = rn_state r"
      using Suc.prems(1) st by (auto simp: r1_def [symmetric] Let_def split: if_splits)
    with True Suc.prems(2) show ?thesis
      by (intro exI [of _ "[]"]) (auto simp: retry_outcome_def)
  next
    case False
    obtain e s' where op: "operation (rn_state r) = (e, s')" by fastforce
    note step = Suc.prems(1) False op st
    show ?thesis
    proof (cases "\<exists>err. e = Some err \<and> isRetryableError e \<and> a \<noteq> rp_numRetries rp")
      case True
      then obtain err where err: "e = Some err" "isRetryableError (Some err)" "a \<noteq> rp_numRetries rp" by blast
      then have "retry_loop rp env operation n (a + 1) (Some err) (r1\<lparr>rn_state := s'\<rparr>) = (res, r')"
        using step by (auto simp: r1_def [symmetric] Let_def split: if_splits)
      from Suc.IH [OF this] Suc.prems(2) err(3) obtain es where
        "op_calls operation (length es) s' = (es, rn_state r')" "retry_outcome rp env (a + 1) es res" by auto
      with op err show ?thesis
        by (intro exI [of _ "Some err # es"]) (auto intro: retry_outcome_Cons)
    next
      case False
      with step Suc.prems(2) show ?thesis
        by (intro exI [of _ "[e]"])
          (auto simp: r1_def [symmetric] Let_def retry_outcome_def split: if_splits option.splits)
    qed
  qed
qed simp

lemma retry_executes:
  assumes "0 \<le> rp_numRetries rp" "ExecuteWithRetry rp env operation s = (res, r)"
  shows "\<exists>es. op_calls operation (length es) s = (es, rn_state r) \<and> retry_outcome rp env 0 es res"
  using retry_loop_outcome [of rp env operation "nat (rp_numRetries rp + 1)" 0 None "new_run s"] assms
  by (simp add: ExecuteWithRetry_def new_run_def)

text \<open>
  C29. Retrying an operation. With a non-negative number of retries, \<open>ExecuteWithRetry\<close> returns after at most
  one call more than that number, whatever the operation does. All calls but the last failed with an
  error that is worth a retry. It returns nil exactly when its last call succeeded; otherwise it returns
  the error of its last call, wrapped, and that error is not worth a retry or the retries are used up; or
  the context was done, and then it returns the error of the context.
\<close>

theorem ExecuteWithRetry_outcome:
  assumes "0 \<le> rp_numRetries rp" "ExecuteWithRetry rp env operation s = (res, r)"
  shows "\<exists>es. op_calls operation (length es) s = (es, rn_state r) \<and> retry_outcome rp env 0 es res"
  using assms by (rule retry_executes)

text \<open>A factor between 3/4 and 3/2 of 53 bits, applied to a duration of less than about 26 days.\<close>

lemma scale_delay_bounds:
  assumes "0 \<le> d" "d < 2 ^ 51" "0 \<le> c" "3 * 2 ^ p \<le> 4 * c" "2 * c \<le> 3 * 2 ^ p"
  shows "3 * d div 4 \<le> scale_delay d (c, - int p) \<and> scale_delay d (c, - int p) \<le> 3 * d div 2 + 1"
proof -
  let ?m = "d * c"
  have p: "(0::int) < 2 ^ p" by simp
  have "d * (3 * 2 ^ p) \<le> d * (4 * c)" "d * (2 * c) \<le> d * (3 * 2 ^ p)"
    using assms by (auto intro: mult_left_mono)
  then have lo: "(3 * d) * 2 ^ p \<le> ?m * 4" and hi: "?m * 2 \<le> (3 * d) * 2 ^ p" by (simp_all add: mult_ac)
  have "(3 * d div 4 * 4) * 2 ^ p \<le> (3 * d) * 2 ^ p" by (intro mult_right_mono) auto
  with lo have "(3 * d div 4) * 2 ^ p \<le> ?m" by linarith
  from zdiv_mono1 [OF this p] have lo': "3 * d div 4 \<le> ?m div 2 ^ p" using p by simp
  have "(?m div 2 ^ p) * 2 ^ p \<le> ?m" using pos_mod_sign [OF p, of ?m] div_mult_mod_eq [of ?m "2 ^ p"] by linarith
  with hi have "(?m div 2 ^ p * 2) * 2 ^ p \<le> (3 * d) * 2 ^ p" by linarith
  then have "?m div 2 ^ p * 2 \<le> 3 * d" using p by (metis mult_le_cancel_right_pos)
  then have hi': "?m div 2 ^ p \<le> 3 * d div 2" by linarith
  have "(3 * d) * 2 ^ p < (2 ^ 54) * 2 ^ p" using assms(2) by (intro mult_strict_right_mono) auto
  then have "?m * 2 < (2 ^ 54) * 2 ^ p" using hi by (rule order.strict_trans1 [rotated])
  moreover have "(2 ^ 54) * (2 ^ p) = (2 ^ 53 * 2 ^ p) * (2::int)" by simp
  ultimately have "?m < 2 ^ 53 * 2 ^ p" by linarith
  then have small: "?m < 2 ^ (53 + p)" by (simp only: power_add)
  have nonneg: "0 \<le> ?m" using assms by simp
  note t = f64_round_trunc [OF nonneg small]
  have "0 \<le> ?m div 2 ^ p" using nonneg p by (simp add: pos_imp_zdiv_nonneg_iff)
  moreover have "3 * d div 2 + 1 < 2 ^ 63" using assms(2) by simp
  ultimately have "fits_signed 64 (f64_trunc (f64_round (?m, - int p)))"
    using t hi' unfolding fits_signed_def by simp
  moreover have "f64_of_int d = (d, 0)" using assms(1,2) by (intro f64_of_int_exact) simp
  ultimately have "scale_delay d (c, - int p) = f64_trunc (f64_round (?m, - int p))"
    by (simp add: scale_delay_def f64_mul_def f64_to_int64_def Let_def)
  then show ?thesis using t lo' hi' by linarith
qed

lemma calculateDelay_clamped:
  assumes "0 < attempt" "rp_minDelay rp \<le> rp_maxDelay rp"
  shows "rp_minDelay rp \<le> calculateDelay rp rnd attempt \<and> calculateDelay rp rnd attempt \<le> rp_maxDelay rp"
  using assms by (simp add: calculateDelay_def Let_def)

lemma calculateDelayForError_scaled:
  assumes "0 \<le> calculateDelay rp rnd attempt" "calculateDelay rp rnd attempt < 2 ^ 51"
  shows "3 * calculateDelay rp rnd attempt div 4 \<le> calculateDelayForError rp rnd attempt e \<and>
    calculateDelayForError rp rnd attempt e \<le> 3 * calculateDelay rp rnd attempt div 2 + 1"
proof -
  let ?d = "calculateDelay rp rnd attempt"
  note b = scale_delay_bounds [OF assms]
  have "3 * ?d div 4 \<le> ?d" "?d \<le> 3 * ?d div 2 + 1" using assms(1) by linarith+
  with b [of 3 1] b [of 3 2] b [of 7205759403792794 53] b [of 5404319552844595 52]
  show ?thesis
    unfolding calculateDelayForError_def Let_def f64_1_5_def f64_0_75_def f64_0_8_def f64_1_2_def
    by (simp split: option.split err_kind.split)
qed

lemma retry_loop_waits:
  assumes "retry_loop rp env operation n a l r = (res, r')"
    "\<And>i e. 0 < i \<Longrightarrow> lo \<le> calculateDelayForError rp (re_rand env i) i e \<and> calculateDelayForError rp (re_rand env i) i e \<le> hi"
    "\<forall>w \<in> set (rn_waits r). lo \<le> w \<and> w \<le> hi" "0 \<le> a"
  shows "length (rn_waits r') \<le> length (rn_waits r) + (if a = 0 then n - 1 else n) \<and> (\<forall>w \<in> set (rn_waits r'). lo \<le> w \<and> w \<le> hi)"
  using assms(1,3,4)
proof (induction n arbitrary: a l r)
  case (Suc n)
  define r1 where "r1 = (if 0 < a
    then r\<lparr>rn_waits := rn_waits r @ [calculateDelayForError rp (re_rand env a) a l]\<rparr> else r)"
  have r1: "length (rn_waits r1) \<le> length (rn_waits r) + (if a = 0 then 0 else 1) \<and> (\<forall>w \<in> set (rn_waits r1). lo \<le> w \<and> w \<le> hi)"
    using Suc.prems(2) assms(2) by (auto simp: r1_def)
  obtain e s' where op: "operation (rn_state r1) = (e, s')" by fastforce
  show ?case
  proof (cases "rn_waits r' = rn_waits r \<or> rn_waits r' = rn_waits r1")
    case True
    then show ?thesis using r1 Suc.prems(2) by auto
  next
    case False
    then obtain err where "retry_loop rp env operation n (a + 1) (Some err) (r1\<lparr>rn_state := s'\<rparr>) = (res, r')"
      using Suc.prems(1) op by (auto simp: r1_def [symmetric] Let_def split: if_splits option.splits)
    from Suc.IH [OF this] r1 Suc.prems(3) show ?thesis by (auto split: if_splits)
  qed
qed simp

text \<open>
  The waits of \<open>ExecuteWithRetry\<close>. There is at most one wait per retry. When the configured bounds
  are ordered and below about 26 days, every wait, whatever the errors and the random numbers,
  lies between three quarters of the minimal and one and a half times the maximal delay, up to one
  nanosecond of rounding.
\<close>

theorem ExecuteWithRetry_waits:
  assumes "0 \<le> rp_numRetries rp" "0 \<le> rp_minDelay rp" "rp_minDelay rp \<le> rp_maxDelay rp" "rp_maxDelay rp < 2 ^ 51"
    "ExecuteWithRetry rp env operation s = (res, r)"
  shows "int (length (rn_waits r)) \<le> rp_numRetries rp \<and>
    (\<forall>w \<in> set (rn_waits r). 3 * rp_minDelay rp div 4 \<le> w \<and> w \<le> 3 * rp_maxDelay rp div 2 + 1)"
proof -
  have "3 * rp_minDelay rp div 4 \<le> calculateDelayForError rp (re_rand env i) i e \<and>
      calculateDelayForError rp (re_rand env i) i e \<le> 3 * rp_maxDelay rp div 2 + 1" if i: "0 < i" for i e
  proof -
    let ?d = "calculateDelay rp (re_rand env i) i"
    note d = calculateDelay_clamped [OF i assms(3), of "re_rand env i"]
    then have "3 * ?d div 4 \<le> calculateDelayForError rp (re_rand env i) i e \<and>
        calculateDelayForError rp (re_rand env i) i e \<le> 3 * ?d div 2 + 1"
      using assms(2,4) by (intro calculateDelayForError_scaled) linarith+
    moreover have "3 * rp_minDelay rp div 4 \<le> 3 * ?d div 4" "3 * ?d div 2 \<le> 3 * rp_maxDelay rp div 2"
      using d by (simp_all add: zdiv_mono1)
    ultimately show ?thesis by linarith
  qed
  from retry_loop_waits [OF assms(5) [unfolded ExecuteWithRetry_def] this] assms(1)
  show ?thesis by (simp add: new_run_def) linarith
qed

text \<open>
  The delay for a node failure is not capped. With both bounds equal, a failure whose message says
  that a host is down makes the loop wait one and a half times the configured maximal delay.
\<close>

theorem calculateDelayForError_exceeds_max:
  assumes "0 < attempt" "rp_minDelay rp = rp_maxDelay rp" "2 \<le> rp_maxDelay rp" "rp_maxDelay rp < 2 ^ 51"
    "str_contains (str_lower (err_Error err)) ''host down''"
  shows "calculateDelayForError rp rnd attempt (Some err) = 3 * rp_maxDelay rp div 2 \<and>
    rp_maxDelay rp < calculateDelayForError rp rnd attempt (Some err)"
proof -
  have "calculateDelay rp rnd attempt = rp_maxDelay rp"
    using calculateDelay_clamped [of attempt rp rnd] assms(1,2) by simp
  moreover have "scale_delay (rp_maxDelay rp) f64_1_5 = rp_maxDelay rp * 3 div 2 ^ 1"
    unfolding scale_delay_def f64_1_5_def using f64_scale_exact [of "rp_maxDelay rp" 3 1] assms(3,4) by simp
  ultimately show ?thesis
    using assms(3,5) by (simp add: calculateDelayForError_def contains_any_def Let_def mult.commute)
qed

text \<open>
  Classification and retry agree. Every error that \<open>GetErrorCategory\<close> puts into a category of its own
  (node failure, consistency, timeout, overload) is one that the retry loop retries and that the driver
  is told to retry.
\<close>

theorem GetErrorCategory_retryable:
  assumes "GetErrorCategory e \<notin> {''none'', ''other''}"
  shows "isRetryableError e \<and> GetRetryType e = gocql_Retry"
proof -
  have "isRetryableError e"
    using assms
    by (auto simp: GetErrorCategory_def isRetryableError_def IsNodeFailureError_def IsConsistencyError_def
        contains_any_def Let_def split: option.splits if_splits err_kind.splits)
  then show ?thesis by (simp add: GetRetryType_def)
qed

section \<open>An example\<close>

definition example_rp :: RetryPolicy where
  "example_rp = NewRetryPolicy \<lparr>rpc_NumRetries = 2, rpc_MinRetryDelay = 100, rpc_MaxRetryDelay = 1000\<rparr>"

definition example_retry_env :: retry_env where
  "example_retry_env = \<lparr>re_done = (\<lambda>i. False), re_done_waiting = (\<lambda>i. False),
     re_ctxErr = Err KOther ''context canceled'', re_rand = (\<lambda>i. 0)\<rparr>"

text \<open>An operation that times out twice and then succeeds; its state counts the calls.\<close>

definition example_op :: "nat \<Rightarrow> goerr option \<times> nat" where
  "example_op n = (if n < 2 then Some (Err KReadTimeout ''timeout'') else None, n + 1)"

lemma example_retries:
  "isRetryableError (Some (Err KReadTimeout ''timeout''))"
  by (simp add: isRetryableError_def)

lemma example_ExecuteWithRetry:
  "\<exists>r. ExecuteWithRetry example_rp example_retry_env example_op 0 = (None, r) \<and> rn_state r = 3 \<and> length (rn_waits r) = 2"
  using example_retries
  by (simp add: ExecuteWithRetry_def example_rp_def NewRetryPolicy_def example_retry_env_def example_op_def
      new_run_def Let_def numeral_3_eq_3)

lemma ExecuteWithRetry_outcome_witness:
  "\<exists>es r. ExecuteWithRetry example_rp example_retry_env example_op 0 = (None, r) \<and> rn_state r = 3 \<and>
     op_calls example_op (length es) 0 = (es, 3) \<and> retry_outcome example_rp example_retry_env 0 es None"
proof -
  obtain r where r: "ExecuteWithRetry example_rp example_retry_env example_op 0 = (None, r)" "rn_state r = 3"
    using example_ExecuteWithRetry by blast
  show ?thesis
    using ExecuteWithRetry_outcome [OF _ r(1)] r by (auto simp: example_rp_def NewRetryPolicy_def)
qed

lemma ExecuteWithRetry_waits_witness:
  "\<exists>r. ExecuteWithRetry example_rp example_retry_env example_op 0 = (None, r) \<and> length (rn_waits r) = 2 \<and>
     (\<forall>w \<in> set (rn_waits r). 75 \<le> w \<and> w \<le> 1501)"
proof -
  obtain r where r: "ExecuteWithRetry example_rp example_retry_env example_op 0 = (None, r)" "length (rn_waits r) = 2"
    using example_ExecuteWithRetry by blast
  show ?thesis
    using ExecuteWithRetry_waits [OF _ _ _ _ r(1)] r by (auto simp: example_rp_def NewRetryPolicy_def)
qed

lemma calculateDelayForError_exceeds_max_witness:
  "calculateDelayForError (example_rp\<lparr>rp_minDelay := 1000\<rparr>) 0 1 (Some (Err KOther ''host down'')) = 1500"
  using calculateDelayForError_exceeds_max [of 1 "example_rp\<lparr>rp_minDelay := 1000\<rparr>" "Err KOther ''host down''" 0]
  by (simp add: example_rp_def NewRetryPolicy_def str_lower_def char_lower_def)

lemma GetErrorCategory_retryable_witness:
  "GetErrorCategory (Some (Err KUnavailable ''x'')) = ''consistency'' \<and> isRetryableError (Some (Err KUnavailable ''x''))"
proof -
  have "GetErrorCategory (Some (Err KUnavailable ''x'')) = ''consistency''"
    by (simp add: GetErrorCategory_def IsNodeFailureError_def IsConsistencyError_def contains_any_def str_lower_def char_lower_def)
  then show ?thesis using GetErrorCategory_retryable [of "Some (Err KUnavailable ''x'')"] by simp
qed

end
