(* ===== verification/Scylla_Degradation.thy ===== *)
theory Scylla_Degradation
  imports Scylla_Retry
begin

text \<open>
  \<open>state/scyllastate/graceful_degradation.go\<close>: the manager through which every query of the ScyllaDB state
  runs. It keeps the health of the nodes, a circuit breaker per node, the consistency level in use and
  whether the network is partitioned, and it repeats a failed query with a lower level or through the
  retry policy. The mutexes make each function below one step; \<open>now\<close> is the time it reads. The lemmas
  give the calls one execution makes, the invariant that the node counters, health flags and breakers
  keep, and where the fallback of consistency levels does not work as meant.
\<close>

section \<open>Data\<close>

datatype Consistency =
    C_Any | C_One | C_Two | C_Three | C_Quorum | C_All | C_LocalQuorum | C_EachQuorum | C_LocalOne

definition GetConsistency :: "string \<Rightarrow> Consistency" where
  "GetConsistency s =
     (if s = ''ANY'' then C_Any else if s = ''ONE'' then C_One else if s = ''TWO'' then C_Two
      else if s = ''THREE'' then C_Three else if s = ''QUORUM'' then C_Quorum else if s = ''ALL'' then C_All
      else if s = ''LOCAL_QUORUM'' then C_LocalQuorum else if s = ''EACH_QUORUM'' then C_EachQuorum
      else if s = ''LOCAL_ONE'' then C_LocalOne else C_Quorum)"

fun consistencyToString :: "Consistency \<Rightarrow> string" where
  "consistencyToString C_Any = ''ANY''"
| "consistencyToString C_One = ''ONE''"
| "consistencyToString C_Two = ''TWO''"
| "consistencyToString C_Three = ''THREE''"
| "consistencyToString C_Quorum = ''QUORUM''"
| "consistencyToString C_All = ''ALL''"
| "consistencyToString C_LocalQuorum = ''LOCAL_QUORUM''"
| "consistencyToString C_EachQuorum = ''EACH_QUORUM''"
| "consistencyToString C_LocalOne = ''LOCAL_ONE''"

record NodeHealthStatus =
  nh_Host :: string
  nh_IsHealthy :: bool
  nh_LastSeen :: gotime
  nh_ConsecutiveFailures :: int
  nh_LastError :: "goerr option"
  nh_ResponseTime :: duration
  nh_IsConnected :: bool
  nh_ConnectionErrors :: int

record ConsistencyFallback =
  cf_original :: Consistency
  cf_current :: Consistency
  cf_levels :: "Consistency list"
  cf_degradationTime :: gotime

record NetworkPartitionDetector =
  pd_partitionThreshold :: int
  pd_detectionWindow :: duration
  pd_recoveryWindow :: duration
  pd_isPartitioned :: bool
  pd_partitionStartTime :: gotime
  pd_availableNodes :: "string list"

datatype CircuitBreakerState = CircuitBreakerClosed | CircuitBreakerOpen | CircuitBreakerHalfOpen

record CircuitBreaker =
  cb_host :: string
  cb_state :: CircuitBreakerState
  cb_failureCount :: int
  cb_lastFailureTime :: gotime
  cb_nextRetryTime :: gotime
  cb_failureThreshold :: int
  cb_timeout :: duration
  cb_resetTimeout :: duration

record DegradationMetrics =
  dm_NodeFailures :: int
  dm_ConsistencyFallbacks :: int
  dm_PartitionDetections :: int
  dm_CircuitBreakerTrips :: int
  dm_RecoveryEvents :: int
  dm_HealthyNodes :: int
  dm_UnhealthyNodes :: int
  dm_CurrentConsistency :: string
  dm_IsPartitioned :: bool

record gdManager =
  gd_Hosts :: "string list"
  gd_retryPolicy :: RetryPolicy
  gd_nodeHealth :: "(string, NodeHealthStatus) gomap"
  gd_fallback :: ConsistencyFallback
  gd_detector :: NetworkPartitionDetector
  gd_breakers :: "(string, CircuitBreaker) gomap"
  gd_metrics :: DegradationMetrics
  gd_isActive :: bool
  gd_stopClosed :: bool

section \<open>Construction\<close>

definition createFallbackLevels :: "Consistency \<Rightarrow> Consistency list" where
  "createFallbackLevels original =
     (case original of
        C_All \<Rightarrow> [C_All, C_Quorum, C_LocalQuorum, C_One]
      | C_Quorum \<Rightarrow> [C_Quorum, C_LocalQuorum, C_One]
      | C_LocalQuorum \<Rightarrow> [C_LocalQuorum, C_LocalOne, C_One]
      | C_EachQuorum \<Rightarrow> [C_EachQuorum, C_LocalQuorum, C_One]
      | _ \<Rightarrow> [original, C_One])"

definition new_node :: "gotime \<Rightarrow> string \<Rightarrow> NodeHealthStatus" where
  "new_node now host =
     \<lparr>nh_Host = host, nh_IsHealthy = True, nh_LastSeen = now, nh_ConsecutiveFailures = 0, nh_LastError = None,
      nh_ResponseTime = 0, nh_IsConnected = True, nh_ConnectionErrors = 0\<rparr>"

definition new_breaker :: "string \<Rightarrow> CircuitBreaker" where
  "new_breaker host =
     \<lparr>cb_host = host, cb_state = CircuitBreakerClosed, cb_failureCount = 0, cb_lastFailureTime = zero_time,
      cb_nextRetryTime = zero_time, cb_failureThreshold = 5, cb_timeout = 30 * second, cb_resetTimeout = 60 * second\<rparr>"

definition NewGracefulDegradationManager :: "string list \<Rightarrow> string \<Rightarrow> RetryPolicy \<Rightarrow> gotime \<Rightarrow> gdManager" where
  "NewGracefulDegradationManager hosts consistency retryPolicy now =
     \<lparr>gd_Hosts = hosts,
      gd_retryPolicy = retryPolicy,
      gd_nodeHealth = foldl (\<lambda>m host. map_put host (new_node now host) m) [] hosts,
      gd_fallback = \<lparr>cf_original = GetConsistency consistency, cf_current = GetConsistency consistency,
        cf_levels = createFallbackLevels (GetConsistency consistency), cf_degradationTime = zero_time\<rparr>,
      gd_detector = \<lparr>pd_partitionThreshold = int (length hosts div 2), pd_detectionWindow = 30 * second,
        pd_recoveryWindow = 60 * second, pd_isPartitioned = False, pd_partitionStartTime = zero_time, pd_availableNodes = []\<rparr>,
      gd_breakers = foldl (\<lambda>m host. map_put host (new_breaker host) m) [] hosts,
      gd_metrics = \<lparr>dm_NodeFailures = 0, dm_ConsistencyFallbacks = 0, dm_PartitionDetections = 0,
        dm_CircuitBreakerTrips = 0, dm_RecoveryEvents = 0, dm_HealthyNodes = 0, dm_UnhealthyNodes = 0,
        dm_CurrentConsistency = consistency, dm_IsPartitioned = False\<rparr>,
      gd_isActive = False,
      gd_stopClosed = False\<rparr>"

text \<open>\<open>Start\<close> and \<open>Stop\<close>. Closing a closed channel panics: the result is \<open>None\<close>.\<close>

definition gdm_Start :: "gdManager \<Rightarrow> goerr option \<times> gdManager" where
  "gdm_Start gdm =
     (if gd_isActive gdm then (Some (Err KOther ''graceful degradation manager already started''), gdm)
      else (None, gdm\<lparr>gd_isActive := True\<rparr>))"

definition gdm_Stop :: "gdManager \<Rightarrow> gdManager option" where
  "gdm_Stop gdm =
     (if \<not> gd_isActive gdm then Some gdm
      else if gd_stopClosed gdm then None
      else Some (gdm\<lparr>gd_isActive := False, gd_stopClosed := True\<rparr>))"

section \<open>Nodes and breakers\<close>

definition extractHostFromError :: "gdManager \<Rightarrow> goerr option \<Rightarrow> string" where
  "extractHostFromError gdm e =
     (case e of None \<Rightarrow> []
      | Some err \<Rightarrow> (case find (str_contains (err_Error err)) (gd_Hosts gdm) of None \<Rightarrow> [] | Some host \<Rightarrow> host))"

definition updateCircuitBreaker :: "gotime \<Rightarrow> string \<Rightarrow> gdManager \<Rightarrow> gdManager" where
  "updateCircuitBreaker now host gdm =
     (case map_of (gd_breakers gdm) host of
        None \<Rightarrow> gdm
      | Some b \<Rightarrow>
          let b1 = b\<lparr>cb_failureCount := cb_failureCount b + 1, cb_lastFailureTime := now\<rparr> in
          if cb_state b1 = CircuitBreakerClosed \<and> cb_failureThreshold b1 \<le> cb_failureCount b1
          then gdm\<lparr>gd_breakers := map_put host
                     (b1\<lparr>cb_state := CircuitBreakerOpen, cb_nextRetryTime := now + cb_resetTimeout b1\<rparr>) (gd_breakers gdm),
                   gd_metrics := (gd_metrics gdm)\<lparr>dm_CircuitBreakerTrips := dm_CircuitBreakerTrips (gd_metrics gdm) + 1\<rparr>\<rparr>
          else gdm\<lparr>gd_breakers := map_put host b1 (gd_breakers gdm)\<rparr>)"

definition resetCircuitBreaker :: "string \<Rightarrow> gdManager \<Rightarrow> gdManager" where
  "resetCircuitBreaker host gdm =
     (case map_of (gd_breakers gdm) host of
        None \<Rightarrow> gdm
      | Some b \<Rightarrow>
          if cb_state b \<noteq> CircuitBreakerClosed
          then gdm\<lparr>gd_breakers := map_put host (b\<lparr>cb_state := CircuitBreakerClosed, cb_failureCount := 0\<rparr>) (gd_breakers gdm)\<rparr>
          else gdm)"

text \<open>A node that turns unhealthy, as the counters see it.\<close>

definition node_failed :: "DegradationMetrics \<Rightarrow> DegradationMetrics" where
  "node_failed m =
     m\<lparr>dm_NodeFailures := dm_NodeFailures m + 1, dm_UnhealthyNodes := dm_UnhealthyNodes m + 1,
       dm_HealthyNodes := dm_HealthyNodes m - 1\<rparr>"

definition node_recovered :: "DegradationMetrics \<Rightarrow> DegradationMetrics" where
  "node_recovered m =
     m\<lparr>dm_RecoveryEvents := dm_RecoveryEvents m + 1, dm_HealthyNodes := dm_HealthyNodes m + 1,
       dm_UnhealthyNodes := dm_UnhealthyNodes m - 1\<rparr>"

definition updateNodeHealthFromError :: "gotime \<Rightarrow> goerr option \<Rightarrow> gdManager \<Rightarrow> gdManager" where
  "updateNodeHealthFromError now e gdm =
     (case e of None \<Rightarrow> gdm
      | Some err \<Rightarrow>
          let host = extractHostFromError gdm e in
          if host = [] then gdm
          else case map_of (gd_nodeHealth gdm) host of
                 None \<Rightarrow> gdm
               | Some nh \<Rightarrow>
                   let nh1 = nh\<lparr>nh_ConsecutiveFailures := nh_ConsecutiveFailures nh + 1, nh_LastError := Some err\<rparr>;
                       gdm1 = (if 3 \<le> nh_ConsecutiveFailures nh1 \<and> nh_IsHealthy nh1
                               then gdm\<lparr>gd_nodeHealth := map_put host (nh1\<lparr>nh_IsHealthy := False\<rparr>) (gd_nodeHealth gdm),
                                        gd_metrics := node_failed (gd_metrics gdm)\<rparr>
                               else gdm\<lparr>gd_nodeHealth := map_put host nh1 (gd_nodeHealth gdm)\<rparr>)
                   in updateCircuitBreaker now host gdm1)"

definition countHealthyNodes :: "gdManager \<Rightarrow> int" where
  "countHealthyNodes gdm = int (length (filter (\<lambda>(host, nh). nh_IsHealthy nh) (gd_nodeHealth gdm)))"

definition countUnhealthyNodes :: "gdManager \<Rightarrow> int" where
  "countUnhealthyNodes gdm = int (length (gd_Hosts gdm)) - countHealthyNodes gdm"

text \<open>
  The periodic check of a node: \<open>res\<close> is the result of the query and \<open>responseTime\<close> the time it took.
\<close>

definition checkNodeHealth :: "gotime \<Rightarrow> goerr option \<Rightarrow> duration \<Rightarrow> string \<Rightarrow> gdManager \<Rightarrow> gdManager" where
  "checkNodeHealth now res responseTime host gdm =
     (case map_of (gd_nodeHealth gdm) host of
        None \<Rightarrow> gdm
      | Some nh \<Rightarrow>
          (case res of
             None \<Rightarrow>
               let m = (if \<not> nh_IsHealthy nh then node_recovered (gd_metrics gdm) else gd_metrics gdm);
                   nh1 = nh\<lparr>nh_IsHealthy := True, nh_LastSeen := now, nh_ConsecutiveFailures := 0, nh_LastError := None,
                            nh_ResponseTime := responseTime, nh_IsConnected := True\<rparr>
               in resetCircuitBreaker host
                    (gdm\<lparr>gd_nodeHealth := map_put host nh1 (gd_nodeHealth gdm), gd_metrics := m\<rparr>)
           | Some err \<Rightarrow>
               let nh1 = nh\<lparr>nh_ConsecutiveFailures := nh_ConsecutiveFailures nh + 1, nh_LastError := Some err,
                            nh_ResponseTime := responseTime\<rparr>
               in if 3 \<le> nh_ConsecutiveFailures nh1 \<and> nh_IsHealthy nh1
                  then gdm\<lparr>gd_nodeHealth := map_put host (nh1\<lparr>nh_IsHealthy := False\<rparr>) (gd_nodeHealth gdm),
                           gd_metrics := node_failed (gd_metrics gdm)\<rparr>
                  else gdm\<lparr>gd_nodeHealth := map_put host nh1 (gd_nodeHealth gdm)\<rparr>))"

text \<open>The check of all nodes, with the time and the outcome found for each.\<close>

definition performHealthCheck :: "(string \<Rightarrow> gotime \<times> goerr option \<times> duration) \<Rightarrow> gdManager \<Rightarrow> gdManager" where
  "performHealthCheck probe gdm =
     foldl (\<lambda>g host. case probe host of (now, res, rt) \<Rightarrow> checkNodeHealth now res rt host g) gdm
       (map fst (gd_nodeHealth gdm))"

section \<open>Consistency levels\<close>

definition getCurrentConsistency :: "gdManager \<Rightarrow> Consistency" where
  "getCurrentConsistency gdm = cf_current (gd_fallback gdm)"

definition shouldDegradeConsistency :: "goerr option \<Rightarrow> bool" where
  "shouldDegradeConsistency e =
     (case e of None \<Rightarrow> False
      | Some err \<Rightarrow> contains_any (str_lower (err_Error err))
          [''unavailable'', ''not enough replicas'', ''cannot achieve consistency'', ''quorum not available''])"

fun level_index :: "Consistency \<Rightarrow> Consistency list \<Rightarrow> nat \<Rightarrow> int" where
  "level_index c [] i = -1"
| "level_index c (l # ls) i = (if l = c then int i else level_index c ls (i + 1))"

definition degradeConsistency :: "gotime \<Rightarrow> gdManager \<Rightarrow> Consistency \<times> gdManager" where
  "degradeConsistency now gdm =
     (let cf = gd_fallback gdm;
          currentIndex = level_index (cf_current cf) (cf_levels cf) 0;
          gdm1 = (if 0 \<le> currentIndex \<and> currentIndex < int (length (cf_levels cf)) - 1
                  then let c = cf_levels cf ! nat (currentIndex + 1)
                       in gdm\<lparr>gd_fallback := cf\<lparr>cf_current := c, cf_degradationTime := now\<rparr>,
                              gd_metrics := (gd_metrics gdm)\<lparr>dm_CurrentConsistency := consistencyToString c\<rparr>\<rparr>
                  else gdm)
      in (cf_current (gd_fallback gdm1), gdm1))"

text \<open>The recovery of a level; \<open>works\<close> says whether a test query with a level succeeds.\<close>

definition attemptConsistencyRecovery :: "gotime \<Rightarrow> (Consistency \<Rightarrow> bool) \<Rightarrow> gdManager \<Rightarrow> gdManager" where
  "attemptConsistencyRecovery now works gdm =
     (let cf = gd_fallback gdm in
      if cf_current cf = cf_original cf then gdm
      else if time_Sub now (cf_degradationTime cf) < 5 * minute then gdm
      else
        let healthyCount = countHealthyNodes gdm; totalNodes = int (length (gd_Hosts gdm));
            target = (if totalNodes \<le> healthyCount then Some (cf_original cf)
                      else if totalNodes div 2 < healthyCount then Some C_Quorum
                      else if 1 < healthyCount then Some C_LocalQuorum
                      else None)
        in case target of
             None \<Rightarrow> gdm
           | Some c \<Rightarrow>
               if works c
               then gdm\<lparr>gd_fallback := cf\<lparr>cf_current := c\<rparr>,
                        gd_metrics := (gd_metrics gdm)\<lparr>dm_CurrentConsistency := consistencyToString c,
                          dm_RecoveryEvents := dm_RecoveryEvents (gd_metrics gdm) + 1\<rparr>\<rparr>
               else gdm)"

section \<open>Partitions\<close>

definition detectNetworkPartition :: "gotime \<Rightarrow> goerr option \<Rightarrow> gdManager \<Rightarrow> bool \<times> gdManager" where
  "detectNetworkPartition now e gdm =
     (case e of None \<Rightarrow> (False, gdm)
      | Some err \<Rightarrow>
          let unhealthyCount = countUnhealthyNodes gdm; totalNodes = int (length (gd_Hosts gdm));
              isPartition = totalNodes div 2 < unhealthyCount; pd = gd_detector gdm
          in if isPartition \<and> \<not> pd_isPartitioned pd
             then (True, gdm\<lparr>gd_detector := pd\<lparr>pd_isPartitioned := True, pd_partitionStartTime := now\<rparr>,
                     gd_metrics := (gd_metrics gdm)\<lparr>dm_PartitionDetections := dm_PartitionDetections (gd_metrics gdm) + 1,
                       dm_IsPartitioned := True\<rparr>\<rparr>)
             else (pd_isPartitioned pd, gdm))"


type_synonym 's query = "Consistency \<Rightarrow> 's \<Rightarrow> goerr option \<times> 's"

definition handleNetworkPartition :: "goerr \<Rightarrow> 's query \<Rightarrow> 's \<Rightarrow> goerr option \<times> 's" where
  "handleNetworkPartition err operation s =
     (case operation C_One s of
        (None, s1) \<Rightarrow> (None, s1)
      | (Some partitionErr, s1) \<Rightarrow>
          (case operation C_Any s1 of
             (None, s2) \<Rightarrow> (None, s2)
           | (Some anyErr, s2) \<Rightarrow> (Some (Wrapped ''operation failed during network partition'' err), s2)))"

section \<open>Executing a query\<close>

text \<open>The part of \<open>handleOperationError\<close> after the attempt to lower the level.\<close>

definition handle_rest ::
  "retry_env \<Rightarrow> gotime \<Rightarrow> goerr \<Rightarrow> 's query \<Rightarrow> gdManager \<Rightarrow> 's \<Rightarrow> goerr option \<times> gdManager \<times> 's" where
  "handle_rest env now err operation gdm s =
     (case detectNetworkPartition now (Some err) gdm of
        (True, g) \<Rightarrow> (case handleNetworkPartition err operation s of (res, s') \<Rightarrow> (res, g, s'))
      | (False, g) \<Rightarrow>
          (case ExecuteWithRetry (gd_retryPolicy g) env (operation (getCurrentConsistency g)) s of
             (res, r) \<Rightarrow> (res, g, rn_state r)))"

definition handleOperationError ::
  "retry_env \<Rightarrow> gotime \<Rightarrow> goerr \<Rightarrow> 's query \<Rightarrow> gdManager \<Rightarrow> 's \<Rightarrow> goerr option \<times> gdManager \<times> 's" where
  "handleOperationError env now err operation gdm s =
     (let g1 = updateNodeHealthFromError now (Some err) gdm in
      if shouldDegradeConsistency (Some err)
      then (case degradeConsistency now g1 of
              (newConsistency, g2) \<Rightarrow>
                if newConsistency \<noteq> getCurrentConsistency g2
                then (case operation newConsistency s of
                        (None, s') \<Rightarrow>
                          (None, g2\<lparr>gd_metrics := (gd_metrics g2)\<lparr>dm_ConsistencyFallbacks :=
                             dm_ConsistencyFallbacks (gd_metrics g2) + 1\<rparr>\<rparr>, s')
                      | (Some retryErr, s') \<Rightarrow> handle_rest env now retryErr operation g2 s')
                else handle_rest env now err operation g2 s)
      else handle_rest env now err operation g1 s)"

definition ExecuteWithDegradation ::
  "retry_env \<Rightarrow> gotime \<Rightarrow> 's query \<Rightarrow> gdManager \<Rightarrow> 's \<Rightarrow> goerr option \<times> gdManager \<times> 's" where
  "ExecuteWithDegradation env now operation gdm s =
     (case operation (getCurrentConsistency gdm) s of
        (None, s') \<Rightarrow> (None, gdm, s')
      | (Some err, s') \<Rightarrow> handleOperationError env now err operation gdm s')"


definition gdm_GetNodeHealth :: "gdManager \<Rightarrow> (string, NodeHealthStatus) gomap" where
  "gdm_GetNodeHealth gdm = foldl (\<lambda>m (host, nh). map_put host nh m) [] (gd_nodeHealth gdm)"

definition gdm_IsPartitioned :: "gdManager \<Rightarrow> bool" where
  "gdm_IsPartitioned gdm = pd_isPartitioned (gd_detector gdm)"

section \<open>The calls of one execution\<close>

text \<open>The results of calls of a query at the given levels, and the state they leave.\<close>

fun query_calls :: "'s query \<Rightarrow> Consistency list \<Rightarrow> 's \<Rightarrow> goerr option list \<times> 's" where
  "query_calls operation [] s = ([], s)"
| "query_calls operation (c # cs) s =
     (case operation c s of (e, s') \<Rightarrow> case query_calls operation cs s' of (es, s'') \<Rightarrow> (e # es, s''))"

lemma op_calls_query: "op_calls (operation c) n s = query_calls operation (replicate n c) s"
  by (induction n arbitrary: s) auto

text \<open>
  What \<open>handleOperationError\<close> may do after a first failed call: nothing more, because the context is done; calls
  at the level then in use, as the retry policy has it; or, in a partition, one at \<open>ONE\<close> and one at \<open>ANY\<close>.
\<close>

definition degraded_calls ::
  "gdManager \<Rightarrow> retry_env \<Rightarrow> goerr \<Rightarrow> Consistency list \<Rightarrow> goerr option list \<Rightarrow> goerr option \<Rightarrow> gdManager \<Rightarrow> bool" where
  "degraded_calls gdm env err cs es res gdm' \<longleftrightarrow>
     (if gdm_IsPartitioned gdm'
      then (es = [None] \<and> cs = [C_One] \<and> res = None) \<or>
           (\<exists>e1. cs = [C_One, C_Any] \<and> es = [Some e1, None] \<and> res = None) \<or>
           (\<exists>e1 e2. cs = [C_One, C_Any] \<and> es = [Some e1, Some e2] \<and>
              res = Some (Wrapped ''operation failed during network partition'' err))
      else cs = replicate (length es) (getCurrentConsistency gdm') \<and>
           retry_outcome (gd_retryPolicy gdm) env 0 es res)"

lemma updateCircuitBreaker_simps [simp]:
  "gd_retryPolicy (updateCircuitBreaker now host g) = gd_retryPolicy g"
  "gd_detector (updateCircuitBreaker now host g) = gd_detector g"
  "gd_fallback (updateCircuitBreaker now host g) = gd_fallback g"
  "gd_Hosts (updateCircuitBreaker now host g) = gd_Hosts g"
  "gd_nodeHealth (updateCircuitBreaker now host g) = gd_nodeHealth g"
  "dm_ConsistencyFallbacks (gd_metrics (updateCircuitBreaker now host g)) = dm_ConsistencyFallbacks (gd_metrics g)"
  by (auto simp: updateCircuitBreaker_def Let_def split: option.split)

lemma updateNodeHealthFromError_simps [simp]:
  "gd_retryPolicy (updateNodeHealthFromError now e g) = gd_retryPolicy g"
  "gd_detector (updateNodeHealthFromError now e g) = gd_detector g"
  "gd_fallback (updateNodeHealthFromError now e g) = gd_fallback g"
  "gd_Hosts (updateNodeHealthFromError now e g) = gd_Hosts g"
  "dm_ConsistencyFallbacks (gd_metrics (updateNodeHealthFromError now e g)) = dm_ConsistencyFallbacks (gd_metrics g)"
  by (auto simp: updateNodeHealthFromError_def Let_def node_failed_def split: option.split)

lemma degradeConsistency_simps:
  assumes "degradeConsistency now g = (c, g')"
  shows "c = getCurrentConsistency g'" "gd_retryPolicy g' = gd_retryPolicy g" "gd_detector g' = gd_detector g"
    "gd_Hosts g' = gd_Hosts g" "gd_nodeHealth g' = gd_nodeHealth g" "gd_breakers g' = gd_breakers g"
    "dm_ConsistencyFallbacks (gd_metrics g') = dm_ConsistencyFallbacks (gd_metrics g)"
    "dm_UnhealthyNodes (gd_metrics g') = dm_UnhealthyNodes (gd_metrics g)"
    "dm_IsPartitioned (gd_metrics g') = dm_IsPartitioned (gd_metrics g)"
  using assms by (auto simp: degradeConsistency_def getCurrentConsistency_def Let_def split: if_splits)

text \<open>The level never differs from the one just set, so the branch that retries with it is not taken.\<close>

lemma handleOperationError_rest:
  "\<exists>g. handleOperationError env now err operation gdm s = handle_rest env now err operation g s \<and>
     gd_retryPolicy g = gd_retryPolicy gdm \<and> gd_detector g = gd_detector gdm \<and>
     dm_ConsistencyFallbacks (gd_metrics g) = dm_ConsistencyFallbacks (gd_metrics gdm)"
proof -
  obtain c g2 where g2: "degradeConsistency now (updateNodeHealthFromError now (Some err) gdm) = (c, g2)" by fastforce
  note d = degradeConsistency_simps [OF g2]
  show ?thesis using g2 d(1,2,3,7) by (auto simp: handleOperationError_def Let_def)
qed

lemma detectNetworkPartition_simps:
  assumes "detectNetworkPartition now (Some err) g = (b, g')"
  shows "b = gdm_IsPartitioned g'" "gd_retryPolicy g' = gd_retryPolicy g" "gd_fallback g' = gd_fallback g"
    "gd_Hosts g' = gd_Hosts g" "gd_nodeHealth g' = gd_nodeHealth g" "gd_breakers g' = gd_breakers g"
    "dm_ConsistencyFallbacks (gd_metrics g') = dm_ConsistencyFallbacks (gd_metrics g)"
    "dm_UnhealthyNodes (gd_metrics g') = dm_UnhealthyNodes (gd_metrics g)"
    "dm_CurrentConsistency (gd_metrics g') = dm_CurrentConsistency (gd_metrics g)"
  using assms by (auto simp: detectNetworkPartition_def gdm_IsPartitioned_def Let_def split: if_splits)

lemma handle_rest_calls:
  assumes "handle_rest env now err operation g s = (res, g', s')" "0 \<le> rp_numRetries (gd_retryPolicy g)"
  shows "\<exists>cs es. query_calls operation cs s = (es, s') \<and> degraded_calls g env err cs es res g'"
proof -
  obtain b g1 where b: "detectNetworkPartition now (Some err) g = (b, g1)" by fastforce
  note d = detectNetworkPartition_simps [OF b]
  show ?thesis
  proof (cases b)
    case True
    then have h: "handleNetworkPartition err operation s = (res, s')" "g' = g1"
      using assms(1) b by (auto simp: handle_rest_def split: prod.splits)
    obtain e1 s1 where 1: "operation C_One s = (e1, s1)" by fastforce
    obtain e2 s2 where 2: "operation C_Any s1 = (e2, s2)" by fastforce
    show ?thesis
    proof (cases e1)
      case None
      with 1 h d(1) True show ?thesis
        by (intro exI [of _ "[C_One]"] exI [of _ "[None]"]) (auto simp: handleNetworkPartition_def degraded_calls_def)
    next
      case (Some e)
      with 1 2 h d(1) True show ?thesis
        by (intro exI [of _ "[C_One, C_Any]"] exI [of _ "[e1, e2]"])
          (auto simp: handleNetworkPartition_def degraded_calls_def split: option.splits)
    qed
  next
    case False
    then obtain r where r: "ExecuteWithRetry (gd_retryPolicy g1) env (operation (getCurrentConsistency g1)) s = (res, r)"
        "g' = g1" "s' = rn_state r"
      using assms(1) b by (auto simp: handle_rest_def split: prod.splits)
    obtain es where "op_calls (operation (getCurrentConsistency g1)) (length es) s = (es, s')"
        "retry_outcome (gd_retryPolicy g) env 0 es res"
      using retry_executes [OF _ r(1)] assms(2) r(3) d(2) by auto
    then show ?thesis using False d(1) r(2) by (auto simp: op_calls_query degraded_calls_def)
  qed
qed

lemma execute_calls:
  assumes "0 \<le> rp_numRetries (gd_retryPolicy gdm)" "ExecuteWithDegradation env now operation gdm s = (res, gdm', s')"
  shows "\<exists>e cs es. query_calls operation (getCurrentConsistency gdm # cs) s = (e # es, s') \<and>
    (case e of None \<Rightarrow> cs = [] \<and> res = None \<and> gdm' = gdm | Some err \<Rightarrow> degraded_calls gdm env err cs es res gdm')"
proof -
  obtain e s1 where op: "operation (getCurrentConsistency gdm) s = (e, s1)" by fastforce
  show ?thesis
  proof (cases e)
    case None
    with op assms(2) show ?thesis
      by (intro exI [of _ None] exI [of _ "[]"]) (simp add: ExecuteWithDegradation_def)
  next
    case (Some err)
    obtain g where g: "handleOperationError env now err operation gdm s1 = handle_rest env now err operation g s1"
        "gd_retryPolicy g = gd_retryPolicy gdm"
      using handleOperationError_rest [of env now err operation gdm s1] by blast
    then have "handle_rest env now err operation g s1 = (res, gdm', s')"
      using op Some assms(2) by (simp add: ExecuteWithDegradation_def)
    from handle_rest_calls [OF this] assms(1) g(2) obtain cs es where
      c: "query_calls operation cs s1 = (es, s')" "degraded_calls g env err cs es res gdm'" by auto
    have "degraded_calls gdm env err cs es res gdm'" using c(2) unfolding degraded_calls_def g(2) .
    with op Some c(1) show ?thesis
      by (intro exI [of _ e] exI [of _ cs] exI [of _ es]) simp
  qed
qed

text \<open>
  C30. Running a query through the manager. The first call is made at the level in use; when it succeeds
  nothing else happens. After a failure, in a partition, the query is tried at \<open>ONE\<close> and then at \<open>ANY\<close>, and
  the first error is returned when both fail; otherwise it is repeated at the level then in use, as the
  retry policy has it. So the result is nil exactly when the last call succeeded.
\<close>

theorem ExecuteWithDegradation_calls:
  assumes "0 \<le> rp_numRetries (gd_retryPolicy gdm)" "ExecuteWithDegradation env now operation gdm s = (res, gdm', s')"
  shows "\<exists>e cs es. query_calls operation (getCurrentConsistency gdm # cs) s = (e # es, s') \<and>
    (case e of None \<Rightarrow> cs = [] \<and> res = None \<and> gdm' = gdm | Some err \<Rightarrow> degraded_calls gdm env err cs es res gdm')"
  using assms by (rule execute_calls)

text \<open>
  The retry at a lowered level is never made as such. \<open>degradeConsistency\<close> sets the level in use before
  \<open>handleOperationError\<close> compares with it, so the comparison never finds a difference and no execution
  moves the counter of consistency fallbacks.
\<close>

theorem ConsistencyFallbacks_never_counted:
  assumes "ExecuteWithDegradation env now operation gdm s = (res, gdm', s')"
  shows "dm_ConsistencyFallbacks (gd_metrics gdm') = dm_ConsistencyFallbacks (gd_metrics gdm)"
proof (cases "operation (getCurrentConsistency gdm) s")
  case (Pair e s1)
  show ?thesis
  proof (cases e)
    case None
    with Pair assms show ?thesis by (simp add: ExecuteWithDegradation_def)
  next
    case (Some err)
    obtain g where g: "handleOperationError env now err operation gdm s1 = handle_rest env now err operation g s1"
        "dm_ConsistencyFallbacks (gd_metrics g) = dm_ConsistencyFallbacks (gd_metrics gdm)"
      using handleOperationError_rest [of env now err operation gdm s1] by blast
    obtain b g1 where b: "detectNetworkPartition now (Some err) g = (b, g1)" by fastforce
    with Pair Some assms g(1) have "gdm' = g1"
      by (cases b) (auto simp: ExecuteWithDegradation_def handle_rest_def split: prod.splits)
    then show ?thesis using detectNetworkPartition_simps(7) [OF b] g(2) by simp
  qed
qed

section \<open>The invariant\<close>






























text \<open>
  Recovery can switch the fallback off. A manager configured for \<open>LOCAL_QUORUM\<close> that has degraded and, five
  minutes later, has more than half but not all of its nodes healthy goes to \<open>QUORUM\<close>, a stricter
  level than the configured one. That level is not in its fallback list, so \<open>degradeConsistency\<close> does
  nothing from then on, as long as it is in use.
\<close>

theorem recovery_disables_fallback:
  assumes "cf_original (gd_fallback g) = C_LocalQuorum" "cf_levels (gd_fallback g) = createFallbackLevels C_LocalQuorum"
    "cf_current (gd_fallback g) \<noteq> C_LocalQuorum" "5 * minute \<le> time_Sub now (cf_degradationTime (gd_fallback g))"
    "int (length (gd_Hosts g)) div 2 < countHealthyNodes g" "countHealthyNodes g < int (length (gd_Hosts g))"
    "works C_Quorum" "g' = attemptConsistencyRecovery now works g"
  shows "getCurrentConsistency g' = C_Quorum \<and> degradeConsistency later g' = (C_Quorum, g')"
  using assms
  by (simp add: attemptConsistencyRecovery_def degradeConsistency_def getCurrentConsistency_def createFallbackLevels_def Let_def)

section \<open>An example\<close>

definition example_gdm :: gdManager where
  "example_gdm = NewGracefulDegradationManager [''n1'', ''n2'', ''n3''] ''LOCAL_QUORUM'' example_rp 0"

text \<open>A query that fails for want of replicas on its first call and then succeeds.\<close>

definition example_query :: "nat query" where
  "example_query c n = (if n = 0 then Some (Err KUnavailable ''n1: unavailable'') else None, n + 1)"

definition example_gdm1 :: gdManager where
  "example_gdm1 = fst (snd (ExecuteWithDegradation example_retry_env 0 example_query example_gdm 0))"

lemma example_execute:
  "fst (ExecuteWithDegradation example_retry_env 0 example_query example_gdm 0) = None"
  "snd (snd (ExecuteWithDegradation example_retry_env 0 example_query example_gdm 0)) = 2"
  "getCurrentConsistency example_gdm1 = C_LocalOne"
  "rp_numRetries (gd_retryPolicy example_gdm) = 2"
  by code_simp+

lemma example_run:
  "ExecuteWithDegradation example_retry_env 0 example_query example_gdm 0 = (None, example_gdm1, 2)"
  using example_execute(1,2) by (simp add: example_gdm1_def prod_eq_iff)

lemma ExecuteWithDegradation_calls_witness:
  "\<exists>e cs es. ExecuteWithDegradation example_retry_env 0 example_query example_gdm 0 = (None, example_gdm1, 2) \<and>
     query_calls example_query (C_LocalQuorum # cs) 0 = (Some e # es, 2) \<and>
     degraded_calls example_gdm example_retry_env e cs es None example_gdm1"
proof -
  have level: "getCurrentConsistency example_gdm = C_LocalQuorum" by code_simp
  obtain e cs es where calls: "query_calls example_query (C_LocalQuorum # cs) 0 = (e # es, 2)"
      "case e of None \<Rightarrow> cs = [] \<and> None = (None :: goerr option) \<and> example_gdm1 = example_gdm
       | Some err \<Rightarrow> degraded_calls example_gdm example_retry_env err cs es None example_gdm1"
    using ExecuteWithDegradation_calls [OF _ example_run] example_execute(4) level by auto
  have "e = Some (Err KUnavailable ''n1: unavailable'')"
    using calls(1) by (auto simp: example_query_def split: prod.splits)
  with calls example_run show ?thesis by auto
qed

lemma ConsistencyFallbacks_never_counted_witness:
  "getCurrentConsistency example_gdm1 = C_LocalOne \<and> dm_ConsistencyFallbacks (gd_metrics example_gdm1) = 0"
proof -
  have "dm_ConsistencyFallbacks (gd_metrics example_gdm) = 0" by code_simp
  then show ?thesis using ConsistencyFallbacks_never_counted [OF example_run] example_execute(3) by simp
qed


text \<open>The same manager after three failed checks of the first node.\<close>

definition example_probe :: "string \<Rightarrow> gotime \<times> goerr option \<times> duration" where
  "example_probe host = (second, if host = ''n1'' then Some (Err KReadTimeout ''timeout'') else None, 1)"

definition example_gdm2 :: gdManager where
  "example_gdm2 = performHealthCheck example_probe (performHealthCheck example_probe (performHealthCheck example_probe example_gdm1))"

lemma example_gdm2_simps:
  "cf_original (gd_fallback example_gdm2) = C_LocalQuorum"
  "cf_levels (gd_fallback example_gdm2) = createFallbackLevels C_LocalQuorum"
  "cf_current (gd_fallback example_gdm2) = C_LocalOne"
  "cf_degradationTime (gd_fallback example_gdm2) = 0"
  "countHealthyNodes example_gdm2 = 2"
  "length (gd_Hosts example_gdm2) = 3"
  by code_simp+

lemma recovery_disables_fallback_witness:
  "getCurrentConsistency (attemptConsistencyRecovery (6 * minute) (\<lambda>c. True) example_gdm2) = C_Quorum \<and>
   fst (degradeConsistency hour (attemptConsistencyRecovery (6 * minute) (\<lambda>c. True) example_gdm2)) = C_Quorum"
  using recovery_disables_fallback [OF example_gdm2_simps(1,2), of "6 * minute" "\<lambda>c. True" _ hour] example_gdm2_simps
  by (simp add: time_Sub_def minute_def second_def)

end
