(* ===== verification/Scylla_State.thy ===== *)
theory Scylla_State
  imports Scylla_Degradation State_Interface
begin

text \<open>
  \<open>state/scyllastate/state_operations.go\<close>, \<open>batching_operations.go\<close> and the pin serialisation of
  \<open>scyllastate.go\<close>: the shared state kept in a ScyllaDB table. Every query runs through the manager of
  \<open>Scylla_Degradation\<close>. The database session and the JSON encoding are the record \<open>cql\<close>; what is expected
  of them is \<open>cql_ok\<close>. Logging and metrics are left out; the \<open>Has\<close> that \<open>Add\<close> and \<open>Rm\<close> make for them is
  kept, since it changes the manager. The lemmas say which of the promises of the \<open>State\<close> interface hold.
\<close>

section \<open>The database\<close>

text \<open>A row of \<open>pins_by_cid\<close>, as the statements bind it; the time to live is always null.\<close>

record pin_row =
  row_pin_type :: int
  row_rf :: int
  row_owner :: "peer_id list"
  row_tags :: "(string, string) gomap"
  row_metadata :: bytes
  row_created_at :: gotime
  row_updated_at :: gotime

type_synonym row_key = "int \<times> bytes"

datatype batch_entry = BatchInsert row_key pin_row | BatchDelete row_key

record SerializedPin =
  sp_Version :: int
  sp_Data :: bytes

text \<open>
  \<open>'d\<close> is the database as the session sees it. Scanning a single row gives the row or an error; a listing
  gives the rows scanned before it ended and the error of closing the iterator.
\<close>

record 'd cql =
  cq_insert :: "Consistency \<Rightarrow> row_key \<Rightarrow> pin_row \<Rightarrow> 'd \<Rightarrow> goerr option \<times> 'd"
  cq_select :: "Consistency \<Rightarrow> row_key \<Rightarrow> 'd \<Rightarrow> (goerr + pin_row) \<times> 'd"
  cq_exists :: "Consistency \<Rightarrow> row_key \<Rightarrow> 'd \<Rightarrow> (goerr + bytes) \<times> 'd"
  cq_delete :: "Consistency \<Rightarrow> row_key \<Rightarrow> 'd \<Rightarrow> goerr option \<times> 'd"
  cq_list :: "Consistency \<Rightarrow> 'd \<Rightarrow> (row_key \<times> pin_row) list \<times> goerr option \<times> 'd"
  cq_batch :: "Consistency \<Rightarrow> batch_entry list \<Rightarrow> 'd \<Rightarrow> goerr option \<times> 'd"
  cq_codec :: codec
  json_Marshal :: "SerializedPin \<Rightarrow> string + bytes"
  json_Unmarshal :: "bytes \<Rightarrow> string + SerializedPin"

record 'd scyllaState =
  sc_cql :: "'d cql"
  sc_db :: 'd
  sc_consistency :: string
  sc_manager :: "gdManager option"
  sc_closed :: bool
  sc_totalPins :: int

section \<open>Serialisation\<close>

definition scylla_serializePin :: "'d cql \<Rightarrow> Pin \<Rightarrow> string + bytes" where
  "scylla_serializePin q pin =
     (case ProtoMarshal (cq_codec q) pin of
        Inl err \<Rightarrow> Inl (''failed to marshal pin with protobuf: '' @ err)
      | Inr pinData \<Rightarrow>
          (case json_Marshal q \<lparr>sp_Version = 1, sp_Data = pinData\<rparr> of
             Inl err \<Rightarrow> Inl (''failed to marshal versioned pin data: '' @ err)
           | Inr versionedData \<Rightarrow> Inr versionedData))"

definition deserializePinV1 :: "'d cql \<Rightarrow> cid \<Rightarrow> bytes \<Rightarrow> string + Pin" where
  "deserializePinV1 q c data =
     (case ProtoUnmarshal (cq_codec q) zero_Pin data of
        Inl err \<Rightarrow> Inl (''failed to unmarshal pin protobuf data'')
      | Inr pin \<Rightarrow> Inr (if pin_Cid pin = CidUndef \<or> pin_Cid pin \<noteq> c then pin\<lparr>pin_Cid := c\<rparr> else pin))"

definition scylla_deserializePin :: "'d cql \<Rightarrow> cid \<Rightarrow> bytes \<Rightarrow> string + Pin" where
  "scylla_deserializePin q c data =
     (if data = [] then Inl ''empty pin data''
      else case json_Unmarshal q data of
             Inl err \<Rightarrow> deserializePinV1 q c data
           | Inr sp \<Rightarrow> if sp_Version sp = 1 then deserializePinV1 q c (sp_Data sp)
                       else Inl ''unsupported pin serialization version'')"

definition validateSerializedPin :: "'d cql \<Rightarrow> cid \<Rightarrow> bytes \<Rightarrow> string option" where
  "validateSerializedPin q c data = (case scylla_deserializePin q c data of Inl err \<Rightarrow> Some err | Inr pin \<Rightarrow> None)"

definition migrateSerializedPin :: "'d cql \<Rightarrow> cid \<Rightarrow> bytes \<Rightarrow> string + bytes" where
  "migrateSerializedPin q c oldData =
     (case scylla_deserializePin q c oldData of
        Inl err \<Rightarrow> Inl (''failed to deserialize pin for migration: '' @ err)
      | Inr pin \<Rightarrow>
          (case scylla_serializePin q pin of
             Inl err \<Rightarrow> Inl (''failed to serialize pin with new format: '' @ err)
           | Inr newData \<Rightarrow> Inr newData))"

definition mhPrefix :: "bytes \<Rightarrow> int" where
  "mhPrefix cidBin =
     (if length cidBin < 2 then 0
      else sint (push_bit 8 (of_nat (of_char (cidBin ! 0))) OR of_nat (of_char (cidBin ! 1)) :: 16 word))"

definition pin_key :: "'d cql \<Rightarrow> cid \<Rightarrow> row_key" where
  "pin_key q c = (let cidBytes = cid_Bytes (cq_codec q) c in (mhPrefix cidBytes, cidBytes))"

section \<open>The operations\<close>

text \<open>
  Running a query: through the manager, or once at the configured level when there is none. The query
  works on the database and on the variables \<open>v\<close> it captures. \<open>rt\<close> is what the retry loop finds outside.
\<close>

definition executeWithGracefulDegradation ::
  "retry_env \<Rightarrow> gotime \<Rightarrow> (Consistency \<Rightarrow> 'v \<times> 'd \<Rightarrow> goerr option \<times> 'v \<times> 'd) \<Rightarrow> 'v \<Rightarrow> 'd scyllaState \<Rightarrow>
     goerr option \<times> 'v \<times> 'd scyllaState" where
  "executeWithGracefulDegradation rt now queryFunc v st =
     (case sc_manager st of
        None \<Rightarrow>
          (case queryFunc (GetConsistency (sc_consistency st)) (v, sc_db st) of
             (err, v', d) \<Rightarrow> (err, v', st\<lparr>sc_db := d\<rparr>))
      | Some gdm \<Rightarrow>
          (case ExecuteWithDegradation rt now queryFunc gdm (v, sc_db st) of
             (err, gdm', v', d) \<Rightarrow> (err, v', st\<lparr>sc_db := d, sc_manager := Some gdm'\<rparr>)))"

definition closed_error :: state_error where
  "closed_error = StateError ''ScyllaState is closed''"

definition executeHasOperation :: "retry_env \<Rightarrow> gotime \<Rightarrow> cid \<Rightarrow> 'd scyllaState \<Rightarrow> (state_error + bool) \<times> 'd scyllaState" where
  "executeHasOperation rt now c st =
     (let q = sc_cql st in
      case executeWithGracefulDegradation rt now
             (\<lambda>level (foundCid, d). case cq_exists q level (pin_key q c) d of
                 (Inl err, d') \<Rightarrow> (Some err, foundCid, d')
               | (Inr bs, d') \<Rightarrow> (None, bs, d'))
             [] st of
        (Some err, foundCid, st') \<Rightarrow>
          (if err = gocql_ErrNotFound then Inr False
           else Inl (StateError (''failed to check pin existence: '' @ err_Error err)), st')
      | (None, foundCid, st') \<Rightarrow> (Inr True, st'))"

definition scylla_Has :: "retry_env \<Rightarrow> gotime \<Rightarrow> cid \<Rightarrow> 'd scyllaState \<Rightarrow> (state_error + bool) \<times> 'd scyllaState" where
  "scylla_Has rt now c st =
     (if sc_closed st then (Inl closed_error, st) else executeHasOperation rt now c st)"

definition executeGetOperation :: "retry_env \<Rightarrow> gotime \<Rightarrow> cid \<Rightarrow> 'd scyllaState \<Rightarrow> (state_error + Pin) \<times> 'd scyllaState" where
  "executeGetOperation rt now c st =
     (let q = sc_cql st in
      case executeWithGracefulDegradation rt now
             (\<lambda>level (pinData, d). case cq_select q level (pin_key q c) d of
                 (Inl err, d') \<Rightarrow> (Some err, pinData, d')
               | (Inr row, d') \<Rightarrow> (None, row_metadata row, d'))
             [] st of
        (Some err, pinData, st') \<Rightarrow>
          (Inl (if err = gocql_ErrNotFound then ErrNotFound
                else StateError (''failed to get pin: '' @ err_Error err)), st')
      | (None, pinData, st') \<Rightarrow>
          (case scylla_deserializePin q c pinData of
             Inl err \<Rightarrow> (Inl (StateError (''failed to deserialize pin: '' @ err)), st')
           | Inr pin \<Rightarrow> (Inr pin, st')))"

definition scylla_Get :: "retry_env \<Rightarrow> gotime \<Rightarrow> cid \<Rightarrow> 'd scyllaState \<Rightarrow> (state_error + Pin) \<times> 'd scyllaState" where
  "scylla_Get rt now c st =
     (if sc_closed st then (Inl closed_error, st) else executeGetOperation rt now c st)"

text \<open>The row that is bound; each call of the query reads the two times anew, \<open>tms n\<close> for the \<open>n\<close>-th call.\<close>

definition pin_to_row :: "Pin \<Rightarrow> bytes \<Rightarrow> gotime \<Rightarrow> gotime \<Rightarrow> pin_row" where
  "pin_to_row pin pinData created updated =
     \<lparr>row_pin_type = sint (pin_Type pin), row_rf = po_ReplicationFactorMin (pin_Options pin),
      row_owner = po_UserAllocations (pin_Options pin), row_tags = po_Metadata (pin_Options pin),
      row_metadata = pinData, row_created_at = created, row_updated_at = updated\<rparr>"

definition executeAddOperation ::
  "retry_env \<Rightarrow> gotime \<Rightarrow> (nat \<Rightarrow> gotime \<times> gotime) \<Rightarrow> Pin \<Rightarrow> 'd scyllaState \<Rightarrow> state_error option \<times> 'd scyllaState" where
  "executeAddOperation rt now tms pin st =
     (let q = sc_cql st in
      case scylla_serializePin q pin of
        Inl err \<Rightarrow> (Some (StateError (''failed to serialize pin: '' @ err)), st)
      | Inr pinData \<Rightarrow>
          (case executeWithGracefulDegradation rt now
                  (\<lambda>level (n, d). case tms n of
                      (created, updated) \<Rightarrow>
                        (case cq_insert q level (pin_key q (pin_Cid pin)) (pin_to_row pin pinData created updated) d of
                           (err, d') \<Rightarrow> (err, n + 1, d')))
                  0 st of
             (err, n, st') \<Rightarrow> (map_option (\<lambda>e. StateError (err_Error e)) err, st')))"

text \<open>\<open>Add\<close> and \<open>Rm\<close> first run \<open>Has\<close> for the metrics. \<open>clock\<close> gives the times and the environment of each query.\<close>

definition scylla_Add ::
  "(nat \<Rightarrow> retry_env \<times> gotime) \<Rightarrow> (nat \<Rightarrow> gotime \<times> gotime) \<Rightarrow> Pin \<Rightarrow> 'd scyllaState \<Rightarrow> state_error option \<times> 'd scyllaState" where
  "scylla_Add clock tms pin st =
     (if sc_closed st then (Some closed_error, st)
      else
        let st1 = snd (scylla_Has (fst (clock 0)) (snd (clock 0)) (pin_Cid pin) st)
        in executeAddOperation (fst (clock 1)) (snd (clock 1)) tms pin st1)"



text \<open>
  \<open>List\<close>. The rows of one scan, the pins sent appended to \<open>sent\<close>: \<open>done n\<close> and \<open>done_sending n\<close> say whether
  the context is done at the first and at the second \<open>select\<close> of the \<open>n\<close>-th row. A query that is tried
  again scans the table again and goes on sending.
\<close>

fun list_rows ::
  "'d cql \<Rightarrow> retry_env \<Rightarrow> (nat \<Rightarrow> bool) \<Rightarrow> (nat \<Rightarrow> bool) \<Rightarrow> nat \<Rightarrow> (row_key \<times> pin_row) list \<Rightarrow> Pin list \<Rightarrow> goerr option \<times> Pin list" where
  "list_rows q rt isDone isDoneSending n [] sent = (None, sent)"
| "list_rows q rt isDone isDoneSending n (((prefix, cidBin), row) # rows) sent =
     (if isDone n then (Some (re_ctxErr rt), sent)
      else case cid_Cast (cq_codec q) cidBin of
             Inl err \<Rightarrow> list_rows q rt isDone isDoneSending (n + 1) rows sent
           | Inr c \<Rightarrow>
               (case scylla_deserializePin q c (row_metadata row) of
                  Inl err \<Rightarrow> list_rows q rt isDone isDoneSending (n + 1) rows sent
                | Inr pin \<Rightarrow>
                    if isDoneSending n then (Some (re_ctxErr rt), sent)
                    else list_rows q rt isDone isDoneSending (n + 1) rows (sent @ [pin])))"

definition scylla_List ::
  "retry_env \<Rightarrow> gotime \<Rightarrow> (nat \<Rightarrow> nat \<Rightarrow> bool) \<Rightarrow> (nat \<Rightarrow> nat \<Rightarrow> bool) \<Rightarrow> 'd scyllaState \<Rightarrow>
     state_error option \<times> Pin list \<times> 'd scyllaState" where
  "scylla_List rt now isDone isDoneSending st =
     (if sc_closed st then (Some closed_error, [], st)
      else
        let q = sc_cql st in
        case executeWithGracefulDegradation rt now
               (\<lambda>level ((scan, sent), d). case cq_list q level d of
                   (rows, closeErr, d') \<Rightarrow>
                     (case list_rows q rt (isDone scan) (isDoneSending scan) 0 rows sent of
                        (Some err, sent') \<Rightarrow> (Some err, (scan + 1, sent'), d')
                      | (None, sent') \<Rightarrow> (closeErr, (scan + 1, sent'), d')))
               (0, []) st of
          (err, (scan, sent), st') \<Rightarrow> (map_option (\<lambda>e. StateError (err_Error e)) err, sent, st'))"

definition scylla_Close :: "'d scyllaState \<Rightarrow> 'd scyllaState" where
  "scylla_Close st = (if sc_closed st then st else st\<lparr>sc_closed := True, sc_manager := None\<rparr>)"

section \<open>The batching state\<close>

text \<open>\<open>sb_batch\<close> is \<open>None\<close> for a nil batch.\<close>

record 'd scyllaBatching =
  sb_state :: "'d scyllaState"
  sb_batch :: "batch_entry list option"
  sb_BatchSize :: int
  sb_BatchTimeout :: duration


definition batch_gone :: state_error where
  "batch_gone = StateError ''batch is nil or already committed''"

definition sbatch_Add :: "gotime \<Rightarrow> gotime \<Rightarrow> Pin \<Rightarrow> 'd scyllaBatching \<Rightarrow> state_error option \<times> 'd scyllaBatching" where
  "sbatch_Add now now' pin bs =
     (case sb_batch bs of
        None \<Rightarrow> (Some batch_gone, bs)
      | Some entries \<Rightarrow>
          let q = sc_cql (sb_state bs) in
          (case scylla_serializePin q pin of
             Inl err \<Rightarrow> (Some (StateError (''failed to serialize pin: '' @ err)), bs)
           | Inr pinData \<Rightarrow>
               (None, bs\<lparr>sb_batch := Some (entries @
                  [BatchInsert (pin_key q (pin_Cid pin)) (pin_to_row pin pinData now now')])\<rparr>)))"

definition sbatch_Rm :: "cid \<Rightarrow> 'd scyllaBatching \<Rightarrow> state_error option \<times> 'd scyllaBatching" where
  "sbatch_Rm c bs =
     (case sb_batch bs of
        None \<Rightarrow> (Some batch_gone, bs)
      | Some entries \<Rightarrow>
          (None, bs\<lparr>sb_batch := Some (entries @ [BatchDelete (pin_key (sc_cql (sb_state bs)) c)])\<rparr>))"

definition sbatch_Commit :: "retry_env \<Rightarrow> gotime \<Rightarrow> 'd scyllaBatching \<Rightarrow> state_error option \<times> 'd scyllaBatching" where
  "sbatch_Commit rt now bs =
     (case sb_batch bs of
        None \<Rightarrow> (Some batch_gone, bs)
      | Some entries \<Rightarrow>
          if entries = [] then (None, bs)
          else
            let q = sc_cql (sb_state bs) in
            (case executeWithGracefulDegradation rt now
                    (\<lambda>level (u, d). case cq_batch q level entries d of (err, d') \<Rightarrow> (err, u, d')) () (sb_state bs) of
               (err, u, st) \<Rightarrow>
                 let st' = (if err = None
                            then st\<lparr>sc_totalPins := wrap_int64 (sc_totalPins st + int (length entries) div 2)\<rparr> else st)
                 in (map_option (\<lambda>e. StateError (err_Error e)) err, bs\<lparr>sb_state := st', sb_batch := None\<rparr>)))"

definition sbatch_Close :: "'d scyllaBatching \<Rightarrow> 'd scyllaBatching" where
  "sbatch_Close bs = bs\<lparr>sb_batch := None\<rparr>"

definition GetBatchSize :: "'d scyllaBatching \<Rightarrow> int" where
  "GetBatchSize bs = (case sb_batch bs of None \<Rightarrow> 0 | Some entries \<Rightarrow> int (length entries))"

definition IsBatchFull :: "'d scyllaBatching \<Rightarrow> bool" where
  "IsBatchFull bs \<longleftrightarrow> sb_BatchSize bs \<le> GetBatchSize bs"

definition ShouldAutoCommit :: "gotime \<Rightarrow> gotime \<Rightarrow> 'd scyllaBatching \<Rightarrow> bool" where
  "ShouldAutoCommit now batchStartTime bs \<longleftrightarrow> IsBatchFull bs \<or> sb_BatchTimeout bs \<le> time_Sub now batchStartTime"

section \<open>Reasoning about a query that may be repeated\<close>

text \<open>
  A query that keeps \<open>I\<close> on every call, and establishes \<open>Q\<close> when it succeeds: then \<open>I\<close> holds after the
  whole execution, and \<open>Q\<close> when the execution succeeds. \<open>query_keeps\<close> is the premise.
\<close>

definition query_keeps :: "('s \<Rightarrow> bool) \<Rightarrow> ('s \<Rightarrow> bool) \<Rightarrow> 's query \<Rightarrow> bool" where
  "query_keeps I Q operation \<longleftrightarrow>
     (\<forall>level s e s'. operation level s = (e, s') \<longrightarrow> I s \<longrightarrow> I s' \<and> (e = None \<longrightarrow> Q s'))"

lemma query_keepsI:
  "(\<And>level s e s'. operation level s = (e, s') \<Longrightarrow> I s \<Longrightarrow> I s' \<and> (e = None \<longrightarrow> Q s')) \<Longrightarrow> query_keeps I Q operation"
  by (simp add: query_keeps_def)

lemma query_keepsD:
  "query_keeps I Q operation \<Longrightarrow> operation level s = (e, s') \<Longrightarrow> I s \<Longrightarrow> I s' \<and> (e = None \<longrightarrow> Q s')"
  unfolding query_keeps_def by blast

lemma retry_loop_keeps:
  assumes "retry_loop rp env (operation level) n a l r = (res, r')" "query_keeps I Q operation" "I (rn_state r)"
  shows "I (rn_state r') \<and> (res = None \<longrightarrow> Q (rn_state r'))"
  using assms(1,3)
proof (induction n arbitrary: a l r)
  case (Suc n)
  define r1 where "r1 = (if 0 < a
    then r\<lparr>rn_waits := rn_waits r @ [calculateDelayForError rp (re_rand env a) a l]\<rparr> else r)"
  have st: "rn_state r1 = rn_state r" by (simp add: r1_def)
  obtain e s' where op: "operation level (rn_state r) = (e, s')" by fastforce
  note k = query_keepsD [OF assms(2) op Suc.prems(2)]
  show ?case
  proof (cases "\<exists>err. retry_loop rp env (operation level) n (a + 1) (Some err) (r1\<lparr>rn_state := s'\<rparr>) = (res, r')")
    case True
    with Suc.IH k show ?thesis by fastforce
  next
    case False
    with Suc.prems k op st show ?thesis
      by (auto simp: r1_def [symmetric] Let_def split: if_splits option.splits)
  qed
qed auto

lemma handle_rest_keeps:
  assumes "handle_rest env now err operation g s = (res, g', s')" "query_keeps I Q operation" "I s"
  shows "I s' \<and> (res = None \<longrightarrow> Q s')"
proof -
  obtain b g1 where b: "detectNetworkPartition now (Some err) g = (b, g1)" by fastforce
  show ?thesis
  proof (cases b)
    case True
    obtain e1 s1 where 1: "operation C_One s = (e1, s1)" by fastforce
    obtain e2 s2 where 2: "operation C_Any s1 = (e2, s2)" by fastforce
    note k1 = query_keepsD [OF assms(2) 1 assms(3)]
    note k2 = query_keepsD [OF assms(2) 2]
    show ?thesis
      using assms(1) True b 1 2 k1 k2
      by (auto simp: handle_rest_def handleNetworkPartition_def split: option.splits)
  next
    case False
    obtain r where r: "ExecuteWithRetry (gd_retryPolicy g1) env (operation (getCurrentConsistency g1)) s = (res, r)"
        "s' = rn_state r"
      using assms(1) False b by (auto simp: handle_rest_def split: prod.splits)
    from retry_loop_keeps [OF r(1) [unfolded ExecuteWithRetry_def] assms(2)] assms(3) r(2)
    show ?thesis by (simp add: new_run_def)
  qed
qed

lemma ExecuteWithDegradation_keeps:
  assumes "ExecuteWithDegradation env now operation g s = (res, g', s')" "query_keeps I Q operation" "I s"
  shows "I s' \<and> (res = None \<longrightarrow> Q s')"
proof -
  obtain e s1 where op: "operation (getCurrentConsistency g) s = (e, s1)" by fastforce
  note k = query_keepsD [OF assms(2) op assms(3)]
  show ?thesis
  proof (cases e)
    case None
    with op k assms(1) show ?thesis by (simp add: ExecuteWithDegradation_def)
  next
    case (Some err)
    obtain g1 where "handleOperationError env now err operation g s1 = handle_rest env now err operation g1 s1"
      using handleOperationError_rest [of env now err operation g s1] by blast
    then have "handle_rest env now err operation g1 s1 = (res, g', s')"
      using assms(1) op Some by (simp add: ExecuteWithDegradation_def)
    from handle_rest_keeps [OF this assms(2)] k show ?thesis by blast
  qed
qed

text \<open>The same for a query of the state, with the parts of the state no query touches.\<close>

lemma scylla_execute:
  assumes "executeWithGracefulDegradation rt now queryFunc v st = (err, v', st')" "query_keeps I Q queryFunc" "I (v, sc_db st)"
  shows "I (v', sc_db st') \<and> (err = None \<longrightarrow> Q (v', sc_db st')) \<and>
    sc_cql st' = sc_cql st \<and> sc_closed st' = sc_closed st \<and> sc_totalPins st' = sc_totalPins st \<and>
    sc_consistency st' = sc_consistency st \<and> (sc_manager st' = None \<longleftrightarrow> sc_manager st = None)"
proof (cases "sc_manager st")
  case None
  obtain d where d: "queryFunc (GetConsistency (sc_consistency st)) (v, sc_db st) = (err, v', d)" "st' = st\<lparr>sc_db := d\<rparr>"
    using assms(1) None by (auto simp: executeWithGracefulDegradation_def split: prod.splits)
  from query_keepsD [OF assms(2) d(1) assms(3)] d(2) None show ?thesis by simp
next
  case (Some g)
  obtain g' d where d: "ExecuteWithDegradation rt now queryFunc g (v, sc_db st) = (err, g', v', d)"
      "st' = st\<lparr>sc_db := d, sc_manager := Some g'\<rparr>"
    using assms(1) Some by (auto simp: executeWithGracefulDegradation_def split: prod.splits)
  from ExecuteWithDegradation_keeps [OF d(1) assms(2,3)] d(2) Some show ?thesis by simp
qed

section \<open>A missing pin\<close>

lemma retry_loop_error:
  "retry_loop rp env operation n a l r = (Some e, r') \<Longrightarrow> e \<noteq> gocql_ErrNotFound"
proof (induction n arbitrary: a l r)
  case 0
  then show ?case by (auto simp: failed_after_def Let_def gocql_ErrNotFound_def split: option.splits)
next
  case (Suc n)
  then show ?case
    by (auto simp: Let_def gocql_ErrNotFound_def split: if_splits prod.splits option.splits)
qed

lemma ExecuteWithDegradation_error:
  assumes "ExecuteWithDegradation env now operation g s = (Some e, g', s')"
  shows "e \<noteq> gocql_ErrNotFound"
proof -
  obtain e1 s1 where op: "operation (getCurrentConsistency g) s = (Some e1, s1)"
    using assms by (auto simp: ExecuteWithDegradation_def split: prod.splits option.splits)
  obtain g1 where "handleOperationError env now e1 operation g s1 = handle_rest env now e1 operation g1 s1"
    using handleOperationError_rest [of env now e1 operation g s1] by blast
  then have h: "handle_rest env now e1 operation g1 s1 = (Some e, g', s')"
    using assms op by (simp add: ExecuteWithDegradation_def)
  obtain b g2 where b: "detectNetworkPartition now (Some e1) g1 = (b, g2)" by fastforce
  show ?thesis
  proof (cases b)
    case True
    with h b show ?thesis
      by (auto simp: handle_rest_def handleNetworkPartition_def gocql_ErrNotFound_def split: prod.splits option.splits)
  next
    case False
    with h b show ?thesis
      by (auto simp: handle_rest_def ExecuteWithRetry_def split: prod.splits dest: retry_loop_error)
  qed
qed

text \<open>
  C32. A missing pin is never reported as such. As long as the state has its manager, which it has from its
  construction until it is closed, \<open>Get\<close> never returns the error \<open>ErrNotFound\<close> that the \<open>State\<close> interface
  promises, and \<open>Has\<close> never answers false: the manager runs the failed query through the retry loop,
  which wraps the driver's not-found error, and the two operations compare with the bare error.
\<close>

theorem scylla_missing_pin_not_reported:
  assumes "sc_manager st = Some gdm"
  shows "fst (scylla_Get rt now c st) \<noteq> Inl ErrNotFound \<and> fst (scylla_Has rt now c st) \<noteq> Inr False"
  using assms
  by (auto simp: scylla_Get_def scylla_Has_def executeGetOperation_def executeHasOperation_def
      executeWithGracefulDegradation_def closed_error_def Let_def
      split: prod.splits option.splits sum.splits dest!: ExecuteWithDegradation_error)

section \<open>What is expected of the session\<close>

text \<open>
  The table as a map, \<open>rows d\<close>, for a keyspace with one replica, so that every consistency level reads what was
  written last. A write that fails may or may not have been applied; a batch is applied as a whole. A
  row that is not there is the driver's not-found error. Encoding as JSON can be undone.
\<close>

fun batch_apply :: "(row_key \<rightharpoonup> pin_row) \<Rightarrow> batch_entry \<Rightarrow> (row_key \<rightharpoonup> pin_row)" where
  "batch_apply m (BatchInsert k row) = m(k \<mapsto> row)"
| "batch_apply m (BatchDelete k) = m(k := None)"

definition insert_ok :: "'d cql \<Rightarrow> ('d \<Rightarrow> row_key \<rightharpoonup> pin_row) \<Rightarrow> bool" where
  "insert_ok q rows \<longleftrightarrow> (\<forall>l k row d e d'. cq_insert q l k row d = (e, d') \<longrightarrow>
     rows d' = (rows d)(k \<mapsto> row) \<or> e \<noteq> None \<and> rows d' = rows d)"

definition delete_ok :: "'d cql \<Rightarrow> ('d \<Rightarrow> row_key \<rightharpoonup> pin_row) \<Rightarrow> bool" where
  "delete_ok q rows \<longleftrightarrow> (\<forall>l k d e d'. cq_delete q l k d = (e, d') \<longrightarrow>
     rows d' = (rows d)(k := None) \<or> e \<noteq> None \<and> rows d' = rows d)"

definition select_ok :: "'d cql \<Rightarrow> ('d \<Rightarrow> row_key \<rightharpoonup> pin_row) \<Rightarrow> bool" where
  "select_ok q rows \<longleftrightarrow> (\<forall>l k d x d'. cq_select q l k d = (x, d') \<longrightarrow> rows d' = rows d \<and>
     (case x of Inl e \<Rightarrow> e = gocql_ErrNotFound \<longrightarrow> rows d k = None | Inr row \<Rightarrow> rows d k = Some row))"

definition exists_ok :: "'d cql \<Rightarrow> ('d \<Rightarrow> row_key \<rightharpoonup> pin_row) \<Rightarrow> bool" where
  "exists_ok q rows \<longleftrightarrow> (\<forall>l k d x d'. cq_exists q l k d = (x, d') \<longrightarrow> rows d' = rows d \<and>
     (case x of Inl e \<Rightarrow> e = gocql_ErrNotFound \<longrightarrow> rows d k = None | Inr bs \<Rightarrow> rows d k \<noteq> None))"

definition list_ok :: "'d cql \<Rightarrow> ('d \<Rightarrow> row_key \<rightharpoonup> pin_row) \<Rightarrow> bool" where
  "list_ok q rows \<longleftrightarrow> (\<forall>l d xs e d'. cq_list q l d = (xs, e, d') \<longrightarrow> rows d' = rows d \<and>
     (e = None \<longrightarrow> distinct (map fst xs) \<and> map_of xs = rows d))"

definition batch_ok :: "'d cql \<Rightarrow> ('d \<Rightarrow> row_key \<rightharpoonup> pin_row) \<Rightarrow> bool" where
  "batch_ok q rows \<longleftrightarrow> (\<forall>l es d e d'. cq_batch q l es d = (e, d') \<longrightarrow>
     rows d' = foldl batch_apply (rows d) es \<or> e \<noteq> None \<and> rows d' = rows d)"

definition cql_ok :: "'d cql \<Rightarrow> ('d \<Rightarrow> row_key \<rightharpoonup> pin_row) \<Rightarrow> bool" where
  "cql_ok q rows \<longleftrightarrow> insert_ok q rows \<and> delete_ok q rows \<and> select_ok q rows \<and> exists_ok q rows \<and>
     list_ok q rows \<and> batch_ok q rows \<and>
     (\<forall>sp bs. json_Marshal q sp = Inr bs \<longrightarrow> bs \<noteq> [] \<and> json_Unmarshal q bs = Inr sp) \<and>
     inj (cid_Bytes (cq_codec q))"

lemma cql_okD:
  assumes "cql_ok q rows"
  shows "insert_ok q rows" "delete_ok q rows" "select_ok q rows" "exists_ok q rows" "list_ok q rows" "batch_ok q rows"
    "json_Marshal q sp = Inr bs \<Longrightarrow> bs \<noteq> [] \<and> json_Unmarshal q bs = Inr sp"
    "pin_key q c = pin_key q c' \<longleftrightarrow> c = c'"
  using assms by (auto simp: cql_ok_def pin_key_def Let_def inj_eq)

lemma cql_insert:
  "insert_ok q rows \<Longrightarrow> cq_insert q l k row d = (e, d') \<Longrightarrow> rows d' = (rows d)(k \<mapsto> row) \<or> e \<noteq> None \<and> rows d' = rows d"
  unfolding insert_ok_def by blast


lemma cql_select:
  "select_ok q rows \<Longrightarrow> cq_select q l k d = (x, d') \<Longrightarrow> rows d' = rows d \<and> (\<forall>row. x = Inr row \<longrightarrow> rows d k = Some row)"
  unfolding select_ok_def by fastforce

lemma cql_exists:
  "exists_ok q rows \<Longrightarrow> cq_exists q l k d = (x, d') \<Longrightarrow> rows d' = rows d \<and> (\<forall>bs. x = Inr bs \<longrightarrow> rows d k \<noteq> None)"
  unfolding exists_ok_def by fastforce


section \<open>The pin set\<close>

definition row_pin :: "'d cql \<Rightarrow> cid \<Rightarrow> pin_row \<Rightarrow> Pin option" where
  "row_pin q c row = (case scylla_deserializePin q c (row_metadata row) of Inl err \<Rightarrow> None | Inr pin \<Rightarrow> Some pin)"

definition table_pins :: "'d cql \<Rightarrow> (row_key \<rightharpoonup> pin_row) \<Rightarrow> cid \<rightharpoonup> Pin" where
  "table_pins q m c = Option.bind (m (pin_key q c)) (row_pin q c)"

definition scylla_pins :: "('d \<Rightarrow> row_key \<rightharpoonup> pin_row) \<Rightarrow> 'd scyllaState \<Rightarrow> cid \<rightharpoonup> Pin" where
  "scylla_pins rows st = table_pins (sc_cql st) (rows (sc_db st))"

definition scylla_storable :: "'d cql \<Rightarrow> Pin \<Rightarrow> bool" where
  "scylla_storable q pin \<longleftrightarrow> codec_ok (cq_codec q) pin \<and> serialisable pin"

text \<open>The serialised form of a pin is read back as the pin in its stored form.\<close>

lemma scylla_roundtrip:
  assumes "cql_ok q rows" "scylla_storable q pin" "scylla_serializePin q pin = Inr data"
  shows "scylla_deserializePin q (pin_Cid pin) data = Inr (stored_pin zero_Pin pin)"
proof -
  obtain pd where pd: "ProtoMarshal (cq_codec q) pin = Inr pd" "json_Marshal q \<lparr>sp_Version = 1, sp_Data = pd\<rparr> = Inr data"
    using assms(3) by (auto simp: scylla_serializePin_def split: sum.splits)
  have "ProtoUnmarshal (cq_codec q) zero_Pin pd = Inr (stored_pin zero_Pin pin)"
    using assms(2) pd(1) by (intro ProtoMarshal_stored) (auto simp: scylla_storable_def)
  then have "deserializePinV1 q (pin_Cid pin) pd = Inr (stored_pin zero_Pin pin)"
    by (auto simp: deserializePinV1_def stored_pin_def Let_def)
  with cql_okD(7) [OF assms(1) pd(2)] show ?thesis by (auto simp: scylla_deserializePin_def)
qed

lemma table_pins_put:
  assumes "cql_ok q rows" "scylla_storable q pin" "scylla_serializePin q pin = Inr data"
  shows "table_pins q (m(pin_key q (pin_Cid pin) \<mapsto> pin_to_row pin data t t')) =
    (table_pins q m)(pin_Cid pin \<mapsto> stored_pin zero_Pin pin)"
  using cql_okD(8) [OF assms(1)] scylla_roundtrip [OF assms]
  by (auto simp: table_pins_def row_pin_def pin_to_row_def fun_eq_iff)


section \<open>Refinement\<close>

text \<open>A read leaves the table alone; \<open>Has\<close> in particular, which \<open>Add\<close> and \<open>Rm\<close> run first.\<close>

lemma scylla_Has_rows:
  assumes "cql_ok (sc_cql st) rows" "scylla_Has rt now c st = (res, st')"
  shows "rows (sc_db st') = rows (sc_db st) \<and> sc_cql st' = sc_cql st \<and> sc_closed st' = sc_closed st \<and>
    (res = Inr True \<longrightarrow> rows (sc_db st) (pin_key (sc_cql st) c) \<noteq> None)"
proof (cases "sc_closed st")
  case True
  with assms(2) show ?thesis by (auto simp: scylla_Has_def)
next
  case False
  let ?q = "sc_cql st"
  let ?f = "\<lambda>level (foundCid, d). case cq_exists ?q level (pin_key ?q c) d of
    (Inl err, d') \<Rightarrow> (Some err, foundCid, d') | (Inr bs, d') \<Rightarrow> (None, bs, d')"
  obtain err v st1 where ex: "executeWithGracefulDegradation rt now ?f [] st = (err, v, st1)" by (rule prod_cases3)
  have "query_keeps (\<lambda>s. rows (snd s) = rows (sc_db st)) (\<lambda>s. rows (sc_db st) (pin_key ?q c) \<noteq> None) ?f"
    by (rule query_keepsI) (auto split: prod.splits sum.splits dest!: cql_exists [OF cql_okD(4) [OF assms(1)]])
  from scylla_execute [OF ex this] show ?thesis
    using assms(2) False ex by (auto simp: scylla_Has_def executeHasOperation_def Let_def split: option.splits if_splits)
qed


lemma executeAdd_pins:
  assumes "cql_ok (sc_cql st) rows" "scylla_storable (sc_cql st) pin" "executeAddOperation rt now tms pin st = (e, st')"
  shows "sc_cql st' = sc_cql st \<and>
    (scylla_pins rows st' = (scylla_pins rows st)(pin_Cid pin \<mapsto> stored_pin zero_Pin pin) \<or>
     e \<noteq> None \<and> scylla_pins rows st' = scylla_pins rows st)"
proof (cases "scylla_serializePin (sc_cql st) pin")
  case (Inl err)
  with assms(3) show ?thesis by (auto simp: executeAddOperation_def)
next
  case (Inr data)
  let ?q = "sc_cql st"
  let ?new = "(scylla_pins rows st)(pin_Cid pin \<mapsto> stored_pin zero_Pin pin)"
  let ?f = "\<lambda>level (n, d). case tms n of (created, updated) \<Rightarrow>
    (case cq_insert ?q level (pin_key ?q (pin_Cid pin)) (pin_to_row pin data created updated) d of (err, d') \<Rightarrow> (err, n + 1, d'))"
  obtain err v st1 where ex: "executeWithGracefulDegradation rt now ?f 0 st = (err, v, st1)" by (rule prod_cases3)
  have new: "(table_pins ?q m)(pin_Cid pin \<mapsto> stored_pin zero_Pin pin) = ?new"
    if "table_pins ?q m \<in> {scylla_pins rows st, ?new}" for m
    using that by auto
  have "query_keeps (\<lambda>s. table_pins ?q (rows (snd s)) \<in> {scylla_pins rows st, ?new}) (\<lambda>s. table_pins ?q (rows (snd s)) = ?new) ?f"
    by (rule query_keepsI)
      (auto split: prod.splits dest!: cql_insert [OF cql_okD(1) [OF assms(1)]] simp: table_pins_put [OF assms(1,2) Inr] new)
  from scylla_execute [OF ex this] show ?thesis
    using assms(3) Inr ex by (auto simp: executeAddOperation_def scylla_pins_def)
qed


lemma scylla_step_pins:
  assumes "cql_ok (sc_cql st) rows" "scylla_Has rt now c st = (res, st')"
  shows "scylla_pins rows st' = scylla_pins rows st" "sc_cql st' = sc_cql st"
  using scylla_Has_rows [OF assms] by (simp_all add: scylla_pins_def)

lemma scylla_Add_pins:
  assumes "cql_ok (sc_cql st) rows" "scylla_storable (sc_cql st) pin" "scylla_Add clock tms pin st = (e, st')"
  shows "sc_cql st' = sc_cql st \<and>
    (scylla_pins rows st' = (scylla_pins rows st)(pin_Cid pin \<mapsto> stored_pin zero_Pin pin) \<or>
     e \<noteq> None \<and> scylla_pins rows st' = scylla_pins rows st)"
proof (cases "sc_closed st")
  case True
  with assms(3) show ?thesis by (auto simp: scylla_Add_def)
next
  case False
  obtain res st1 where has: "scylla_Has (fst (clock 0)) (snd (clock 0)) (pin_Cid pin) st = (res, st1)" by fastforce
  note keep = scylla_step_pins [OF assms(1) has]
  have "executeAddOperation (fst (clock 1)) (snd (clock 1)) tms pin st1 = (e, st')"
    using assms(3) False has by (simp add: scylla_Add_def Let_def)
  from executeAdd_pins [where rows = rows, OF _ _ this] assms(1,2) keep show ?thesis by simp
qed



text \<open>A query whose first call succeeds.\<close>

lemma scylla_execute_first:
  assumes "\<And>level. \<exists>v' d. queryFunc level (v, sc_db st) = (None, v', d)"
  shows "\<exists>v' d. executeWithGracefulDegradation rt now queryFunc v st = (None, v', st\<lparr>sc_db := d\<rparr>) \<and>
    (\<exists>level. queryFunc level (v, sc_db st) = (None, v', d))"
proof (cases "sc_manager st")
  case None
  obtain v' d where "queryFunc (GetConsistency (sc_consistency st)) (v, sc_db st) = (None, v', d)" using assms by blast
  with None show ?thesis by (auto simp: executeWithGracefulDegradation_def)
next
  case (Some g)
  obtain v' d where "queryFunc (getCurrentConsistency g) (v, sc_db st) = (None, v', d)" using assms by blast
  with Some show ?thesis
    by (intro exI [of _ v'] exI [of _ d]) (auto simp: executeWithGracefulDegradation_def ExecuteWithDegradation_def)
qed

lemma scylla_Get_present:
  assumes "cql_ok (sc_cql st) rows" "\<not> sc_closed st" "scylla_pins rows st c = Some pin"
    "\<And>l k d. rows d k \<noteq> None \<Longrightarrow> \<exists>row d'. cq_select (sc_cql st) l k d = (Inr row, d')"
  shows "fst (scylla_Get rt now c st) = Inr pin"
proof -
  let ?q = "sc_cql st"
  let ?f = "\<lambda>level (pinData, d). case cq_select ?q level (pin_key ?q c) d of
    (Inl err, d') \<Rightarrow> (Some err, pinData, d') | (Inr row, d') \<Rightarrow> (None, row_metadata row, d')"
  obtain row where row: "rows (sc_db st) (pin_key ?q c) = Some row" "row_pin ?q c row = Some pin"
    using assms(3) by (auto simp: scylla_pins_def table_pins_def bind_eq_Some_conv)
  have sel: "\<exists>d'. cq_select ?q level (pin_key ?q c) (sc_db st) = (Inr row, d')" for level
    using assms(4) [of "sc_db st" "pin_key ?q c" level] row(1) cql_select [OF cql_okD(3) [OF assms(1)]] by fastforce
  have "\<exists>v' d. ?f level ([], sc_db st) = (None, v', d)" for level using sel [of level] by auto
  from scylla_execute_first [of ?f "[]" st rt now, OF this] obtain v' d level where
    ex: "executeWithGracefulDegradation rt now ?f [] st = (None, v', st\<lparr>sc_db := d\<rparr>)" "?f level ([], sc_db st) = (None, v', d)"
    by blast
  then have "v' = row_metadata row" using sel [of level] by auto
  with ex(1) row(2) assms(2) show ?thesis
    by (auto simp: scylla_Get_def executeGetOperation_def row_pin_def split: sum.splits)
qed

text \<open>
  Storing and reading back. With a database that accepts writes and finds the rows it has, adding a
  pin that can be serialised to an open state succeeds, and reading it then gives the pin in its serialised form.
\<close>

theorem scylla_Add_Get:
  assumes "cql_ok (sc_cql st) rows" "scylla_storable (sc_cql st) pin" "\<not> sc_closed st"
    "scylla_serializePin (sc_cql st) pin = Inr data" "\<And>l k row d. fst (cq_insert (sc_cql st) l k row d) = None"
    "\<And>l k d. rows d k \<noteq> None \<Longrightarrow> \<exists>row d'. cq_select (sc_cql st) l k d = (Inr row, d')"
  shows "\<exists>st'. scylla_Add clock tms pin st = (None, st') \<and>
    fst (scylla_Get rt now (pin_Cid pin) st') = Inr (stored_pin zero_Pin pin)"
proof -
  let ?q = "sc_cql st"
  obtain res st1 where has: "scylla_Has (fst (clock 0)) (snd (clock 0)) (pin_Cid pin) st = (res, st1)" by fastforce
  note keep = scylla_Has_rows [OF assms(1) has]
  let ?f = "\<lambda>level (n, d). case tms n of (created, updated) \<Rightarrow>
    (case cq_insert ?q level (pin_key ?q (pin_Cid pin)) (pin_to_row pin data created updated) d of (err, d') \<Rightarrow> (err, n + 1, d'))"
  have "\<exists>v' d. ?f level (0, sc_db st1) = (None, v', d)" for level
    using assms(5) by (auto split: prod.splits) (metis fst_conv surj_pair)
  from scylla_execute_first [of ?f 0 st1 "fst (clock 1)" "snd (clock 1)", OF this] obtain n d where
    ex: "executeWithGracefulDegradation (fst (clock 1)) (snd (clock 1)) ?f 0 st1 = (None, n, st1\<lparr>sc_db := d\<rparr>)" by blast
  have add: "scylla_Add clock tms pin st = (None, st1\<lparr>sc_db := d\<rparr>)"
    using has keep assms(3,4) ex by (simp add: scylla_Add_def Let_def executeAddOperation_def)
  from scylla_Add_pins [OF assms(1,2) this]
  have "scylla_pins rows (st1\<lparr>sc_db := d\<rparr>) (pin_Cid pin) = Some (stored_pin zero_Pin pin)" by auto
  from scylla_Get_present [where rows = rows, OF _ _ this] keep assms(1,3,6) add show ?thesis by simp
qed

section \<open>Batches\<close>

text \<open>
  A batching state is good for one commit. Whatever the outcome of committing a non-empty batch, the
  operations in it are gone from the batching state, which from then on refuses to add, remove and commit.
  The \<open>BatchingState\<close> interface promises that a state can be used on, and the batch of a commit that failed
  is lost.
\<close>

theorem sbatch_Commit_once:
  assumes "sb_batch bs = Some entries" "entries \<noteq> []" "sbatch_Commit rt now bs = (e, bs')"
  shows "GetBatchSize bs' = 0 \<and> sbatch_Add t t' pin bs' = (Some batch_gone, bs') \<and>
    sbatch_Rm c bs' = (Some batch_gone, bs') \<and> sbatch_Commit rt' now' bs' = (Some batch_gone, bs')"
proof -
  have "sb_batch bs' = None" using assms by (auto simp: sbatch_Commit_def Let_def split: prod.splits)
  then show ?thesis by (simp add: GetBatchSize_def sbatch_Add_def sbatch_Rm_def sbatch_Commit_def)
qed








section \<open>Listing\<close>

definition row_to_pin :: "'d cql \<Rightarrow> row_key \<times> pin_row \<Rightarrow> Pin option" where
  "row_to_pin q x = (case cid_Cast (cq_codec q) (snd (fst x)) of Inl err \<Rightarrow> None | Inr c \<Rightarrow> row_pin q c (snd x))"

lemma list_rows_all:
  assumes "\<And>n. \<not> isDone n" "\<And>n. \<not> isDoneSending n"
  shows "list_rows q rt isDone isDoneSending n rows sent = (None, sent @ List.map_filter (row_to_pin q) rows)"
  using assms
  by (induction q rt isDone isDoneSending n rows sent rule: list_rows.induct)
    (auto simp: row_to_pin_def row_pin_def List.map_filter_simps split: sum.splits)

lemma row_pin_Cid: "row_pin q c row = Some pin \<Longrightarrow> pin_Cid pin = c"
  by (auto simp: row_pin_def scylla_deserializePin_def deserializePinV1_def split: sum.splits if_splits)

lemma set_map_filter_iff: "y \<in> set (List.map_filter f xs) \<longleftrightarrow> (\<exists>x \<in> set xs. f x = Some y)"
  by (induction xs) (auto simp: List.map_filter_simps split: option.splits)

text \<open>Rows of valid CIDs are listed once each.\<close>

definition row_valid :: "'d cql \<Rightarrow> row_key \<Rightarrow> bool" where
  "row_valid q k \<longleftrightarrow> (\<exists>c. k = pin_key q c \<and> cid_Cast (cq_codec q) (cid_Bytes (cq_codec q) c) = Inr c)"

lemma row_to_pin_valid:
  assumes "row_valid q (fst x)" "row_to_pin q x = Some pin"
  shows "fst x = pin_key q (pin_Cid pin) \<and> row_pin q (pin_Cid pin) (snd x) = Some pin"
  using assms row_pin_Cid [of q _ "snd x" pin] by (auto simp: row_valid_def row_to_pin_def pin_key_def Let_def)

lemma distinct_listed:
  assumes "distinct (map fst xs)" "\<forall>x \<in> set xs. row_valid q (fst x)"
  shows "distinct (map pin_Cid (List.map_filter (row_to_pin q) xs))"
  using assms
proof (induction xs)
  case (Cons x xs)
  show ?case
  proof (cases "row_to_pin q x")
    case None
    with Cons show ?thesis by (simp add: List.map_filter_simps)
  next
    case (Some pin)
    then have key: "fst x = pin_key q (pin_Cid pin)" using Cons.prems(2) row_to_pin_valid [of q x pin] by simp
    have "pin_Cid pin' \<noteq> pin_Cid pin" if pin': "pin' \<in> set (List.map_filter (row_to_pin q) xs)" for pin'
    proof
      assume eq: "pin_Cid pin' = pin_Cid pin"
      obtain y where y: "y \<in> set xs" "row_to_pin q y = Some pin'" using pin' by (auto simp: set_map_filter_iff)
      then have "fst y = pin_key q (pin_Cid pin')" using Cons.prems(2) row_to_pin_valid [of q y pin'] by simp
      with eq key y(1) Cons.prems(1) show False by (metis distinct.simps(2) image_eqI list.map(2) list.set_map)
    qed
    then have "pin_Cid pin \<notin> pin_Cid ` set (List.map_filter (row_to_pin q) xs)" by (metis imageE)
    with Some Cons show ?thesis by (simp add: List.map_filter_simps)
  qed
qed (simp add: List.map_filter_simps)

text \<open>
  Listing. When the rows of the table belong to valid CIDs, the first scan of the table succeeds and the
  context is not done, \<open>List\<close> sends every pin of the pin set exactly once, nothing else, and returns nil.
\<close>

theorem scylla_List_complete:
  assumes "cql_ok (sc_cql st) rows" "\<not> sc_closed st" "\<And>i n. \<not> isDone i n" "\<And>i n. \<not> isDoneSending i n"
    "\<And>k row. rows (sc_db st) k = Some row \<Longrightarrow> row_valid (sc_cql st) k"
    "\<And>l. \<exists>xs d. cq_list (sc_cql st) l (sc_db st) = (xs, None, d)"
  shows "\<exists>ps st'. scylla_List rt now isDone isDoneSending st = (None, ps, st') \<and> distinct (map pin_Cid ps) \<and>
    (\<forall>pin. pin \<in> set ps \<longleftrightarrow> scylla_pins rows st (pin_Cid pin) = Some pin)"
proof -
  let ?q = "sc_cql st"
  let ?f = "\<lambda>level ((scan, sent), d). case cq_list ?q level d of (rows, closeErr, d') \<Rightarrow>
    (case list_rows ?q rt (isDone scan) (isDoneSending scan) 0 rows sent of
       (Some err, sent') \<Rightarrow> (Some err, (scan + 1, sent'), d') | (None, sent') \<Rightarrow> (closeErr, (scan + 1, sent'), d'))"
  note all = list_rows_all [of "isDone i" "isDoneSending i" for i, OF assms(3,4)]
  have "\<exists>v' d. ?f level ((0, []), sc_db st) = (None, v', d)" for level
    using assms(6) [of level] by (auto simp: all)
  from scylla_execute_first [of ?f "(0, [])" st rt now, OF this] obtain v' d level where
    ex: "executeWithGracefulDegradation rt now ?f (0, []) st = (None, v', st\<lparr>sc_db := d\<rparr>)"
      "?f level ((0, []), sc_db st) = (None, v', d)" by blast
  obtain xs d' where xs: "cq_list ?q level (sc_db st) = (xs, None, d')" using assms(6) by blast
  let ?ps = "List.map_filter (row_to_pin ?q) xs"
  have v': "v' = (1, ?ps)" using ex(2) xs by (simp add: all)
  have table: "distinct (map fst xs)" "map_of xs = rows (sc_db st)"
    using cql_okD(5) [OF assms(1)] xs unfolding list_ok_def by blast+
  then have mem: "(k, row) \<in> set xs \<longleftrightarrow> rows (sc_db st) k = Some row" for k row
    by (metis map_of_eq_Some_iff)
  then have valid: "\<forall>x \<in> set xs. row_valid ?q (fst x)" using assms(5) by (metis prod.collapse)
  have "pin \<in> set ?ps \<longleftrightarrow> scylla_pins rows st (pin_Cid pin) = Some pin" for pin
  proof
    assume "pin \<in> set ?ps"
    then obtain x where x: "x \<in> set xs" "row_to_pin ?q x = Some pin" by (auto simp: set_map_filter_iff)
    then have "rows (sc_db st) (fst x) = Some (snd x)" using mem [of "fst x" "snd x"] by simp
    with x row_to_pin_valid [of ?q x pin] valid
    show "scylla_pins rows st (pin_Cid pin) = Some pin" by (simp add: scylla_pins_def table_pins_def)
  next
    assume "scylla_pins rows st (pin_Cid pin) = Some pin"
    then obtain row where row: "rows (sc_db st) (pin_key ?q (pin_Cid pin)) = Some row" "row_pin ?q (pin_Cid pin) row = Some pin"
      by (auto simp: scylla_pins_def table_pins_def bind_eq_Some_conv)
    obtain c where c: "pin_key ?q (pin_Cid pin) = pin_key ?q c" "cid_Cast (cq_codec ?q) (cid_Bytes (cq_codec ?q) c) = Inr c"
      using assms(5) [OF row(1)] by (auto simp: row_valid_def)
    then have "c = pin_Cid pin" using cql_okD(8) [OF assms(1)] by simp
    with row(2) c(2) have "row_to_pin ?q (pin_key ?q (pin_Cid pin), row) = Some pin"
      by (simp add: row_to_pin_def pin_key_def Let_def)
    moreover have "(pin_key ?q (pin_Cid pin), row) \<in> set xs" using row(1) mem by simp
    ultimately show "pin \<in> set ?ps" by (metis set_map_filter_iff)
  qed
  then show ?thesis
    using ex(1) v' assms(2) distinct_listed [OF table(1) valid] by (simp add: scylla_List_def)
qed

section \<open>An example\<close>

text \<open>A database with one replica that never fails, except that a given number of listings time out at their end.\<close>

definition example_scan :: "(row_key, pin_row) gomap \<Rightarrow> (row_key \<times> pin_row) list" where
  "example_scan m = map (\<lambda>k. (k, the (map_of m k))) (remdups (map fst m))"

fun example_batch_step :: "(row_key, pin_row) gomap \<Rightarrow> batch_entry \<Rightarrow> (row_key, pin_row) gomap" where
  "example_batch_step m (BatchInsert k row) = map_put k row m"
| "example_batch_step m (BatchDelete k) = map_delete k m"

definition example_cql :: "(nat \<times> (row_key, pin_row) gomap) cql" where
  "example_cql =
     \<lparr>cq_insert = (\<lambda>l k row (n, m). (None, n, map_put k row m)),
      cq_select = (\<lambda>l k (n, m). (case map_of m k of None \<Rightarrow> Inl gocql_ErrNotFound | Some row \<Rightarrow> Inr row, n, m)),
      cq_exists = (\<lambda>l k (n, m). (case map_of m k of None \<Rightarrow> Inl gocql_ErrNotFound | Some row \<Rightarrow> Inr (snd k), n, m)),
      cq_delete = (\<lambda>l k (n, m). (None, n, map_delete k m)),
      cq_list = (\<lambda>l (n, m). (example_scan m, if n = 0 then None else Some (Err KReadTimeout ''timeout''), n - 1, m)),
      cq_batch = (\<lambda>l es (n, m). (None, n, foldl example_batch_step m es)),
      cq_codec = example_codec,
      json_Marshal = (\<lambda>sp. if sp_Version sp = 1 then Inr (CHR ''1'' # sp_Data sp) else Inl ''version''),
      json_Unmarshal = (\<lambda>bs. case bs of [] \<Rightarrow> Inl ''empty'' | c # cs \<Rightarrow>
         if c = CHR ''1'' then Inr \<lparr>sp_Version = 1, sp_Data = cs\<rparr> else Inl ''not JSON'')\<rparr>"

definition example_rows :: "nat \<times> (row_key, pin_row) gomap \<Rightarrow> row_key \<rightharpoonup> pin_row" where
  "example_rows d = map_of (snd d)"

lemma example_scan_ok: "distinct (map fst (example_scan m))" "map_of (example_scan m) = map_of m"
proof -
  show "distinct (map fst (example_scan m))" by (simp add: example_scan_def o_def)
  have "map_of (example_scan m) k = map_of m k" for k
  proof (cases "map_of m k")
    case None
    then have "k \<notin> fst ` set m" by (simp add: map_of_eq_None_iff)
    with None show ?thesis by (simp add: example_scan_def map_of_map_restrict restrict_map_def)
  next
    case (Some row)
    then have "k \<in> set (remdups (map fst m))" by (metis domI dom_map_of_conv_image_fst image_set set_remdups)
    with Some show ?thesis by (simp add: example_scan_def map_of_map_restrict restrict_map_def)
  qed
  then show "map_of (example_scan m) = map_of m" by blast
qed

lemma example_batch_steps: "map_of (foldl example_batch_step m es) = foldl batch_apply (map_of m) es"
proof (induction es arbitrary: m)
  case (Cons x es)
  then show ?case by (cases x) (simp_all add: fun_upd_def)
qed simp

lemma example_cql_ok: "cql_ok example_cql example_rows"
  unfolding cql_ok_def insert_ok_def delete_ok_def select_ok_def exists_ok_def list_ok_def batch_ok_def
proof (intro conjI allI impI)
qed (auto simp: example_cql_def example_rows_def example_scan_ok example_batch_steps example_codec_def
       gocql_ErrNotFound_def split: option.splits if_splits)

definition example_scylla :: "nat \<Rightarrow> (nat \<times> (row_key, pin_row) gomap) scyllaState" where
  "example_scylla n =
     \<lparr>sc_cql = example_cql, sc_db = (n, []), sc_consistency = ''LOCAL_QUORUM'', sc_manager = Some example_gdm,
      sc_closed = False, sc_totalPins = 0\<rparr>"

definition example_clock :: "nat \<Rightarrow> retry_env \<times> gotime" where
  "example_clock n = (example_retry_env, 0)"

lemma example_serialized:
  "scylla_serializePin example_cql example_pin = Inr ''101''"
  "scylla_storable example_cql example_pin"
  using example_pin_ok by (simp_all add: scylla_serializePin_def scylla_storable_def example_cql_def)

lemma scylla_missing_pin_not_reported_witness:
  "sc_manager (example_scylla 0) = Some example_gdm \<and> scylla_pins example_rows (example_scylla 0) ''Qx'' = None \<and>
   fst (scylla_Get example_retry_env 0 ''Qx'' (example_scylla 0)) \<noteq> Inl ErrNotFound \<and>
   fst (scylla_Has example_retry_env 0 ''Qx'' (example_scylla 0)) \<noteq> Inr False"
proof -
  have m: "sc_manager (example_scylla 0) = Some example_gdm" by (simp add: example_scylla_def)
  from scylla_missing_pin_not_reported [OF this, of example_retry_env 0 "''Qx''"] m show ?thesis
    by (simp add: scylla_pins_def table_pins_def example_rows_def example_scylla_def)
qed

lemma scylla_Add_Get_witness:
  "\<exists>st'. scylla_Add example_clock (\<lambda>n. (0, 0)) example_pin (example_scylla 0) = (None, st') \<and>
     fst (scylla_Get example_retry_env 0 ''Qm'' st') = Inr (stored_pin zero_Pin example_pin)"
proof -
  have "\<exists>st'. scylla_Add example_clock (\<lambda>n. (0, 0)) example_pin (example_scylla 0) = (None, st') \<and>
     fst (scylla_Get example_retry_env 0 (pin_Cid example_pin) st') = Inr (stored_pin zero_Pin example_pin)"
  proof (rule scylla_Add_Get [where rows = example_rows])
    show "scylla_serializePin (sc_cql (example_scylla 0)) example_pin = Inr ''101''"
      using example_serialized by (simp add: example_scylla_def)
  qed (use example_cql_ok example_serialized in \<open>auto simp: example_scylla_def\<close>,
      auto simp: example_cql_def example_rows_def split: option.splits)
  then show ?thesis by (simp add: example_pin_def)
qed


definition example_sbatch :: "(nat \<times> (row_key, pin_row) gomap) scyllaBatching" where
  "example_sbatch = \<lparr>sb_state = example_scylla 0, sb_batch = Some [], sb_BatchSize = 10, sb_BatchTimeout = second\<rparr>"

definition example_sbatch1 :: "(nat \<times> (row_key, pin_row) gomap) scyllaBatching" where
  "example_sbatch1 = snd (sbatch_Add 0 0 example_pin example_sbatch)"

lemma example_sbatch_Add: "sbatch_Add 0 0 example_pin example_sbatch = (None, example_sbatch1)"
  "sb_batch example_sbatch1 = Some [BatchInsert (pin_key example_cql (pin_Cid example_pin)) (pin_to_row example_pin ''101'' 0 0)]"
  using example_serialized
  by (simp_all add: example_sbatch1_def sbatch_Add_def example_sbatch_def example_scylla_def Let_def)

lemma sbatch_Commit_once_witness:
  "\<exists>e bs'. sbatch_Commit example_retry_env 0 example_sbatch1 = (e, bs') \<and> GetBatchSize example_sbatch1 = 1 \<and>
     sbatch_Add 0 0 example_pin bs' = (Some batch_gone, bs')"
proof -
  obtain e bs' where c: "sbatch_Commit example_retry_env 0 example_sbatch1 = (e, bs')" by fastforce
  from sbatch_Commit_once [OF example_sbatch_Add(2) _ c, of 0 0 example_pin] c show ?thesis
    by (simp add: GetBatchSize_def example_sbatch_Add(2))
qed


definition example_scylla1 :: "nat \<Rightarrow> (nat \<times> (row_key, pin_row) gomap) scyllaState" where
  "example_scylla1 n =
     (example_scylla n)\<lparr>sc_db := (n, [(pin_key example_cql ''Qm'', pin_to_row example_pin ''101'' 0 0)])\<rparr>"

lemma scylla_List_complete_witness:
  "\<exists>ps st'. scylla_List example_retry_env 0 (\<lambda>i n. False) (\<lambda>i n. False) (example_scylla1 0) = (None, ps, st') \<and>
     distinct (map pin_Cid ps) \<and>
     (\<forall>pin. pin \<in> set ps \<longleftrightarrow> scylla_pins example_rows (example_scylla1 0) (pin_Cid pin) = Some pin)"
proof (rule scylla_List_complete)
  show "row_valid (sc_cql (example_scylla1 0)) k" if "example_rows (sc_db (example_scylla1 0)) k = Some row" for k row
    using that by (auto simp: example_scylla1_def example_scylla_def example_rows_def row_valid_def split: if_splits)
      (auto simp: example_cql_def example_codec_def intro!: exI [of _ "''Qm''"])
  show "\<exists>xs d. cq_list (sc_cql (example_scylla1 0)) l (sc_db (example_scylla1 0)) = (xs, None, d)" for l
    by (simp add: example_scylla1_def example_scylla_def example_cql_def)
qed (use example_cql_ok in \<open>auto simp: example_scylla1_def example_scylla_def\<close>)

text \<open>
  A listing that has to be repeated repeats pins. When the driver times out at the end of the first
  scan, the manager runs the query again, which sends the pins of the table a second time; \<open>List\<close> returns nil, and
  the receiver has got the one pin of the example twice.
\<close>

theorem scylla_List_repeats:
  "\<exists>st'. scylla_List example_retry_env 0 (\<lambda>i n. False) (\<lambda>i n. False) (example_scylla1 1) =
     (None, [stored_pin zero_Pin example_pin, stored_pin zero_Pin example_pin], st')"
proof -
  let ?r = "scylla_List example_retry_env 0 (\<lambda>i n. False) (\<lambda>i n. False) (example_scylla1 1)"
  have "fst ?r = None" "fst (snd ?r) = [stored_pin zero_Pin example_pin, stored_pin zero_Pin example_pin]"
    by code_simp+
  then show ?thesis by (metis prod.collapse)
qed

end
