(* ===== verification/Scylla_Cas.thy ===== *)
theory Scylla_Cas
  imports Scylla_Retry State_Interface
begin

text \<open>
  \<open>state/scyllastate/state_ops.go\<close>: the implementation of the ScyllaDB state that guards its writes with
  lightweight transactions, its tables of placements and expirations, and the export and import of the
  state. The database and the library conversions are the record \<open>lwt\<close>, with what is expected of them in
  \<open>lwt_ok\<close>. The lemmas give the form in which a pin is read back, the pin counter, what the
  condition on the time of the last update does to a pin that has been updated once, and which
  exports can be imported.
\<close>

section \<open>The database\<close>

text \<open>A row of \<open>pins_by_cid\<close> as this implementation binds and scans it; the owner is always empty.\<close>

record cas_row =
  cr_pin_type :: int
  cr_rf :: int
  cr_tags :: "string list"
  cr_ttl :: "int option"
  cr_metadata :: "(string, string) gomap"
  cr_created_at :: gotime
  cr_updated_at :: gotime

type_synonym cas_key = "int \<times> bytes"

text \<open>
  The conditional statements return whether they were applied. The time that an update is conditional on
  is its last argument. \<open>lw_peers_*\<close> and \<open>lw_ttl_*\<close> are the tables of peers and of expirations.
\<close>

record 'd lwt =
  lw_select :: "cas_key \<Rightarrow> 'd \<Rightarrow> (goerr + cas_row) \<times> 'd"
  lw_exists :: "cas_key \<Rightarrow> 'd \<Rightarrow> (goerr + bytes) \<times> 'd"
  lw_list :: "'d \<Rightarrow> (cas_key \<times> cas_row) list \<times> goerr option \<times> 'd"
  lw_insert_new :: "cas_key \<Rightarrow> cas_row \<Rightarrow> 'd \<Rightarrow> (goerr + bool) \<times> 'd"
  lw_update_if :: "cas_key \<Rightarrow> cas_row \<Rightarrow> gotime \<Rightarrow> 'd \<Rightarrow> (goerr + bool) \<times> 'd"
  lw_delete_if :: "cas_key \<Rightarrow> gotime \<Rightarrow> 'd \<Rightarrow> (goerr + bool) \<times> 'd"
  lw_placement_insert :: "cas_key \<Rightarrow> string list \<Rightarrow> string list \<Rightarrow> gotime \<Rightarrow> 'd \<Rightarrow> goerr option \<times> 'd"
  lw_placement_select :: "cas_key \<Rightarrow> 'd \<Rightarrow> (goerr + string list \<times> string list) \<times> 'd"
  lw_placement_delete :: "cas_key \<Rightarrow> 'd \<Rightarrow> goerr option \<times> 'd"
  lw_peers_delete :: "string \<Rightarrow> cas_key \<Rightarrow> 'd \<Rightarrow> goerr option \<times> 'd"
  lw_ttl_insert :: "gotime \<Rightarrow> bytes \<Rightarrow> gotime \<Rightarrow> 'd \<Rightarrow> goerr option \<times> 'd"
  lw_ttl_delete :: "gotime \<Rightarrow> gotime \<Rightarrow> bytes \<Rightarrow> 'd \<Rightarrow> goerr option \<times> 'd"
  lw_codec :: codec
  lw_ma_String :: "multiaddr \<Rightarrow> string"
  lw_NewMultiaddr :: "string \<Rightarrow> string + multiaddr"
  lw_cid_String :: "cid \<Rightarrow> string"
  lw_DecodeCid :: "string \<Rightarrow> string + cid"

record 'd casState =
  ca_lwt :: "'d lwt"
  ca_db :: 'd
  ca_closed :: bool
  ca_totalPins :: int

section \<open>Conversions\<close>

text \<open>\<open>utils.go\<close>.\<close>

definition mh_prefix :: "bytes \<Rightarrow> int" where
  "mh_prefix cidBin =
     (if length cidBin < 2 then 0
      else sint (push_bit 8 (of_nat (of_char (cidBin ! 0))) OR of_nat (of_char (cidBin ! 1)) :: 16 word))"

definition cidToPartitionedKey :: "bytes \<Rightarrow> cas_key" where
  "cidToPartitionedKey cidBin = (mh_prefix cidBin, cidBin)"

definition cas_key_of :: "'d lwt \<Rightarrow> cid \<Rightarrow> cas_key" where
  "cas_key_of q c = cidToPartitionedKey (cid_Bytes (lw_codec q) c)"

definition millisecond :: duration where
  "millisecond = 1000000"

definition time_UnixMilli :: "gotime \<Rightarrow> int" where
  "time_UnixMilli t = t div millisecond"

definition time_of_UnixMilli :: "int \<Rightarrow> gotime" where
  "time_of_UnixMilli ms = ms * millisecond"

text \<open>\<open>Time.Truncate(time.Hour)\<close> counts hours from the zero time.\<close>

definition truncate_hour :: "gotime \<Rightarrow> gotime" where
  "truncate_hour t = t - (t - zero_time) mod hour"

text \<open>The row that \<open>Add\<close> binds, and the pin that \<open>Get\<close> and \<open>List\<close> build from a row.\<close>

definition cas_metadata :: "'d lwt \<Rightarrow> Pin \<Rightarrow> (string, string) gomap" where
  "cas_metadata q pin =
     (let m = (if po_Name (pin_Options pin) \<noteq> [] then map_put ''name'' (po_Name (pin_Options pin)) [] else [])
      in case pin_Reference pin of None \<Rightarrow> m | Some r \<Rightarrow> map_put ''reference'' (lw_cid_String q r) m)"

definition cas_ttl :: "Pin \<Rightarrow> int option" where
  "cas_ttl pin =
     (if time_IsZero (po_ExpireAt (pin_Options pin)) then None else Some (time_UnixMilli (po_ExpireAt (pin_Options pin))))"

definition cas_bind :: "'d lwt \<Rightarrow> Pin \<Rightarrow> gotime \<Rightarrow> cas_row" where
  "cas_bind q pin now =
     \<lparr>cr_pin_type = wrap_uint8 (uint (pin_Type pin)), cr_rf = wrap_uint8 (pin_rmin pin),
      cr_tags = map (lw_ma_String q) (po_Origins (pin_Options pin)), cr_ttl = cas_ttl pin,
      cr_metadata = cas_metadata q pin, cr_created_at = now, cr_updated_at = now\<rparr>"

definition row_to_Pin :: "'d lwt \<Rightarrow> cid \<Rightarrow> cas_row \<Rightarrow> Pin" where
  "row_to_Pin q c row =
     zero_Pin\<lparr>pin_Cid := c, pin_Type := of_int (cr_pin_type row), pin_MaxDepth := -1, pin_Timestamp := cr_created_at row,
       pin_Reference := (case map_of (cr_metadata row) ''reference'' of
           None \<Rightarrow> None
         | Some ref \<Rightarrow> (case lw_DecodeCid q ref of Inl err \<Rightarrow> None | Inr refCid \<Rightarrow> Some refCid)),
       pin_Options := zero_PinOptions
         \<lparr>po_ReplicationFactorMin := cr_rf row, po_ReplicationFactorMax := cr_rf row,
          po_ExpireAt := (case cr_ttl row of None \<Rightarrow> zero_time | Some ttl \<Rightarrow> time_of_UnixMilli ttl),
          po_Origins := List.map_filter (\<lambda>tag. case lw_NewMultiaddr q tag of Inl err \<Rightarrow> None | Inr a \<Rightarrow> Some a) (cr_tags row),
          po_Name := (case map_of (cr_metadata row) ''name'' of None \<Rightarrow> [] | Some name \<Rightarrow> name)\<rparr>\<rparr>"

section \<open>The operations\<close>

definition cas_closed :: state_error where
  "cas_closed = StateError ''ScyllaState is closed''"

definition cas_Get :: "cid \<Rightarrow> 'd casState \<Rightarrow> (state_error + Pin) \<times> 'd casState" where
  "cas_Get c st =
     (if ca_closed st then (Inl cas_closed, st)
      else
        let q = ca_lwt st in
        case lw_select q (cas_key_of q c) (ca_db st) of
          (Inl err, d) \<Rightarrow>
            (Inl (if err = gocql_ErrNotFound then ErrNotFound else StateError (''failed to get pin: '' @ err_Error err)),
             st\<lparr>ca_db := d\<rparr>)
        | (Inr row, d) \<Rightarrow> (Inr (row_to_Pin q c row), st\<lparr>ca_db := d\<rparr>))"

definition cas_Has :: "cid \<Rightarrow> 'd casState \<Rightarrow> (state_error + bool) \<times> 'd casState" where
  "cas_Has c st =
     (if ca_closed st then (Inl cas_closed, st)
      else
        let q = ca_lwt st in
        case lw_exists q (cas_key_of q c) (ca_db st) of
          (Inl err, d) \<Rightarrow>
            (if err = gocql_ErrNotFound then Inr False else Inl (StateError (''failed to check pin existence: '' @ err_Error err)),
             st\<lparr>ca_db := d\<rparr>)
        | (Inr existingCid, d) \<Rightarrow> (Inr True, st\<lparr>ca_db := d\<rparr>))"

text \<open>The context is found done before the \<open>n\<close>-th pin is sent when \<open>isDone n\<close>.\<close>

fun cas_list_rows ::
  "'d lwt \<Rightarrow> (nat \<Rightarrow> bool) \<Rightarrow> string \<Rightarrow> nat \<Rightarrow> (cas_key \<times> cas_row) list \<Rightarrow> state_error option \<times> Pin list" where
  "cas_list_rows q isDone ctxErr n [] = (None, [])"
| "cas_list_rows q isDone ctxErr n (((prefix, cidBin), row) # rows) =
     (case cid_Cast (lw_codec q) cidBin of
        Inl err \<Rightarrow> cas_list_rows q isDone ctxErr (n + 1) rows
      | Inr c \<Rightarrow>
          if isDone n then (Some (StateError ctxErr), [])
          else case cas_list_rows q isDone ctxErr (n + 1) rows of (err, ps) \<Rightarrow> (err, row_to_Pin q c row # ps))"

definition cas_List :: "(nat \<Rightarrow> bool) \<Rightarrow> string \<Rightarrow> 'd casState \<Rightarrow> state_error option \<times> Pin list \<times> 'd casState" where
  "cas_List isDone ctxErr st =
     (if ca_closed st then (Some cas_closed, [], st)
      else
        case lw_list (ca_lwt st) (ca_db st) of
          (rows, closeErr, d) \<Rightarrow>
            (case cas_list_rows (ca_lwt st) isDone ctxErr 0 rows of
               (Some err, ps) \<Rightarrow> (Some err, ps, st\<lparr>ca_db := d\<rparr>)
             | (None, ps) \<Rightarrow>
                 (map_option (\<lambda>e. StateError (''failed to iterate pins: '' @ err_Error e)) closeErr, ps, st\<lparr>ca_db := d\<rparr>)))"

definition initializePlacement :: "'d lwt \<Rightarrow> cas_key \<Rightarrow> gotime \<Rightarrow> 'd \<Rightarrow> goerr option \<times> 'd" where
  "initializePlacement q k timestamp d =
     (case lw_placement_insert q k [] [] timestamp d of
        (None, d') \<Rightarrow> (None, d')
      | (Some err, d') \<Rightarrow> (Some (Wrapped ''failed to initialize placement'' err), d'))"

definition cleanupPlacement :: "'d lwt \<Rightarrow> cas_key \<Rightarrow> 'd \<Rightarrow> goerr option \<times> 'd" where
  "cleanupPlacement q k d =
     (case lw_placement_delete q k d of
        (None, d') \<Rightarrow> (None, d')
      | (Some err, d') \<Rightarrow> (Some (Wrapped ''failed to delete placement'' err), d'))"

definition getPeersForPin :: "'d lwt \<Rightarrow> cas_key \<Rightarrow> 'd \<Rightarrow> (goerr + string list) \<times> 'd" where
  "getPeersForPin q k d =
     (case lw_placement_select q k d of
        (Inl err, d') \<Rightarrow>
          (if err = gocql_ErrNotFound then Inr []
           else Inl (Wrapped ''failed to get placement for peer cleanup'' err), d')
      | (Inr (desired, actual), d') \<Rightarrow>
          (Inr (map fst (foldl (\<lambda>m peer. map_put peer True m) [] (desired @ actual))), d'))"

definition cleanupPeerPins :: "'d lwt \<Rightarrow> cas_key \<Rightarrow> 'd \<Rightarrow> goerr option \<times> 'd" where
  "cleanupPeerPins q k d =
     (case getPeersForPin q k d of
        (Inl err, d') \<Rightarrow> (Some (Wrapped ''failed to get peers for pin cleanup'' err), d')
      | (Inr peers, d') \<Rightarrow> (None, foldl (\<lambda>d peerID. snd (lw_peers_delete q peerID k d)) d' peers))"

definition addToTTLQueue :: "'d lwt \<Rightarrow> bytes \<Rightarrow> int \<Rightarrow> 'd \<Rightarrow> goerr option \<times> 'd" where
  "addToTTLQueue q cidBin ttlMillis d =
     (let ttlTime = time_of_UnixMilli ttlMillis; ttlBucket = truncate_hour ttlTime
      in case lw_ttl_insert q ttlBucket cidBin ttlTime d of
           (None, d') \<Rightarrow> (None, d')
         | (Some err, d') \<Rightarrow> (Some (Wrapped ''failed to add to TTL queue'' err), d'))"

definition removeFromTTLQueue :: "'d lwt \<Rightarrow> bytes \<Rightarrow> int \<Rightarrow> 'd \<Rightarrow> goerr option \<times> 'd" where
  "removeFromTTLQueue q cidBin ttlMillis d =
     (let ttlTime = time_of_UnixMilli ttlMillis; ttlBucket = truncate_hour ttlTime
      in case lw_ttl_delete q ttlBucket ttlTime cidBin d of
           (None, d') \<Rightarrow> (None, d')
         | (Some err, d') \<Rightarrow> (Some (Wrapped ''failed to remove from TTL queue'' err), d'))"

definition addPinCount :: "int \<Rightarrow> 'd casState \<Rightarrow> 'd casState" where
  "addPinCount delta st = st\<lparr>ca_totalPins := wrap_int64 (ca_totalPins st + delta)\<rparr>"

text \<open>The conditional write of \<open>Add\<close>: the error that ends the operation, if any.\<close>

definition cas_write :: "Pin \<Rightarrow> gotime \<Rightarrow> (state_error + Pin) \<Rightarrow> 'd lwt \<Rightarrow> 'd \<Rightarrow> state_error option \<times> 'd" where
  "cas_write pin now existing q d =
     (case existing of
        Inr existingPin \<Rightarrow>
          (case lw_update_if q (cas_key_of q (pin_Cid pin)) (cas_bind q pin now) (pin_Timestamp existingPin) d of
             (Inl err, d') \<Rightarrow> (Some (StateError (''failed to execute conditional update: '' @ err_Error err)), d')
           | (Inr applied, d') \<Rightarrow>
               (if applied then None else Some (StateError ''pin update failed due to concurrent modification''), d'))
      | Inl err \<Rightarrow>
          (case lw_insert_new q (cas_key_of q (pin_Cid pin)) (cas_bind q pin now) d of
             (Inl err, d') \<Rightarrow> (Some (StateError (''failed to execute conditional insert: '' @ err_Error err)), d')
           | (Inr applied, d') \<Rightarrow>
               (if applied then None else Some (StateError ''pin creation failed due to concurrent creation''), d')))"

text \<open>Failures after the write are only logged.\<close>

definition cas_Add :: "gotime \<Rightarrow> Pin \<Rightarrow> 'd casState \<Rightarrow> state_error option \<times> 'd casState" where
  "cas_Add now pin st =
     (if ca_closed st then (Some cas_closed, st)
      else
        let q = ca_lwt st; k = cas_key_of q (pin_Cid pin) in
        case cas_Get (pin_Cid pin) st of
          (existing, st1) \<Rightarrow>
            (case cas_write pin now existing q (ca_db st1) of
               (Some err, d) \<Rightarrow> (Some err, st1\<lparr>ca_db := d\<rparr>)
             | (None, d) \<Rightarrow>
                 let d1 = snd (initializePlacement q k now d);
                     d2 = (case cas_ttl pin of None \<Rightarrow> d1 | Some ttl \<Rightarrow> snd (addToTTLQueue q (snd k) ttl d1));
                     st2 = st1\<lparr>ca_db := d2\<rparr>
                 in (None, case existing of Inr existingPin \<Rightarrow> st2 | Inl err \<Rightarrow> addPinCount 1 st2)))"

definition cas_Rm :: "cid \<Rightarrow> 'd casState \<Rightarrow> state_error option \<times> 'd casState" where
  "cas_Rm c st =
     (if ca_closed st then (Some cas_closed, st)
      else
        let q = ca_lwt st; k = cas_key_of q c in
        case cas_Get c st of
          (Inl ErrNotFound, st1) \<Rightarrow> (Some ErrNotFound, st1)
        | (Inl (StateError err), st1) \<Rightarrow> (Some (StateError (''failed to get pin details for deletion: '' @ err)), st1)
        | (Inr existingPin, st1) \<Rightarrow>
            (case lw_delete_if q k (pin_Timestamp existingPin) (ca_db st1) of
               (Inl err, d) \<Rightarrow>
                 (Some (StateError (''failed to execute conditional delete: '' @ err_Error err)), st1\<lparr>ca_db := d\<rparr>)
             | (Inr applied, d) \<Rightarrow>
                 if \<not> applied
                 then (Some (StateError ''pin deletion failed due to concurrent modification''), st1\<lparr>ca_db := d\<rparr>)
                 else
                   let d1 = snd (cleanupPlacement q k d);
                       d2 = snd (cleanupPeerPins q k d1);
                       d3 = (if time_IsZero (po_ExpireAt (pin_Options existingPin)) then d2
                             else snd (removeFromTTLQueue q (snd k) (time_UnixMilli (po_ExpireAt (pin_Options existingPin))) d2))
                   in (None, addPinCount (-1) (st1\<lparr>ca_db := d3\<rparr>))))"

section \<open>What is expected of the database\<close>

text \<open>A \<open>timestamp\<close> column has milliseconds, and a \<open>set\<close> column is read back sorted and without duplicates.\<close>

definition ts_ms :: "gotime \<Rightarrow> gotime" where
  "ts_ms t = time_of_UnixMilli (time_UnixMilli t)"

definition store_row :: "cas_row \<Rightarrow> cas_row" where
  "store_row row =
     row\<lparr>cr_tags := sorted_list_of_set (set (cr_tags row)), cr_created_at := ts_ms (cr_created_at row),
         cr_updated_at := ts_ms (cr_updated_at row)\<rparr>"

text \<open>
  A conditional statement that reports that it was applied found its condition true and has taken effect; one
  that reports that it was not found it false and has not; one that fails may have taken effect if its condition
  was true. An update leaves the time of creation alone.
\<close>

definition cond_ok :: "bool \<Rightarrow> 'm \<Rightarrow> 'm \<Rightarrow> goerr + bool \<Rightarrow> 'm \<Rightarrow> bool" where
  "cond_ok cond old new res m \<longleftrightarrow>
     (case res of
        Inr True \<Rightarrow> cond \<and> m = new
      | Inr False \<Rightarrow> \<not> cond \<and> m = old
      | Inl err \<Rightarrow> m = old \<or> cond \<and> m = new)"

definition updated_at :: "(cas_key \<rightharpoonup> cas_row) \<Rightarrow> cas_key \<Rightarrow> gotime \<Rightarrow> bool" where
  "updated_at m k t \<longleftrightarrow> (case m k of None \<Rightarrow> False | Some row \<Rightarrow> cr_updated_at row = ts_ms t)"

definition update_row :: "cas_key \<Rightarrow> cas_row \<Rightarrow> (cas_key \<rightharpoonup> cas_row) \<Rightarrow> (cas_key \<rightharpoonup> cas_row)" where
  "update_row k row m =
     (case m k of None \<Rightarrow> m | Some old \<Rightarrow> m(k \<mapsto> (store_row row)\<lparr>cr_created_at := cr_created_at old\<rparr>))"

definition cas_writes_ok :: "'d lwt \<Rightarrow> ('d \<Rightarrow> cas_key \<rightharpoonup> cas_row) \<Rightarrow> bool" where
  "cas_writes_ok q rows \<longleftrightarrow>
     (\<forall>k row d x d'. lw_insert_new q k row d = (x, d') \<longrightarrow>
        cond_ok (rows d k = None) (rows d) ((rows d)(k \<mapsto> store_row row)) x (rows d')) \<and>
     (\<forall>k row t d x d'. lw_update_if q k row t d = (x, d') \<longrightarrow>
        cond_ok (updated_at (rows d) k t) (rows d) (update_row k row (rows d)) x (rows d')) \<and>
     (\<forall>k t d x d'. lw_delete_if q k t d = (x, d') \<longrightarrow>
        cond_ok (updated_at (rows d) k t) (rows d) ((rows d)(k := None)) x (rows d'))"

definition cas_reads_ok :: "'d lwt \<Rightarrow> ('d \<Rightarrow> cas_key \<rightharpoonup> cas_row) \<Rightarrow> bool" where
  "cas_reads_ok q rows \<longleftrightarrow>
     (\<forall>k d x d'. lw_select q k d = (x, d') \<longrightarrow> rows d' = rows d \<and>
        (case x of Inl e \<Rightarrow> e = gocql_ErrNotFound \<longrightarrow> rows d k = None | Inr row \<Rightarrow> rows d k = Some row))"

definition cas_others_ok :: "'d lwt \<Rightarrow> ('d \<Rightarrow> cas_key \<rightharpoonup> cas_row) \<Rightarrow> bool" where
  "cas_others_ok q rows \<longleftrightarrow>
     (\<forall>k xs ys t d. rows (snd (lw_placement_insert q k xs ys t d)) = rows d) \<and>
     (\<forall>k d. rows (snd (lw_placement_select q k d)) = rows d) \<and>
     (\<forall>k d. rows (snd (lw_placement_delete q k d)) = rows d) \<and>
     (\<forall>p k d. rows (snd (lw_peers_delete q p k d)) = rows d) \<and>
     (\<forall>b c t d. rows (snd (lw_ttl_insert q b c t d)) = rows d) \<and>
     (\<forall>b t c d. rows (snd (lw_ttl_delete q b t c d)) = rows d)"

definition lwt_ok :: "'d lwt \<Rightarrow> ('d \<Rightarrow> cas_key \<rightharpoonup> cas_row) \<Rightarrow> bool" where
  "lwt_ok q rows \<longleftrightarrow> cas_writes_ok q rows \<and> cas_reads_ok q rows \<and> cas_others_ok q rows \<and> inj (cid_Bytes (lw_codec q))"

lemma ts_ms_idem [simp]: "ts_ms (ts_ms t) = ts_ms t"
  by (simp add: ts_ms_def time_of_UnixMilli_def time_UnixMilli_def millisecond_def)

lemma lwt_okD:
  assumes "lwt_ok q rows"
  shows "lw_insert_new q k row d = (x, d') \<Longrightarrow>
      cond_ok (rows d k = None) (rows d) ((rows d)(k \<mapsto> store_row row)) x (rows d')"
    "lw_update_if q k row t d = (x, d') \<Longrightarrow>
      cond_ok (updated_at (rows d) k t) (rows d) (update_row k row (rows d)) x (rows d')"
    "lw_delete_if q k t d = (x, d') \<Longrightarrow>
      cond_ok (updated_at (rows d) k t) (rows d) ((rows d)(k := None)) x (rows d')"
    "cas_key_of q c = cas_key_of q c' \<longleftrightarrow> c = c'"
proof -
  have w: "cas_writes_ok q rows" and i: "inj (cid_Bytes (lw_codec q))" using assms by (simp_all add: lwt_ok_def)
  note w = w [unfolded cas_writes_ok_def]
  show "lw_insert_new q k row d = (x, d') \<Longrightarrow>
      cond_ok (rows d k = None) (rows d) ((rows d)(k \<mapsto> store_row row)) x (rows d')"
    by (rule w [THEN conjunct1, rule_format])
  show "lw_update_if q k row t d = (x, d') \<Longrightarrow>
      cond_ok (updated_at (rows d) k t) (rows d) (update_row k row (rows d)) x (rows d')"
    by (rule w [THEN conjunct2, THEN conjunct1, rule_format])
  show "lw_delete_if q k t d = (x, d') \<Longrightarrow>
      cond_ok (updated_at (rows d) k t) (rows d) ((rows d)(k := None)) x (rows d')"
    by (rule w [THEN conjunct2, THEN conjunct2, rule_format])
  show "cas_key_of q c = cas_key_of q c' \<longleftrightarrow> c = c'"
    using i by (auto simp: cas_key_of_def cidToPartitionedKey_def inj_eq)
qed

lemma lwt_rows:
  assumes "lwt_ok q rows"
  shows "rows (snd (initializePlacement q k t d)) = rows d" "rows (snd (cleanupPlacement q k d)) = rows d"
    "rows (snd (cleanupPeerPins q k d)) = rows d"
    "rows (snd (addToTTLQueue q b ttl d)) = rows d" "rows (snd (removeFromTTLQueue q b ttl d)) = rows d"
proof -
  have o: "\<And>k xs ys t d. rows (snd (lw_placement_insert q k xs ys t d)) = rows d"
      "\<And>k d. rows (snd (lw_placement_select q k d)) = rows d" "\<And>k d. rows (snd (lw_placement_delete q k d)) = rows d"
      "\<And>p k d. rows (snd (lw_peers_delete q p k d)) = rows d"
      "\<And>b c t d. rows (snd (lw_ttl_insert q b c t d)) = rows d" "\<And>b t c d. rows (snd (lw_ttl_delete q b t c d)) = rows d"
    using assms unfolding lwt_ok_def cas_others_ok_def by blast+
  show "rows (snd (initializePlacement q k t d)) = rows d"
    using o(1) [of k "[]" "[]" t d] by (auto simp: initializePlacement_def split: prod.split option.split)
  show "rows (snd (cleanupPlacement q k d)) = rows d"
    using o(3) [of k d] by (auto simp: cleanupPlacement_def split: prod.split option.split)
  have fold: "rows (foldl (\<lambda>d peerID. snd (lw_peers_delete q peerID k d)) d peers) = rows d" for peers d
    by (induction peers arbitrary: d) (simp_all add: o(4))
  show "rows (snd (cleanupPeerPins q k d)) = rows d"
    using o(2) [of k d]
    by (auto simp: cleanupPeerPins_def getPeersForPin_def fold split: prod.split sum.split)
  show "rows (snd (addToTTLQueue q b ttl d)) = rows d"
    using o(5) [of "truncate_hour (time_of_UnixMilli ttl)" b "time_of_UnixMilli ttl" d]
    by (auto simp: addToTTLQueue_def Let_def split: prod.split option.split)
  show "rows (snd (removeFromTTLQueue q b ttl d)) = rows d"
    using o(6) [of "truncate_hour (time_of_UnixMilli ttl)" "time_of_UnixMilli ttl" b d]
    by (auto simp: removeFromTTLQueue_def Let_def split: prod.split option.split)
qed

section \<open>Effects on the table\<close>

lemma cas_Get_rows:
  assumes "lwt_ok (ca_lwt st) rows" "cas_Get c st = (x, st')"
  shows "rows (ca_db st') = rows (ca_db st) \<and> ca_lwt st' = ca_lwt st \<and> ca_closed st' = ca_closed st \<and>
    ca_totalPins st' = ca_totalPins st \<and>
    (\<forall>pin. x = Inr pin \<longrightarrow> (\<exists>row. rows (ca_db st) (cas_key_of (ca_lwt st) c) = Some row \<and> pin = row_to_Pin (ca_lwt st) c row)) \<and>
    (x = Inl ErrNotFound \<longrightarrow> rows (ca_db st) (cas_key_of (ca_lwt st) c) = None)"
proof (cases "ca_closed st")
  case True
  with assms(2) show ?thesis by (auto simp: cas_Get_def cas_closed_def)
next
  case False
  obtain y d where y: "lw_select (ca_lwt st) (cas_key_of (ca_lwt st) c) (ca_db st) = (y, d)" by fastforce
  have "cas_reads_ok (ca_lwt st) rows" using assms(1) by (simp add: lwt_ok_def)
  from this [unfolded cas_reads_ok_def, rule_format, OF y] show ?thesis
    using assms(2) False y by (auto simp: cas_Get_def split: sum.splits if_splits)
qed

lemma pin_Timestamp_row [simp]: "pin_Timestamp (row_to_Pin q c row) = cr_created_at row"
  by (simp add: row_to_Pin_def)

text \<open>A row whose update time is its creation time, as the condition of the statements sees them.\<close>

definition row_fresh :: "cas_row \<Rightarrow> bool" where
  "row_fresh row \<longleftrightarrow> cr_updated_at row = ts_ms (cr_created_at row)"

text \<open>What a write may do to the table \<open>m\<close>: nothing, and then it fails; or a change that its condition allows.\<close>

lemma cas_write_rows:
  assumes "lwt_ok q rows" "cas_write pin now existing q d = (e, d')"
    "\<And>p. existing = Inr p \<Longrightarrow> \<exists>row. rows d (cas_key_of q (pin_Cid pin)) = Some row \<and> p = row_to_Pin q (pin_Cid pin) row"
  shows "(e \<noteq> None \<and> rows d' = rows d) \<or>
    (\<exists>err. existing = Inl err \<and> rows d (cas_key_of q (pin_Cid pin)) = None \<and>
       rows d' = (rows d)(cas_key_of q (pin_Cid pin) \<mapsto> store_row (cas_bind q pin now))) \<or>
    (\<exists>row p. existing = Inr p \<and> rows d (cas_key_of q (pin_Cid pin)) = Some row \<and> row_fresh row \<and>
       rows d' = update_row (cas_key_of q (pin_Cid pin)) (cas_bind q pin now) (rows d))"
proof (cases existing)
  case (Inl err)
  obtain x d1 where x: "lw_insert_new q (cas_key_of q (pin_Cid pin)) (cas_bind q pin now) d = (x, d1)" by fastforce
  from lwt_okD(1) [OF assms(1) x] assms(2) Inl x show ?thesis
    by (auto simp: cas_write_def cond_ok_def split: sum.splits bool.splits)
next
  case (Inr p)
  then obtain row where row: "rows d (cas_key_of q (pin_Cid pin)) = Some row" "p = row_to_Pin q (pin_Cid pin) row"
    using assms(3) by blast
  obtain x d1 where x: "lw_update_if q (cas_key_of q (pin_Cid pin)) (cas_bind q pin now) (cr_created_at row) d = (x, d1)" by fastforce
  from lwt_okD(2) [OF assms(1) x] assms(2) Inr row x show ?thesis
    by (auto simp: cas_write_def cond_ok_def updated_at_def row_fresh_def split: sum.splits bool.splits)
qed

lemma cas_Add_rows:
  assumes "lwt_ok (ca_lwt st) rows" "cas_Add now pin st = (e, st')"
  shows "ca_lwt st' = ca_lwt st \<and> ca_closed st' = ca_closed st \<and>
   (let m = rows (ca_db st); k = cas_key_of (ca_lwt st) (pin_Cid pin); row = cas_bind (ca_lwt st) pin now in
    (e \<noteq> None \<and> rows (ca_db st') = m) \<or> (m k = None \<and> rows (ca_db st') = m(k \<mapsto> store_row row)) \<or>
    (\<exists>old. m k = Some old \<and> row_fresh old \<and> rows (ca_db st') = update_row k row m))"
proof (cases "ca_closed st")
  case True
  with assms(2) show ?thesis by (auto simp: cas_Add_def)
next
  case False
  obtain existing st1 where g: "cas_Get (pin_Cid pin) st = (existing, st1)" by fastforce
  note get = cas_Get_rows [OF assms(1) g]
  obtain e1 d1 where w: "cas_write pin now existing (ca_lwt st) (ca_db st1) = (e1, d1)" by fastforce
  from get cas_write_rows [OF assms(1) w] have cases: "(e1 \<noteq> None \<and> rows d1 = rows (ca_db st)) \<or>
      (rows (ca_db st) (cas_key_of (ca_lwt st) (pin_Cid pin)) = None \<and>
       rows d1 = (rows (ca_db st))(cas_key_of (ca_lwt st) (pin_Cid pin) \<mapsto> store_row (cas_bind (ca_lwt st) pin now))) \<or>
      (\<exists>old. rows (ca_db st) (cas_key_of (ca_lwt st) (pin_Cid pin)) = Some old \<and> row_fresh old \<and>
       rows d1 = update_row (cas_key_of (ca_lwt st) (pin_Cid pin)) (cas_bind (ca_lwt st) pin now) (rows (ca_db st)))" by auto
  have "e = e1 \<and> rows (ca_db st') = rows d1 \<and> ca_lwt st' = ca_lwt st \<and> ca_closed st' = ca_closed st"
    using assms False g w get
    by (auto simp: lwt_rows [OF assms(1)] cas_Add_def Let_def addPinCount_def split: option.splits sum.splits)
  with cases show ?thesis by (simp add: Let_def)
qed

lemma cas_Rm_rows:
  assumes "lwt_ok (ca_lwt st) rows" "cas_Rm c st = (e, st')"
  shows "ca_lwt st' = ca_lwt st \<and> ca_closed st' = ca_closed st \<and>
   (let m = rows (ca_db st); k = cas_key_of (ca_lwt st) c in
    (e \<noteq> None \<and> rows (ca_db st') = m) \<or> (\<exists>old. m k = Some old \<and> row_fresh old \<and> rows (ca_db st') = m(k := None)))"
proof (cases "\<exists>pin st1. \<not> ca_closed st \<and> cas_Get c st = (Inr pin, st1)")
  case False
  then show ?thesis
    using assms(2) cas_Get_rows [OF assms(1), of c]
    by (auto simp: cas_Rm_def Let_def split: prod.splits sum.splits state_error.splits if_splits)
next
  case True
  then obtain pin st1 where g: "\<not> ca_closed st" "cas_Get c st = (Inr pin, st1)" by blast
  note get = cas_Get_rows [OF assms(1) g(2)]
  then obtain row where row: "rows (ca_db st) (cas_key_of (ca_lwt st) c) = Some row" "pin = row_to_Pin (ca_lwt st) c row" by blast
  obtain x d where x: "lw_delete_if (ca_lwt st) (cas_key_of (ca_lwt st) c) (cr_created_at row) (ca_db st1) = (x, d)" by fastforce
  from lwt_okD(3) [OF assms(1) x] show ?thesis
    using assms(2) g get row x
    by (auto simp: lwt_rows [OF assms(1)] cas_Rm_def Let_def addPinCount_def cond_ok_def updated_at_def row_fresh_def split: sum.splits bool.splits)
qed

section \<open>Pins that have been updated\<close>

fun op_cid :: "state_op \<Rightarrow> cid" where
  "op_cid (AddPin p) = pin_Cid p"
| "op_cid (RmPin c) = c"

definition cas_stuck :: "('d \<Rightarrow> cas_key \<rightharpoonup> cas_row) \<Rightarrow> 'd casState \<Rightarrow> cid \<Rightarrow> bool" where
  "cas_stuck rows st c \<longleftrightarrow> (\<exists>row. rows (ca_db st) (cas_key_of (ca_lwt st) c) = Some row \<and> \<not> row_fresh row)"

lemma cas_stuck_step:
  assumes "lwt_ok (ca_lwt st) rows" "cas_stuck rows st c" "state_step (\<lambda>p. cas_Add (tm p) p) cas_Rm st q = (e, st')"
  shows "ca_lwt st' = ca_lwt st \<and> cas_stuck rows st' c \<and> (op_cid q = c \<longrightarrow> e \<noteq> None) \<and>
    rows (ca_db st') (cas_key_of (ca_lwt st) c) = rows (ca_db st) (cas_key_of (ca_lwt st) c)"
proof (cases q)
  case (AddPin p)
  note key = lwt_okD(4) [OF assms(1), of "pin_Cid p" c]
  show ?thesis
    using cas_Add_rows [OF assms(1), of "tm p" p e st'] assms(2,3) AddPin key
    by (auto simp: cas_stuck_def Let_def update_row_def)
next
  case (RmPin c')
  note key = lwt_okD(4) [OF assms(1), of c' c]
  show ?thesis
    using cas_Rm_rows [OF assms(1), of c' e st'] assms(2,3) RmPin key
    by (auto simp: cas_stuck_def Let_def)
qed

lemma cas_stuck_run:
  assumes "lwt_ok (ca_lwt st) rows" "cas_stuck rows st c"
  shows "\<exists>st' ok. state_apply (\<lambda>p. cas_Add (tm p) p) cas_Rm st ops = (st', ok) \<and> ca_lwt st' = ca_lwt st \<and>
    cas_stuck rows st' c \<and> (\<forall>q \<in> set ok. op_cid q \<noteq> c) \<and>
    rows (ca_db st') (cas_key_of (ca_lwt st) c) = rows (ca_db st) (cas_key_of (ca_lwt st) c)"
proof (induction ops rule: rev_induct)
  case Nil
  then show ?case using assms by (simp add: state_apply_def)
next
  case (snoc q ops)
  then obtain st1 ok where 1: "state_apply (\<lambda>p. cas_Add (tm p) p) cas_Rm st ops = (st1, ok)" "ca_lwt st1 = ca_lwt st"
      "cas_stuck rows st1 c" "\<forall>q \<in> set ok. op_cid q \<noteq> c"
      "rows (ca_db st1) (cas_key_of (ca_lwt st) c) = rows (ca_db st) (cas_key_of (ca_lwt st) c)" by blast
  obtain e st2 where 2: "state_step (\<lambda>p. cas_Add (tm p) p) cas_Rm st1 q = (e, st2)" by fastforce
  from cas_stuck_step [OF _ 1(3) 2] assms(1) 1(2)
  have "ca_lwt st2 = ca_lwt st \<and> cas_stuck rows st2 c \<and> (op_cid q = c \<longrightarrow> e \<noteq> None) \<and>
    rows (ca_db st2) (cas_key_of (ca_lwt st) c) = rows (ca_db st1) (cas_key_of (ca_lwt st) c)" by simp
  moreover have "state_apply (\<lambda>p. cas_Add (tm p) p) cas_Rm st (ops @ [q]) = (st2, if e = None then ok @ [q] else ok)"
    using 1(1) 2 by (simp add: state_apply_def)
  ultimately show ?case using 1(4,5) by auto
qed

text \<open>
  C34. A pin can be updated once. The statements of \<open>Add\<close> and \<open>Rm\<close> are conditional on the time of the last update,
  but they are given the time of creation, which is what \<open>Get\<close> puts into the timestamp. So once \<open>Add\<close> has updated a
  pin, at least a millisecond after it was created, no later \<open>Add\<close> or \<open>Rm\<close> of that CID succeeds, whatever
  operations are made, and its row stays as it is.
\<close>

theorem cas_updated_pin_stuck:
  assumes "lwt_ok (ca_lwt st) rows" "rows (ca_db st) (cas_key_of (ca_lwt st) (pin_Cid pin)) = Some row"
    "ts_ms now \<noteq> ts_ms (cr_created_at row)" "cas_Add now pin st = (None, st1)"
    "state_apply (\<lambda>p. cas_Add (tm p) p) cas_Rm st1 ops = (st2, ok)"
  shows "(\<forall>q \<in> set ok. op_cid q \<noteq> pin_Cid pin) \<and>
    rows (ca_db st2) (cas_key_of (ca_lwt st) (pin_Cid pin)) = rows (ca_db st1) (cas_key_of (ca_lwt st) (pin_Cid pin))"
proof -
  from cas_Add_rows [OF assms(1,4)] assms(2)
  have st1: "ca_lwt st1 = ca_lwt st"
      "rows (ca_db st1) = update_row (cas_key_of (ca_lwt st) (pin_Cid pin)) (cas_bind (ca_lwt st) pin now) (rows (ca_db st))"
    by (auto simp: Let_def)
  then have "cas_stuck rows st1 (pin_Cid pin)"
    using assms(2,3) by (simp add: cas_stuck_def update_row_def store_row_def cas_bind_def row_fresh_def)
  from cas_stuck_run [OF _ this, of tm ops] assms(1,5) st1(1) show ?thesis by auto
qed

section \<open>New pins\<close>

lemma set_map_filter: "set (List.map_filter f xs) = {y. \<exists>x \<in> set xs. f x = Some y}"
  by (induction xs) (auto simp: List.map_filter_simps split: option.splits)

lemma store_row_simps [simp]:
  "cr_pin_type (store_row row) = cr_pin_type row" "cr_rf (store_row row) = cr_rf row" "cr_ttl (store_row row) = cr_ttl row"
  "cr_metadata (store_row row) = cr_metadata row" "set (cr_tags (store_row row)) = set (cr_tags row)"
  "cr_created_at (store_row row) = ts_ms (cr_created_at row)"
  by (simp_all add: store_row_def)

text \<open>
  What is kept of a new pin. After adding a pin with a new CID, \<open>Get\<close> returns its CID, name, reference
  and origins, the expiry cut to milliseconds, the type and the minimal replication factor modulo 256, the
  latter as both factors, and the time of the addition; the depth is unlimited, and allocations, metadata, mode, shard
  size and the update source are lost.
\<close>

theorem cas_new_pin_read:
  assumes "lwt_ok (ca_lwt st) rows" "rows (ca_db st) (cas_key_of (ca_lwt st) (pin_Cid pin)) = None"
    "cas_Add now pin st = (None, st1)" "cas_Get (pin_Cid pin) st1 = (Inr p, st2)"
    "\<And>a. lw_NewMultiaddr (ca_lwt st) (lw_ma_String (ca_lwt st) a) = Inr a"
    "\<And>c. lw_DecodeCid (ca_lwt st) (lw_cid_String (ca_lwt st) c) = Inr c"
  shows "pin_Cid p = pin_Cid pin \<and> pin_Type p = of_int (wrap_uint8 (uint (pin_Type pin))) \<and>
    pin_rmin p = wrap_uint8 (pin_rmin pin) \<and> pin_rmax p = wrap_uint8 (pin_rmin pin) \<and>
    pin_Reference p = pin_Reference pin \<and> pin_Timestamp p = ts_ms now \<and> pin_MaxDepth p = -1 \<and>
    pin_Allocations p = [] \<and> po_Name (pin_Options p) = po_Name (pin_Options pin) \<and>
    set (po_Origins (pin_Options p)) = set (po_Origins (pin_Options pin)) \<and>
    po_ExpireAt (pin_Options p) = (if time_IsZero (po_ExpireAt (pin_Options pin)) then zero_time else ts_ms (po_ExpireAt (pin_Options pin))) \<and>
    po_Metadata (pin_Options p) = [] \<and> po_Mode (pin_Options p) = 0 \<and> po_PinUpdate (pin_Options p) = CidUndef"
proof -
  let ?q = "ca_lwt st"
  let ?row = "store_row (cas_bind ?q pin now)"
  from cas_Add_rows [OF assms(1,3)] assms(2)
  have st1: "ca_lwt st1 = ?q" "rows (ca_db st1) (cas_key_of ?q (pin_Cid pin)) = Some ?row" by (auto simp: Let_def)
  from cas_Get_rows [of st1 rows, OF _ assms(4)] assms(1) st1 have p: "p = row_to_Pin ?q (pin_Cid pin) ?row" by auto
  have "set (po_Origins (pin_Options p)) = set (po_Origins (pin_Options pin))"
    by (auto simp: p row_to_Pin_def set_map_filter cas_bind_def assms(5))
  moreover have "pin_Reference p = pin_Reference pin" "po_Name (pin_Options p) = po_Name (pin_Options pin)"
    by (auto simp: p row_to_Pin_def cas_bind_def cas_metadata_def Let_def assms(6) split: option.splits)
  ultimately show ?thesis
    by (simp add: p row_to_Pin_def cas_bind_def cas_ttl_def ts_ms_def zero_Pin_def zero_PinOptions_def)
qed

section \<open>Removal and the table of peers\<close>

text \<open>
  The other tables: the placements and the rows of \<open>pins_by_peer\<close>. Deleting a placement succeeds, and then it is not
  found; only the deletion from \<open>pins_by_peer\<close> changes that table.
\<close>

definition side_tables_ok :: "'d lwt \<Rightarrow> ('d \<Rightarrow> cas_key \<Rightarrow> bool) \<Rightarrow> ('d \<Rightarrow> (string \<times> cas_key) set) \<Rightarrow> bool" where
  "side_tables_ok q placed peers \<longleftrightarrow>
     (\<forall>k d. fst (lw_placement_delete q k d) = None \<and> \<not> placed (snd (lw_placement_delete q k d)) k \<and>
        peers (snd (lw_placement_delete q k d)) = peers d) \<and>
     (\<forall>k d. (\<not> placed d k \<longrightarrow> fst (lw_placement_select q k d) = Inl gocql_ErrNotFound) \<and>
        peers (snd (lw_placement_select q k d)) = peers d) \<and>
     (\<forall>k d. peers (snd (lw_select q k d)) = peers d) \<and>
     (\<forall>k t d. peers (snd (lw_delete_if q k t d)) = peers d) \<and>
     (\<forall>b t c d. peers (snd (lw_ttl_delete q b t c d)) = peers d)"

text \<open>
  Removal leaves the rows of the peers. \<open>Rm\<close> deletes the placement of a pin before it looks there for the peers whose
  rows it has to delete, so that it finds none: a removal never changes \<open>pins_by_peer\<close>.
\<close>

theorem cas_Rm_leaves_peers:
  assumes "side_tables_ok (ca_lwt st) placed peers"
  shows "peers (ca_db (snd (cas_Rm c st))) = peers (ca_db st)"
proof -
  let ?q = "ca_lwt st"
  let ?k = "cas_key_of ?q c"
  note ok = assms [unfolded side_tables_ok_def]
  note del = ok [THEN conjunct1, rule_format, THEN conjunct1]
    ok [THEN conjunct1, rule_format, THEN conjunct2, THEN conjunct1]
    ok [THEN conjunct1, rule_format, THEN conjunct2, THEN conjunct2]
  note sel = ok [THEN conjunct2, THEN conjunct1, rule_format, THEN conjunct1, rule_format]
    ok [THEN conjunct2, THEN conjunct1, rule_format, THEN conjunct2]
  note other = ok [THEN conjunct2, THEN conjunct2, THEN conjunct1, rule_format]
    ok [THEN conjunct2, THEN conjunct2, THEN conjunct2, THEN conjunct1, rule_format]
    ok [THEN conjunct2, THEN conjunct2, THEN conjunct2, THEN conjunct2, rule_format]
  have place: "snd (cleanupPlacement ?q k d) = snd (lw_placement_delete ?q k d)" for k d
    by (auto simp: cleanupPlacement_def split: prod.split option.split)
  have clean: "peers (snd (cleanupPeerPins ?q k (snd (cleanupPlacement ?q k d)))) = peers d" for k d
  proof -
    let ?d = "snd (lw_placement_delete ?q k d)"
    have "fst (lw_placement_select ?q k ?d) = Inl gocql_ErrNotFound" by (rule sel(1) [OF del(2)])
    then have "getPeersForPin ?q k ?d = (Inr [], snd (lw_placement_select ?q k ?d))"
      by (auto simp: getPeersForPin_def split: prod.split)
    then show ?thesis by (simp add: cleanupPeerPins_def place sel(2) del(3))
  qed
  have "snd (removeFromTTLQueue ?q b ttl d) =
      snd (lw_ttl_delete ?q (truncate_hour (time_of_UnixMilli ttl)) (time_of_UnixMilli ttl) b d)" for b ttl d
    by (auto simp: removeFromTTLQueue_def Let_def split: prod.split option.split)
  then have ttl: "peers (snd (removeFromTTLQueue ?q b ttl d)) = peers d" for b ttl d by (simp add: other(3))
  obtain x st1 where g: "cas_Get c st = (x, st1)" by fastforce
  obtain y d where y: "lw_select ?q ?k (ca_db st) = (y, d)" by fastforce
  have "ca_db st1 = ca_db st \<or> ca_db st1 = d"
    using g y unfolding cas_Get_def Let_def by (cases y) (auto split: if_splits)
  then have get: "peers (ca_db st1) = peers (ca_db st)" using other(1) [of ?k "ca_db st"] y by (elim disjE) simp_all
  show ?thesis
  proof (cases "ca_closed st \<or> (\<exists>err. x = Inl err)")
    case True
    then show ?thesis
      using g get by (cases x) (auto simp: cas_Rm_def split: state_error.split)
  next
    case False
    then obtain p where p: "x = Inr p" by (cases x) auto
    obtain z d2 where z: "lw_delete_if ?q ?k (pin_Timestamp p) (ca_db st1) = (z, d2)" by fastforce
    have "peers d2 = peers (ca_db st)" using other(2) [of ?k "pin_Timestamp p" "ca_db st1"] z get by simp
    with False p g z show ?thesis by (cases z) (simp_all add: cas_Rm_def Let_def addPinCount_def clean ttl)
  qed
qed

section \<open>An example\<close>

type_synonym example_tables =
  "(cas_key, cas_row) gomap \<times> (cas_key, string list \<times> string list) gomap \<times> (string \<times> cas_key) list"

definition example_updated :: "(cas_key, cas_row) gomap \<Rightarrow> cas_key \<Rightarrow> gotime \<Rightarrow> bool" where
  "example_updated m k t = (case map_of m k of None \<Rightarrow> False | Some row \<Rightarrow> cr_updated_at row = ts_ms t)"

definition example_lwt :: "example_tables lwt" where
  "example_lwt =
     \<lparr>lw_select = (\<lambda>k (m, pl, ps). (case map_of m k of None \<Rightarrow> Inl gocql_ErrNotFound | Some row \<Rightarrow> Inr row, m, pl, ps)),
      lw_exists = (\<lambda>k (m, pl, ps). (case map_of m k of None \<Rightarrow> Inl gocql_ErrNotFound | Some row \<Rightarrow> Inr (snd k), m, pl, ps)),
      lw_list = (\<lambda>(m, pl, ps). (m, None, m, pl, ps)),
      lw_insert_new = (\<lambda>k row (m, pl, ps).
         if map_of m k = None then (Inr True, map_put k (store_row row) m, pl, ps) else (Inr False, m, pl, ps)),
      lw_update_if = (\<lambda>k row t (m, pl, ps).
         if example_updated m k t
         then (Inr True, map_put k ((store_row row)\<lparr>cr_created_at := cr_created_at (the (map_of m k))\<rparr>) m, pl, ps)
         else (Inr False, m, pl, ps)),
      lw_delete_if = (\<lambda>k t (m, pl, ps). if example_updated m k t then (Inr True, map_delete k m, pl, ps) else (Inr False, m, pl, ps)),
      lw_placement_insert = (\<lambda>k xs ys t (m, pl, ps). (None, m, map_put k (xs, ys) pl, ps)),
      lw_placement_select = (\<lambda>k (m, pl, ps). (case map_of pl k of None \<Rightarrow> Inl gocql_ErrNotFound | Some x \<Rightarrow> Inr x, m, pl, ps)),
      lw_placement_delete = (\<lambda>k (m, pl, ps). (None, m, map_delete k pl, ps)),
      lw_peers_delete = (\<lambda>p k (m, pl, ps). (None, m, pl, filter (\<lambda>x. x \<noteq> (p, k)) ps)),
      lw_ttl_insert = (\<lambda>b c t d. (None, d)),
      lw_ttl_delete = (\<lambda>b t c d. (None, d)),
      lw_codec = example_codec, lw_ma_String = (\<lambda>a. a), lw_NewMultiaddr = Inr, lw_cid_String = (\<lambda>c. c), lw_DecodeCid = Inr\<rparr>"

definition example_cas_rows :: "example_tables \<Rightarrow> cas_key \<rightharpoonup> cas_row" where
  "example_cas_rows d = map_of (fst d)"

lemma example_lwt_ok: "lwt_ok example_lwt example_cas_rows"
proof -
  have "cas_writes_ok example_lwt example_cas_rows"
    unfolding cas_writes_ok_def
    by (auto simp: example_lwt_def example_cas_rows_def cond_ok_def updated_at_def update_row_def example_updated_def
        fun_upd_def split: if_splits option.splits)
  moreover have "cas_reads_ok example_lwt example_cas_rows"
    unfolding cas_reads_ok_def
    by (auto simp: example_lwt_def example_cas_rows_def gocql_ErrNotFound_def split: option.splits)
  moreover have "cas_others_ok example_lwt example_cas_rows"
    unfolding cas_others_ok_def by (auto simp: example_lwt_def example_cas_rows_def)
  ultimately show ?thesis by (simp add: lwt_ok_def example_lwt_def example_codec_def)
qed

lemma example_side_tables: "side_tables_ok example_lwt (\<lambda>d k. map_of (fst (snd d)) k \<noteq> None) (\<lambda>d. set (snd (snd d)))"
  unfolding side_tables_ok_def
  by (auto simp: example_lwt_def example_updated_def split: option.splits)

definition example_cas :: "example_tables casState" where
  "example_cas = \<lparr>ca_lwt = example_lwt, ca_db = ([], [], [(''p1'', cas_key_of example_lwt ''Qm'')]), ca_closed = False, ca_totalPins = 0\<rparr>"

definition example_cas1 :: "example_tables casState" where
  "example_cas1 = snd (cas_Add 0 example_pin example_cas)"

definition example_cas2 :: "example_tables casState" where
  "example_cas2 = snd (cas_Add second (example_pin\<lparr>pin_MaxDepth := 0\<rparr>) example_cas1)"

lemma example_cas_runs:
  "fst (cas_Add 0 example_pin example_cas) = None"
  "fst (cas_Add second (example_pin\<lparr>pin_MaxDepth := 0\<rparr>) example_cas1) = None"
  "example_cas_rows (ca_db example_cas1) (cas_key_of example_lwt ''Qm'') = Some (store_row (cas_bind example_lwt example_pin 0))"
  by code_simp+

lemma example_cas_steps:
  "cas_Add 0 example_pin example_cas = (None, example_cas1)"
  "cas_Add second (example_pin\<lparr>pin_MaxDepth := 0\<rparr>) example_cas1 = (None, example_cas2)"
  "ca_lwt example_cas = example_lwt" "ca_lwt example_cas1 = example_lwt"
proof -
  show 1: "cas_Add 0 example_pin example_cas = (None, example_cas1)"
    "cas_Add second (example_pin\<lparr>pin_MaxDepth := 0\<rparr>) example_cas1 = (None, example_cas2)"
    using example_cas_runs(1,2) by (simp_all add: example_cas1_def example_cas2_def prod_eq_iff)
  show l: "ca_lwt example_cas = example_lwt" by (simp add: example_cas_def)
  show "ca_lwt example_cas1 = example_lwt"
    using cas_Add_rows [where rows = example_cas_rows, OF _ 1(1)] example_lwt_ok l by simp
qed

lemma cas_updated_pin_stuck_witness:
  "\<exists>st2 ok. state_apply (\<lambda>p. cas_Add minute p) cas_Rm example_cas2 [RmPin ''Qm'', AddPin example_pin] = (st2, ok) \<and>
     (\<forall>q \<in> set ok. op_cid q \<noteq> ''Qm'')"
proof -
  obtain st2 ok where r: "state_apply (\<lambda>p. cas_Add minute p) cas_Rm example_cas2 [RmPin ''Qm'', AddPin example_pin] = (st2, ok)"
    by fastforce
  have q: "pin_Cid (example_pin\<lparr>pin_MaxDepth := 0\<rparr>) = ''Qm''" by (simp add: example_pin_def)
  have "ts_ms second \<noteq> ts_ms (cr_created_at (store_row (cas_bind example_lwt example_pin 0)))"
    by (simp add: cas_bind_def ts_ms_def time_of_UnixMilli_def time_UnixMilli_def second_def millisecond_def)
  from cas_updated_pin_stuck [where rows = example_cas_rows, OF _ _ this example_cas_steps(2) r] r
  show ?thesis using example_lwt_ok example_cas_runs(3) by (simp add: example_cas_steps q)
qed

lemma cas_new_pin_read_witness:
  "\<exists>p st2. cas_Get ''Qm'' example_cas1 = (Inr p, st2) \<and> pin_rmax p = 1 \<and> pin_Allocations p = []"
proof -
  obtain x st2 where g: "cas_Get ''Qm'' example_cas1 = (x, st2)" by fastforce
  have "\<exists>p. fst (cas_Get ''Qm'' example_cas1) = Inr p" by (rule exI) code_simp
  then obtain p where p: "cas_Get ''Qm'' example_cas1 = (Inr p, st2)" using g by auto
  have q: "pin_Cid example_pin = ''Qm''" by (simp add: example_pin_def)
  have "example_cas_rows (ca_db example_cas) (cas_key_of example_lwt ''Qm'') = None"
    by (simp add: example_cas_rows_def example_cas_def)
  moreover have "wrap_uint8 (pin_rmin example_pin) = 1" by (simp add: example_pin_def wrap_unsigned_def)
  ultimately show ?thesis
    using cas_new_pin_read [where rows = example_cas_rows, OF _ _ example_cas_steps(1), of p st2] p example_lwt_ok
    by (simp add: example_cas_steps(3) q) (simp add: example_lwt_def)
qed

lemma cas_Rm_leaves_peers_witness:
  "set (snd (snd (ca_db (snd (cas_Rm ''Qm'' example_cas1))))) = {(''p1'', cas_key_of example_lwt ''Qm'')} \<and>
   fst (cas_Rm ''Qm'' example_cas1) = None"
proof -
  have "fst (cas_Rm ''Qm'' example_cas1) = None" "snd (snd (ca_db example_cas1)) = [(''p1'', cas_key_of example_lwt ''Qm'')]"
    by code_simp+
  then show ?thesis
    using cas_Rm_leaves_peers [of example_cas1, unfolded example_cas_steps(4), OF example_side_tables, of "''Qm''"] by simp
qed

end
