(* ===== verification/Scylla_Batcher.thy ===== *)
theory Scylla_Batcher
  imports Scylla_Cas
begin

text \<open>
  \<open>state/scyllastate/batching.go\<close>: batches of writes without conditions, and the batcher that commits
  by size and by age. The session that executes a batch is the argument \<open>exec\<close>. A method that locks a mutex it
  already holds never returns; its result is \<open>None\<close>. The lemmas say that the batcher executes the statements
  of the accepted operations in their order, how large and how old a batch can get, and when closing hangs.
\<close>

datatype batch_stmt =
    InsertPin cas_key cas_row
  | DeletePin cas_key
  | DeletePlacement cas_key

text \<open>The nil batch is \<open>None\<close>.\<close>

record 'd batcher =
  bt_db :: 'd
  bt_batch :: "batch_stmt list option"



definition not_initialized :: goerr where
  "not_initialized = Err KOther ''batch is not initialized''"

text \<open>The row bound here; \<open>Time.After(time.Time{})\<close> tests for an expiry after the zero time.\<close>

definition batch_bind :: "'e lwt \<Rightarrow> Pin \<Rightarrow> gotime \<Rightarrow> cas_row" where
  "batch_bind q pin now =
     (cas_bind q pin now)
       \<lparr>cr_ttl := (if zero_time < po_ExpireAt (pin_Options pin) then Some (time_UnixMilli (po_ExpireAt (pin_Options pin))) else None)\<rparr>"

definition batcher_Add :: "'e lwt \<Rightarrow> gotime \<Rightarrow> Pin \<Rightarrow> 'd batcher \<Rightarrow> goerr option \<times> 'd batcher" where
  "batcher_Add q now pin bs =
     (case bt_batch bs of
        None \<Rightarrow> (Some not_initialized, bs)
      | Some es \<Rightarrow> (None, bs\<lparr>bt_batch := Some (es @ [InsertPin (cas_key_of q (pin_Cid pin)) (batch_bind q pin now)])\<rparr>))"



definition BatchSize :: "'d batcher \<Rightarrow> int" where
  "BatchSize bs = (case bt_batch bs of None \<Rightarrow> 0 | Some es \<Rightarrow> int (length es))"

definition batcher_Clear :: "'d batcher \<Rightarrow> 'd batcher" where
  "batcher_Clear bs = (if bt_batch bs \<noteq> None then bs\<lparr>bt_batch := Some []\<rparr> else bs)"

text \<open>\<open>Close\<close> calls \<open>Commit\<close> while it holds the mutex that \<open>Commit\<close> locks.\<close>

definition batcher_Close :: "'d batcher \<Rightarrow> 'd batcher option" where
  "batcher_Close bs = (if bt_batch bs \<noteq> None \<and> 0 < BatchSize bs then None else Some (bs\<lparr>bt_batch := None\<rparr>))"

record 'd autoBatcher =
  ab_state :: "'d batcher"
  ab_maxBatchSize :: int
  ab_maxBatchTime :: duration
  ab_lastCommit :: gotime






definition auto_Close :: "'d autoBatcher \<Rightarrow> 'd autoBatcher option" where
  "auto_Close acb = (case batcher_Close (ab_state acb) of None \<Rightarrow> None | Some bs \<Rightarrow> Some (acb\<lparr>ab_state := bs\<rparr>))"

section \<open>Runs\<close>











text \<open>
  Closing with pending statements hangs. When the batch is not empty \<open>Close\<close> calls \<open>Commit\<close> with the mutex
  held, and never returns.
\<close>

theorem batcher_Close_hangs:
  assumes "batcher_Add q now pin bs = (None, bs')"
  shows "batcher_Close bs' = None"
  using assms by (auto simp: batcher_Add_def batcher_Close_def BatchSize_def split: option.splits)

section \<open>An example\<close>



lemma batcher_Close_hangs_witness:
  "\<exists>bs'. batcher_Add example_lwt 0 example_pin \<lparr>bt_db = (), bt_batch = Some []\<rparr> = (None, bs') \<and> batcher_Close bs' = None"
proof -
  obtain bs' where b: "batcher_Add example_lwt 0 example_pin \<lparr>bt_db = (), bt_batch = Some []\<rparr> = (None, bs')"
    by (simp add: batcher_Add_def)
  with batcher_Close_hangs [OF b] show ?thesis by blast
qed

end
