(* ===== verification/Adder_Blocks.thy ===== *)
theory Adder_Blocks
  imports Api_Types
begin

text \<open>
  What the two DAG services of the adder share: \<open>adder/util.go\<close>. An adder reaches the outside by
  RPC calls to the cluster peer, by its context and by the CBOR library; all of them are fields of
  \<open>adder_env\<close>. A field is asked with the history of the calls made so far, so it may answer the
  same question differently each time, and what a theorem says of the calls it says of their full
  sequence.
\<close>

section \<open>Blocks\<close>

text \<open>An \<open>ipld.Node\<close> as the adder sees it; \<open>nd_Size\<close> is the first result of \<open>Size()\<close>.\<close>

record ipld_node =
  nd_Cid :: cid
  nd_RawData :: bytes
  nd_Size :: int

record NodeWithMeta =
  nm_Data :: bytes
  nm_Cid :: cid
  nm_CumSize :: int

definition IpldNodeToNodeWithMeta :: "ipld_node \<Rightarrow> NodeWithMeta" where
  "IpldNodeToNodeWithMeta n = \<lparr>nm_Data = nd_RawData n, nm_Cid = nd_Cid n, nm_CumSize = nd_Size n\<rparr>"

record AddedOutput =
  ao_Name :: string
  ao_Cid :: cid
  ao_Bytes :: int
  ao_Size :: int
  ao_Allocations :: "peer_id list"

section \<open>The environment\<close>

type_synonym add_error = string

datatype adder_call =
    CallBlockAllocate Pin
  | CallSend NodeWithMeta
  | CallStream "peer_id list" "NodeWithMeta list"
  | CallPin Pin
  | CtxDone

text \<open>
  \<open>env_ctx\<close> says whether a \<open>select\<close> takes the branch of a cancelled context, \<open>env_BlockStream\<close> gives
  the error or nil of every destination of \<open>MultiStream\<close>, and \<open>env_WrapObject\<close> is \<open>cbor.WrapObject\<close>.
\<close>

record adder_env =
  env_now :: "adder_call list \<Rightarrow> gotime"
  env_ctx :: "adder_call list \<Rightarrow> add_error option"
  env_BlockAllocate :: "adder_call list \<Rightarrow> Pin \<Rightarrow> add_error + peer_id list"
  env_BlockStream :: "adder_call list \<Rightarrow> peer_id list \<Rightarrow> NodeWithMeta list \<Rightarrow> add_error option list"
  env_Pin :: "adder_call list \<Rightarrow> Pin \<Rightarrow> add_error option"
  env_WrapObject :: "(string, cid) gomap \<Rightarrow> add_error + ipld_node"

definition ErrBlockAdder :: add_error where
  "ErrBlockAdder = ''failed to put block on all destinations''"

text \<open>
  \<open>streamBlocks\<close>: the work of a \<open>BlockStreamer\<close>, recorded as one call when the stream has ended. It
  fails when there are as many errors as destinations.
\<close>

definition streamBlocks ::
  "adder_env \<Rightarrow> peer_id list \<Rightarrow> NodeWithMeta list \<Rightarrow> adder_call list \<Rightarrow> add_error option \<times> adder_call list" where
  "streamBlocks env dests blocks calls =
     (let errs = filter (\<lambda>e. e \<noteq> None) (env_BlockStream env calls dests blocks)
      in (if length errs = length dests then Some ErrBlockAdder else None, calls @ [CallStream dests blocks]))"

definition BlockAllocate ::
  "adder_env \<Rightarrow> PinOptions \<Rightarrow> adder_call list \<Rightarrow> (add_error + peer_id list) \<times> adder_call list" where
  "BlockAllocate env pinOpts calls =
     (let pin = PinWithOpts (env_now env calls) CidUndef pinOpts
      in (env_BlockAllocate env calls pin, calls @ [CallBlockAllocate pin]))"

text \<open>\<open>Pin\<close> clears the allocations of a pin that is pinned everywhere.\<close>

definition sent_pin :: "Pin \<Rightarrow> Pin" where
  "sent_pin pin = (if po_ReplicationFactorMin (pin_Options pin) < 0 then pin\<lparr>pin_Allocations := []\<rparr> else pin)"

definition adder_Pin :: "adder_env \<Rightarrow> Pin \<Rightarrow> adder_call list \<Rightarrow> add_error option \<times> adder_call list" where
  "adder_Pin env pin calls =
     (let pin = sent_pin pin in (env_Pin env calls pin, calls @ [CallPin pin]))"

section \<open>Reading a history\<close>

text \<open>The streams of blocks and the pin requests of a history, in order.\<close>

fun streams :: "adder_call list \<Rightarrow> (peer_id list \<times> NodeWithMeta list) list" where
  "streams [] = []"
| "streams (CallStream ds bs # cs) = (ds, bs) # streams cs"
| "streams (_ # cs) = streams cs"

fun pinned :: "adder_call list \<Rightarrow> Pin list" where
  "pinned [] = []"
| "pinned (CallPin p # cs) = p # pinned cs"
| "pinned (_ # cs) = pinned cs"

lemma streams_append [simp]: "streams (xs @ ys) = streams xs @ streams ys"
  by (induction xs rule: streams.induct) simp_all

lemma pinned_append [simp]: "pinned (xs @ ys) = pinned xs @ pinned ys"
  by (induction xs rule: pinned.induct) simp_all

end
