(* ===== verification/Adder_Sharding.thy ===== *)
theory Adder_Sharding
  imports Adder_Blocks
begin

text \<open>
  \<open>adder/sharding\<close>: \<open>dag.go\<close>, \<open>shard.go\<close> and \<open>dag_service.go\<close>. Blocks are put into a current shard
  until one does not fit; then the shard is flushed, that is, the node with its links is built
  and streamed after the blocks and the shard is pinned, and a new shard is begun. At the end the
  cluster DAG with the links to all shards is pinned, and a meta pin for the root of the content. An
  operation that panics returns \<^term>\<open>None\<close>.

  The lemmas follow the history of calls: which blocks go to which shard, what is streamed
  where, and which pins are requested. They also show when a session succeeds and when
  closing it panics.
\<close>

section \<open>Links of a DAG (\<open>dag.go\<close>)\<close>

definition MaxLinks :: nat where
  "MaxLinks = 5984"

definition makeDAGSimple :: "adder_env \<Rightarrow> (string, cid) gomap \<Rightarrow> add_error + ipld_node" where
  "makeDAGSimple env dagObj = env_WrapObject env dagObj"

text \<open>
  The inner loop of \<open>makeDAG\<close>, with the number of rounds left and \<open>j\<close>; \<open>isLast\<close> is \<open>i == numFullLeaves\<close>. A missing link
  ends the last leaf and panics in another.
\<close>

fun leaf_loop :: "(string, cid) gomap \<Rightarrow> nat \<Rightarrow> bool \<Rightarrow> nat \<Rightarrow> nat \<Rightarrow> (string, cid) gomap \<Rightarrow> (string, cid) gomap option" where
  "leaf_loop dagObj i isLast 0 j leafObj = Some leafObj"
| "leaf_loop dagObj i isLast (Suc k) j leafObj =
     (case map_of dagObj (nat_digits (i * MaxLinks + j)) of
        None \<Rightarrow> if \<not> isLast then None else Some leafObj
      | Some c \<Rightarrow> leaf_loop dagObj i isLast k (Suc j) (map_put (nat_digits j) c leafObj))"

text \<open>The outer loop, over the values of \<open>i\<close>.\<close>

fun leaves_loop ::
  "adder_env \<Rightarrow> (string, cid) gomap \<Rightarrow> nat \<Rightarrow> nat list \<Rightarrow> (string, cid) gomap \<Rightarrow> ipld_node list \<Rightarrow>
    (add_error + (string, cid) gomap \<times> ipld_node list) option" where
  "leaves_loop env dagObj numFullLeaves [] indirectObj leafNodes = Some (Inr (indirectObj, leafNodes))"
| "leaves_loop env dagObj numFullLeaves (i # is) indirectObj leafNodes =
     (case leaf_loop dagObj i (i = numFullLeaves) MaxLinks 0 [] of
        None \<Rightarrow> None
      | Some leafObj \<Rightarrow>
          (case makeDAGSimple env leafObj of
             Inl e \<Rightarrow> Some (Inl e)
           | Inr leafNode \<Rightarrow>
               leaves_loop env dagObj numFullLeaves is (map_put (nat_digits i) (nd_Cid leafNode) indirectObj)
                 (leafNodes @ [leafNode])))"

definition makeDAG :: "adder_env \<Rightarrow> (string, cid) gomap \<Rightarrow> (add_error + ipld_node list) option" where
  "makeDAG env dagObj =
     (if length dagObj \<le> MaxLinks then
        Some (case makeDAGSimple env dagObj of Inl e \<Rightarrow> Inl e | Inr n \<Rightarrow> Inr [n])
      else
        let numFullLeaves = length dagObj div MaxLinks
        in case leaves_loop env dagObj numFullLeaves [0..<Suc numFullLeaves] [] [] of
             None \<Rightarrow> None
           | Some (Inl e) \<Rightarrow> Some (Inl e)
           | Some (Inr (indirectObj, leafNodes)) \<Rightarrow>
               Some (case makeDAGSimple env indirectObj of
                       Inl e \<Rightarrow> Inl e
                     | Inr indirectNode \<Rightarrow> Inr (indirectNode # leafNodes)))"

section \<open>A shard (\<open>shard.go\<close>)\<close>

text \<open>
  \<open>sh_blocks\<close> are the values sent on the channel of blocks, \<open>sh_closed\<close> says that the channel is closed and
  \<open>sh_closeOnce\<close> that \<open>closeBlocksOnce\<close> has run.
\<close>

record shard =
  sh_allocations :: "peer_id list"
  sh_pinOptions :: PinOptions
  sh_blocks :: "NodeWithMeta list"
  sh_closed :: bool
  sh_closeOnce :: bool
  sh_dagNode :: "(string, cid) gomap"
  sh_currentSize :: int
  sh_sizeLimit :: int

definition newShard ::
  "adder_env \<Rightarrow> PinOptions \<Rightarrow> adder_call list \<Rightarrow> ((add_error + shard) \<times> adder_call list) option" where
  "newShard env opts calls =
     (case BlockAllocate env opts calls of
        (Inl e, calls) \<Rightarrow> Some (Inl e, calls)
      | (Inr allocs, calls) \<Rightarrow>
          if 0 < po_ReplicationFactorMin opts \<and> allocs = [] then None
          else Some (Inr \<lparr>sh_allocations = allocs, sh_pinOptions = opts, sh_blocks = [], sh_closed = False,
                          sh_closeOnce = False, sh_dagNode = [], sh_currentSize = 0,
                          sh_sizeLimit = po_ShardSize opts\<rparr>, calls))"

definition AddLink :: "cid \<Rightarrow> int \<Rightarrow> shard \<Rightarrow> shard" where
  "AddLink c s sh =
     (let linkName = nat_digits (length (sh_dagNode sh))
      in sh\<lparr>sh_dagNode := map_put linkName c (sh_dagNode sh),
            sh_currentSize := wrap_uint64 (sh_currentSize sh + s)\<rparr>)"

definition shard_Allocations :: "shard \<Rightarrow> peer_id list" where
  "shard_Allocations sh = (if sh_allocations sh = [[]] then [] else sh_allocations sh)"

text \<open>Sending on a closed channel panics.\<close>

definition sendBlock ::
  "adder_env \<Rightarrow> ipld_node \<Rightarrow> shard \<Rightarrow> adder_call list \<Rightarrow> (add_error option \<times> shard \<times> adder_call list) option" where
  "sendBlock env n sh calls =
     (case env_ctx env calls of
        Some e \<Rightarrow> Some (Some e, sh, calls @ [CtxDone])
      | None \<Rightarrow>
          if sh_closed sh then None
          else let m = IpldNodeToNodeWithMeta n
               in Some (None, sh\<lparr>sh_blocks := sh_blocks sh @ [m]\<rparr>, calls @ [CallSend m]))"

definition close_blocks :: "shard \<Rightarrow> shard option" where
  "close_blocks sh = (if sh_closed sh then None else Some (sh\<lparr>sh_closed := True\<rparr>))"

definition shard_Close :: "shard \<Rightarrow> shard option" where
  "shard_Close sh =
     (if sh_closeOnce sh then Some sh else close_blocks (sh\<lparr>sh_closeOnce := True\<rparr>))"

fun send_all ::
  "adder_env \<Rightarrow> ipld_node list \<Rightarrow> shard \<Rightarrow> adder_call list \<Rightarrow> (add_error option \<times> shard \<times> adder_call list) option" where
  "send_all env [] sh calls = Some (None, sh, calls)"
| "send_all env (n # ns) sh calls =
     (case sendBlock env n sh calls of
        Some (None, sh, calls) \<Rightarrow> send_all env ns sh calls
      | r \<Rightarrow> r)"

text \<open>The pin of a flushed shard.\<close>

definition shard_Pin :: "gotime \<Rightarrow> shard \<Rightarrow> nat \<Rightarrow> cid \<Rightarrow> ipld_node list \<Rightarrow> Pin" where
  "shard_Pin now sh shardN prev nodes =
     (let pin = PinWithOpts now (nd_Cid (hd nodes)) (sh_pinOptions sh);
          opts = (pin_Options pin)\<lparr>po_Name := po_Name (sh_pinOptions sh) @ ''-shard-'' @ nat_digits shardN,
                                   po_ShardSize := sh_currentSize sh\<rparr>
      in pin\<lparr>pin_Options := opts, pin_Allocations := sh_allocations sh, pin_Type := ShardType,
             pin_Reference := Some prev,
             pin_MaxDepth := (if length nodes > length (sh_dagNode sh) + 1 then 2 else 1)\<rparr>)"

definition Flush ::
  "adder_env \<Rightarrow> nat \<Rightarrow> cid \<Rightarrow> shard \<Rightarrow> adder_call list \<Rightarrow> ((add_error + cid) \<times> shard \<times> adder_call list) option" where
  "Flush env shardN prev sh calls =
     (case makeDAG env (sh_dagNode sh) of
        None \<Rightarrow> None
      | Some (Inl e) \<Rightarrow> Some (Inl e, sh, calls)
      | Some (Inr nodes) \<Rightarrow>
          (case send_all env nodes sh calls of
             None \<Rightarrow> None
           | Some (Some e, sh, calls) \<Rightarrow>
               (case close_blocks sh of None \<Rightarrow> None | Some sh \<Rightarrow> Some (Inl e, sh, calls))
           | Some (None, sh, calls) \<Rightarrow>
               (case shard_Close sh of
                  None \<Rightarrow> None
                | Some sh \<Rightarrow>
                    (case env_ctx env calls of
                       Some e \<Rightarrow> Some (Inl e, sh, calls @ [CtxDone])
                     | None \<Rightarrow>
                         (case streamBlocks env (sh_allocations sh) (sh_blocks sh) calls of
                            (Some e, calls) \<Rightarrow> Some (Inl e, sh, calls)
                          | (None, calls) \<Rightarrow>
                              (case adder_Pin env (shard_Pin (env_now env calls) sh shardN prev nodes) calls of
                                 (Some e, calls) \<Rightarrow> Some (Inl e, sh, calls)
                               | (None, calls) \<Rightarrow> Some (Inr (nd_Cid (hd nodes)), sh, calls)))))))"

definition LastLink :: "shard \<Rightarrow> cid" where
  "LastLink sh = map_get CidUndef (sh_dagNode sh) (int_str (int (length (sh_dagNode sh)) - 1))"

section \<open>The DAG service (\<open>dag_service.go\<close>)\<close>

text \<open>\<open>dg_output\<close> is \<^term>\<open>None\<close> when the service has no output channel, and else what was sent on it.\<close>

record sharding_dgs =
  dg_addParams :: PinOptions
  dg_output :: "AddedOutput list option"
  dg_addedSet :: "cid list"
  dg_currentShard :: "shard option"
  dg_previousShard :: cid
  dg_shards :: "(string, cid) gomap"
  dg_totalSize :: int
  dg_calls :: "adder_call list"

definition sharding_New :: "PinOptions \<Rightarrow> bool \<Rightarrow> sharding_dgs" where
  "sharding_New opts out =
     \<lparr>dg_addParams = opts\<lparr>po_Mode := PinModeRecursive\<rparr>, dg_output = (if out then Some [] else None),
      dg_addedSet = [], dg_currentShard = None, dg_previousShard = CidUndef, dg_shards = [],
      dg_totalSize = 0, dg_calls = []\<rparr>"

definition sendOutput :: "AddedOutput \<Rightarrow> sharding_dgs \<Rightarrow> sharding_dgs" where
  "sendOutput ao dgs = dgs\<lparr>dg_output := map_option (\<lambda>l. l @ [ao]) (dg_output dgs)\<rparr>"

definition flushCurrentShard :: "adder_env \<Rightarrow> sharding_dgs \<Rightarrow> ((add_error + cid) \<times> sharding_dgs) option" where
  "flushCurrentShard env dgs =
     (case dg_currentShard dgs of
        None \<Rightarrow> Some (Inl ''cannot flush a nil shard'', dgs)
      | Some sh \<Rightarrow>
          let lens = length (dg_shards dgs)
          in case Flush env lens (dg_previousShard dgs) sh (dg_calls dgs) of
               None \<Rightarrow> None
             | Some (Inl e, sh, calls) \<Rightarrow> Some (Inl e, dgs\<lparr>dg_currentShard := Some sh, dg_calls := calls\<rparr>)
             | Some (Inr shardCid, sh, calls) \<Rightarrow>
                 Some (Inr (LastLink sh),
                   sendOutput \<lparr>ao_Name = ''shard-'' @ nat_digits lens, ao_Cid = shardCid, ao_Bytes = 0,
                               ao_Size = sh_currentSize sh, ao_Allocations = shard_Allocations sh\<rparr>
                     (dgs\<lparr>dg_totalSize := wrap_uint64 (dg_totalSize dgs + sh_currentSize sh),
                          dg_shards := map_put (nat_digits lens) shardCid (dg_shards dgs),
                          dg_previousShard := shardCid, dg_currentShard := None, dg_calls := calls\<rparr>)))"

lemma flushCurrentShard_clears: "flushCurrentShard env dgs = Some (Inr c, dgs') \<Longrightarrow> dg_currentShard dgs' = None"
  by (auto simp: flushCurrentShard_def sendOutput_def Let_def split: option.splits sum.splits prod.splits)

text \<open>
  \<open>ingestBlock\<close> calls itself after a flush, which leaves no current shard: the new one is empty, so the block fits or
  the call fails.
\<close>

definition current_shard :: "adder_env \<Rightarrow> sharding_dgs \<Rightarrow> ((add_error + shard) \<times> sharding_dgs) option" where
  "current_shard env dgs =
     (case dg_currentShard dgs of
        Some sh \<Rightarrow> Some (Inr sh, dgs)
      | None \<Rightarrow>
          (case newShard env (dg_addParams dgs) (dg_calls dgs) of
             None \<Rightarrow> None
           | Some (Inl e, calls) \<Rightarrow> Some (Inl e, dgs\<lparr>dg_calls := calls\<rparr>)
           | Some (Inr sh, calls) \<Rightarrow> Some (Inr sh, dgs\<lparr>dg_currentShard := Some sh, dg_calls := calls\<rparr>)))"

lemma current_shard_old:
  "current_shard env dgs = Some (Inr sh, dgs') \<Longrightarrow> sh_currentSize sh \<noteq> 0 \<Longrightarrow> dg_currentShard dgs = Some sh"
  by (auto simp: current_shard_def newShard_def split: option.splits sum.splits prod.splits if_splits)

function ingestBlock :: "adder_env \<Rightarrow> ipld_node \<Rightarrow> sharding_dgs \<Rightarrow> (add_error option \<times> sharding_dgs) option" where
  "ingestBlock env n dgs =
     (case current_shard env dgs of
        None \<Rightarrow> None
      | Some (Inl e, dgs) \<Rightarrow> Some (Some e, dgs)
      | Some (Inr sh, dgs) \<Rightarrow>
          let s = int (length (nd_RawData n))
          in if wrap_uint64 (sh_currentSize sh + s) < sh_sizeLimit sh then
               (case sendBlock env n (AddLink (nd_Cid n) s sh) (dg_calls dgs) of
                  None \<Rightarrow> None
                | Some (e, sh, calls) \<Rightarrow> Some (e, dgs\<lparr>dg_currentShard := Some sh, dg_calls := calls\<rparr>))
             else if sh_currentSize sh = 0 then
               Some (Some ''block doesn't fit in empty shard: shard size too small?'', dgs)
             else
               (case flushCurrentShard env dgs of
                  None \<Rightarrow> None
                | Some (Inl e, dgs) \<Rightarrow> Some (Some e, dgs)
                | Some (Inr c, dgs) \<Rightarrow> ingestBlock env n dgs))"
  by pat_completeness auto

termination
  by (relation "measure (\<lambda>(env, n, dgs). case dg_currentShard dgs of
      None \<Rightarrow> 0 | Some sh \<Rightarrow> if sh_currentSize sh = 0 then 0 else 1)")
    (auto simp: flushCurrentShard_clears current_shard_old)

declare ingestBlock.simps [simp del]

definition sharding_Add :: "adder_env \<Rightarrow> ipld_node \<Rightarrow> sharding_dgs \<Rightarrow> (add_error option \<times> sharding_dgs) option" where
  "sharding_Add env node dgs =
     (if nd_Cid node \<in> set (dg_addedSet dgs) then Some (None, dgs)
      else ingestBlock env node (dgs\<lparr>dg_addedSet := nd_Cid node # dg_addedSet dgs\<rparr>))"

fun sharding_AddMany :: "adder_env \<Rightarrow> ipld_node list \<Rightarrow> sharding_dgs \<Rightarrow> (add_error option \<times> sharding_dgs) option" where
  "sharding_AddMany env [] dgs = Some (None, dgs)"
| "sharding_AddMany env (n # ns) dgs =
     (case sharding_Add env n dgs of
        Some (None, dgs) \<Rightarrow> sharding_AddMany env ns dgs
      | r \<Rightarrow> r)"

definition sharding_Close :: "sharding_dgs \<Rightarrow> sharding_dgs option" where
  "sharding_Close dgs =
     (case dg_currentShard dgs of
        None \<Rightarrow> Some dgs
      | Some sh \<Rightarrow> (case shard_Close sh of None \<Rightarrow> None | Some sh \<Rightarrow> Some (dgs\<lparr>dg_currentShard := Some sh\<rparr>)))"

definition sharding_Allocations :: "sharding_dgs \<Rightarrow> peer_id list" where
  "sharding_Allocations dgs = (case dg_currentShard dgs of None \<Rightarrow> [] | Some sh \<Rightarrow> shard_Allocations sh)"

text \<open>The goroutine of \<open>Finalize\<close> that feeds the cluster DAG to the stream stops when the context is done.\<close>

fun put_nodes :: "adder_env \<Rightarrow> ipld_node list \<Rightarrow> adder_call list \<Rightarrow> NodeWithMeta list \<times> adder_call list" where
  "put_nodes env [] calls = ([], calls)"
| "put_nodes env (n # ns) calls =
     (case env_ctx env calls of
        Some e \<Rightarrow> ([], calls @ [CtxDone])
      | None \<Rightarrow> (let m = IpldNodeToNodeWithMeta n; (ms, calls) = put_nodes env ns (calls @ [CallSend m])
                 in (m # ms, calls)))"

definition clusterDAG_Pin :: "gotime \<Rightarrow> cid \<Rightarrow> PinOptions \<Rightarrow> cid \<Rightarrow> Pin" where
  "clusterDAG_Pin now clusterDAG opts dataRoot =
     (let pin = PinWithOpts now clusterDAG opts
      in pin\<lparr>pin_Options := opts\<lparr>po_ReplicationFactorMin := -1, po_ReplicationFactorMax := -1,
                                  po_Name := po_Name opts @ ''-clusterDAG''\<rparr>,
             pin_MaxDepth := 0, pin_Type := ClusterDAGType, pin_Reference := Some dataRoot\<rparr>)"

definition meta_Pin :: "gotime \<Rightarrow> cid \<Rightarrow> PinOptions \<Rightarrow> cid \<Rightarrow> Pin" where
  "meta_Pin now dataRoot opts clusterDAG =
     (PinWithOpts now dataRoot opts)\<lparr>pin_Type := MetaType, pin_Reference := Some clusterDAG, pin_MaxDepth := 0\<rparr>"

text \<open>\<open>Finalize\<close> always returns the root with a nil error; the CID next to an error is not kept.\<close>

definition sharding_Finalize :: "adder_env \<Rightarrow> cid \<Rightarrow> sharding_dgs \<Rightarrow> ((add_error + cid) \<times> sharding_dgs) option" where
  "sharding_Finalize env dataRoot dgs =
     (case flushCurrentShard env dgs of
        None \<Rightarrow> None
      | Some (Inl e, dgs) \<Rightarrow> Some (Inl e, dgs)
      | Some (Inr lastCid, dgs) \<Rightarrow>
          (case makeDAG env (dg_shards dgs) of
             None \<Rightarrow> None
           | Some (Inl e) \<Rightarrow> Some (Inl e, dgs)
           | Some (Inr nodes) \<Rightarrow>
               let (blocks, calls) = put_nodes env nodes (dg_calls dgs)
               in case env_ctx env calls of
                    Some e \<Rightarrow> Some (Inl e, dgs\<lparr>dg_calls := calls @ [CtxDone]\<rparr>)
                  | None \<Rightarrow>
                      (case streamBlocks env [[]] blocks calls of
                         (Some e, calls) \<Rightarrow> Some (Inl e, dgs\<lparr>dg_calls := calls\<rparr>)
                       | (None, calls) \<Rightarrow>
                           let clusterDAG = nd_Cid (hd nodes); opts = dg_addParams dgs;
                               dgs = sendOutput \<lparr>ao_Name = po_Name opts @ ''-clusterDAG'', ao_Cid = clusterDAG,
                                                 ao_Bytes = 0, ao_Size = dg_totalSize dgs, ao_Allocations = []\<rparr> dgs
                           in case adder_Pin env (clusterDAG_Pin (env_now env calls) clusterDAG opts dataRoot) calls of
                                (Some e, calls) \<Rightarrow> Some (Inl e, dgs\<lparr>dg_calls := calls\<rparr>)
                              | (None, calls) \<Rightarrow>
                                  (case adder_Pin env (meta_Pin (env_now env calls) dataRoot opts clusterDAG) calls of
                                     (Some e, calls) \<Rightarrow> Some (Inl e, dgs\<lparr>dg_calls := calls\<rparr>)
                                   | (None, calls) \<Rightarrow> Some (Inr dataRoot, dgs\<lparr>dg_calls := calls\<rparr>)))))"

section \<open>Numbered links\<close>

text \<open>A DAG object maps the decimal numbers from 0 on to its links. \<open>links\<close> builds it from the list of links.\<close>

definition links :: "cid list \<Rightarrow> (string, cid) gomap" where
  "links cs = zip (map nat_digits [0..<length cs]) cs"

lemma length_links [simp]: "length (links cs) = length cs"
  by (simp add: links_def)

lemma links_Nil [simp]: "links [] = []"
  by (simp add: links_def)

lemma fst_links: "fst ` set (links cs) = nat_digits ` {0..<length cs}"
proof -
  have "map fst (links cs) = map nat_digits [0..<length cs]" by (simp add: links_def)
  then have "set (map fst (links cs)) = set (map nat_digits [0..<length cs])" by simp
  then show ?thesis by simp
qed

lemma map_put_links [simp]: "map_put (nat_digits (length cs)) c (links cs) = links (cs @ [c])"
proof -
  have "nat_digits (length cs) \<notin> fst ` set (links cs)" by (auto simp: fst_links)
  then show ?thesis by (simp add: map_put_fresh) (simp add: links_def)
qed

lemma map_of_links [simp]: "map_of (links cs) (nat_digits i) = (if i < length cs then Some (cs ! i) else None)"
proof (cases "i < length cs")
  case True
  have "distinct (map nat_digits [0..<length cs])" by (simp add: distinct_map inj_on_def)
  then have "map_of (links cs) (map nat_digits [0..<length cs] ! i) = Some (cs ! i)"
    unfolding links_def using True by (intro map_of_zip_nth) simp_all
  with True show ?thesis by simp
next
  case False
  then have "nat_digits i \<notin> fst ` set (links cs)" by (auto simp: fst_links)
  with False show ?thesis by (simp add: map_of_eq_None_iff)
qed

section \<open>What \<open>makeDAG\<close> builds\<close>

text \<open>The links of the leaf number \<open>i\<close>.\<close>

definition leaf_links :: "cid list \<Rightarrow> nat \<Rightarrow> cid list" where
  "leaf_links cs i = take MaxLinks (drop (i * MaxLinks) cs)"

lemma leaf_loop_links:
  "length ds = j \<Longrightarrow> i * MaxLinks + j \<le> length cs \<Longrightarrow> leaf_loop (links cs) i isLast k j (links ds) =
     (if isLast \<or> i * MaxLinks + j + k \<le> length cs then Some (links (ds @ take k (drop (i * MaxLinks + j) cs))) else None)"
proof (induction k arbitrary: j ds)
  case (Suc k)
  let ?p = "i * MaxLinks + j"
  show ?case
  proof (cases "?p < length cs")
    case True
    then have "drop ?p cs = cs ! ?p # drop (Suc ?p) cs" by (simp add: Cons_nth_drop_Suc)
    moreover have "map_put (nat_digits j) (cs ! ?p) (links ds) = links (ds @ [cs ! ?p])"
      using Suc.prems map_put_links [of ds] by simp
    ultimately show ?thesis
      using True Suc.IH [of "ds @ [cs ! ?p]" "Suc j"] Suc.prems by simp
  next
    case False
    then show ?thesis by simp
  qed
qed simp

lemma leaf_loop_leaf:
  assumes "m \<le> n" "n * MaxLinks \<le> length cs"
  shows "leaf_loop (links cs) m (m = n) MaxLinks 0 [] = Some (links (leaf_links cs m))"
proof -
  have "m * MaxLinks \<le> length cs" using assms by (meson le_trans mult_le_mono1)
  moreover have "m = n \<or> Suc m * MaxLinks \<le> length cs"
    using assms by (metis le_neq_implies_less Suc_leI mult_le_mono1 le_trans)
  ultimately show ?thesis using leaf_loop_links [of "[]" 0 m cs "m = n" MaxLinks] by (auto simp: leaf_links_def)
qed

text \<open>All results of a list of fallible calls, or the first error.\<close>

fun all_Inr :: "('e + 'a) list \<Rightarrow> 'e + 'a list" where
  "all_Inr [] = Inr []"
| "all_Inr (Inl e # rs) = Inl e"
| "all_Inr (Inr x # rs) = (case all_Inr rs of Inl e \<Rightarrow> Inl e | Inr xs \<Rightarrow> Inr (x # xs))"

lemma all_Inr_map [simp]: "all_Inr (map Inr xs) = Inr xs"
  by (induction xs) simp_all

lemma all_Inr_iff: "all_Inr rs = Inr xs \<longleftrightarrow> rs = map Inr xs"
  by (induction rs arbitrary: xs rule: all_Inr.induct) (auto split: sum.splits)

abbreviation leaf_nodes :: "adder_env \<Rightarrow> cid list \<Rightarrow> nat list \<Rightarrow> add_error + ipld_node list" where
  "leaf_nodes env cs is \<equiv> all_Inr (map (\<lambda>i. makeDAGSimple env (links (leaf_links cs i))) is)"

lemma leaves_loop_links:
  assumes "n * MaxLinks \<le> length cs" "is = [length ls..<length ls + length is]" "\<forall>i\<in>set is. i \<le> n"
  shows "leaves_loop env (links cs) n is (links (map nd_Cid ls)) ls =
    Some (case leaf_nodes env cs is of
            Inl e \<Rightarrow> Inl e | Inr new \<Rightarrow> Inr (links (map nd_Cid (ls @ new)), ls @ new))"
  using assms(2,3)
proof (induction "is" arbitrary: ls)
  case (Cons m ms)
  from Cons.prems(1) have m: "m = length ls" "ms = [Suc (length ls)..<Suc (length ls) + length ms]"
    by (auto simp: upt_rec [of "length ls"] simp del: upt_Suc)
  have put: "map_put (nat_digits m) c (links (map nd_Cid ls)) = links (map nd_Cid ls @ [c])" for c
    using map_put_links [of "map nd_Cid ls"] m(1) by simp
  from Cons.IH [of "ls @ [_]"] m(2) Cons.prems(2) leaf_loop_leaf [of m n cs] assms(1) put show ?case
    by (auto split: sum.splits)
qed simp

text \<open>The links are cut into groups of at most \<open>MaxLinks\<close>, in order.\<close>

lemma concat_leaf_links: "n * MaxLinks + MaxLinks \<ge> length cs \<Longrightarrow> concat (map (leaf_links cs) [0..<Suc n]) = cs"
proof -
  have "concat (map (leaf_links cs) [0..<n]) = take (n * MaxLinks) cs" for n
    by (induction n) (simp_all add: leaf_links_def take_add add.commute [of MaxLinks])
  then show "concat (map (leaf_links cs) [0..<Suc n]) = cs" if "n * MaxLinks + MaxLinks \<ge> length cs"
    using that by (simp add: leaf_links_def)
qed

text \<open>
  The nodes of a DAG with the given links: one node that has them all, or a root whose links are the leaves
  and leaves that have at most \<open>MaxLinks\<close> of the links each.
\<close>

definition dag_of :: "adder_env \<Rightarrow> cid list \<Rightarrow> ipld_node list \<Rightarrow> bool" where
  "dag_of env cs nodes \<longleftrightarrow>
     (if length cs \<le> MaxLinks then \<exists>n. nodes = [n] \<and> env_WrapObject env (links cs) = Inr n
      else \<exists>root leaves parts.
        nodes = root # leaves \<and> env_WrapObject env (links (map nd_Cid leaves)) = Inr root \<and>
        length leaves = length cs div MaxLinks + 1 \<and>
        concat parts = cs \<and> (\<forall>p\<in>set parts. length p \<le> MaxLinks) \<and>
        map (\<lambda>p. env_WrapObject env (links p)) parts = map Inr leaves)"

lemma makeDAG_links:
  "\<exists>r. makeDAG env (links cs) = Some r \<and> (\<forall>nodes. r = Inr nodes \<longrightarrow> dag_of env cs nodes)"
proof (cases "length cs \<le> MaxLinks")
  case True
  then show ?thesis by (auto simp: makeDAG_def dag_of_def makeDAGSimple_def split: sum.splits)
next
  case False
  let ?n = "length cs div MaxLinks"
  let ?is = "[0..<Suc ?n]"
  have full: "?n * MaxLinks \<le> length cs" "length cs \<le> ?n * MaxLinks + MaxLinks"
    using div_mult_mod_eq [of "length cs" MaxLinks] mod_less_divisor [of MaxLinks "length cs"]
    by (auto simp: MaxLinks_def simp del: mod_less_divisor)
  have loop: "leaves_loop env (links cs) ?n ?is [] [] =
      Some (case leaf_nodes env cs ?is of Inl e \<Rightarrow> Inl e | Inr new \<Rightarrow> Inr (links (map nd_Cid new), new))"
    using leaves_loop_links [of ?n cs ?is "[]" env] full(1) by (simp cong: sum.case_cong del: upt_Suc)
  have dag: "dag_of env cs (root # new)"
    if "leaf_nodes env cs ?is = Inr new" "env_WrapObject env (links (map nd_Cid new)) = Inr root" for new root
  proof -
    have leaves: "map Inr new = map (\<lambda>i. makeDAGSimple env (links (leaf_links cs i))) ?is"
      using that(1) by (simp add: all_Inr_iff del: upt_Suc)
    then have "length new = ?n + 1" by (metis length_map length_upt diff_zero Suc_eq_plus1)
    with leaves that(2) False full(2) show ?thesis
      by (auto simp: dag_of_def makeDAGSimple_def concat_leaf_links leaf_links_def comp_def simp del: upt_Suc
          intro!: exI [of _ "map (leaf_links cs) ?is"])
  qed
  show ?thesis
    using False loop dag by (auto simp: makeDAG_def makeDAGSimple_def Let_def simp del: upt_Suc split: sum.splits)
qed

section \<open>The history of a session\<close>

text \<open>The size of a group of blocks, and the shard that has them.\<close>

definition blocks_size :: "ipld_node list \<Rightarrow> int" where
  "blocks_size g = (\<Sum>n\<leftarrow>g. int (length (nd_RawData n)))"

definition built_shard :: "PinOptions \<Rightarrow> peer_id list \<Rightarrow> ipld_node list \<Rightarrow> shard" where
  "built_shard opts allocs g =
     \<lparr>sh_allocations = allocs, sh_pinOptions = opts, sh_blocks = map IpldNodeToNodeWithMeta g, sh_closed = False,
      sh_closeOnce = False, sh_dagNode = links (map nd_Cid g), sh_currentSize = blocks_size g,
      sh_sizeLimit = po_ShardSize opts\<rparr>"

text \<open>A flushed shard: its blocks, its allocations, the nodes that link the blocks and the time of its pin.\<close>

record flushed =
  fl_blocks :: "ipld_node list"
  fl_allocs :: "peer_id list"
  fl_nodes :: "ipld_node list"
  fl_time :: gotime

abbreviation fl_root :: "flushed \<Rightarrow> cid" where
  "fl_root d \<equiv> nd_Cid (hd (fl_nodes d))"

definition fl_stream :: "flushed \<Rightarrow> peer_id list \<times> NodeWithMeta list" where
  "fl_stream d = (fl_allocs d, map IpldNodeToNodeWithMeta (fl_blocks d @ fl_nodes d))"

definition prev_root :: "flushed list \<Rightarrow> cid" where
  "prev_root ds = (if ds = [] then CidUndef else fl_root (last ds))"

definition fl_pin :: "PinOptions \<Rightarrow> flushed list \<Rightarrow> nat \<Rightarrow> Pin" where
  "fl_pin opts ds i =
     (let d = ds ! i
      in sent_pin (shard_Pin (fl_time d) (built_shard opts (fl_allocs d) (fl_blocks d)) i (prev_root (take i ds)) (fl_nodes d)))"

definition fl_ok :: "adder_env \<Rightarrow> int \<Rightarrow> flushed \<Rightarrow> bool" where
  "fl_ok env limit d \<longleftrightarrow>
     fl_blocks d \<noteq> [] \<and> blocks_size (fl_blocks d) < limit \<and> dag_of env (map nd_Cid (fl_blocks d)) (fl_nodes d)"

text \<open>The first block of a shard did not fit into the shard before it.\<close>

definition next_shard :: "int \<Rightarrow> ipld_node list \<Rightarrow> ipld_node list \<Rightarrow> bool" where
  "next_shard limit g h \<longleftrightarrow> limit \<le> blocks_size g + int (length (nd_RawData (hd h)))"

definition groups :: "flushed list \<Rightarrow> (peer_id list \<times> ipld_node list) option \<Rightarrow> ipld_node list list" where
  "groups ds cur = map fl_blocks ds @ (case cur of None \<Rightarrow> [] | Some (allocs, g) \<Rightarrow> [g])"

text \<open>Allocations are not empty.\<close>

definition allocates :: "adder_env \<Rightarrow> bool" where
  "allocates env \<longleftrightarrow> (\<forall>calls pin. env_BlockAllocate env calls pin \<noteq> Inr [])"

definition dgs_inv ::
  "adder_env \<Rightarrow> PinOptions \<Rightarrow> flushed list \<Rightarrow> (peer_id list \<times> ipld_node list) option \<Rightarrow> sharding_dgs \<Rightarrow> bool" where
  "dgs_inv env opts ds cur dgs \<longleftrightarrow>
     dg_addParams dgs = opts \<and>
     dg_currentShard dgs = map_option (\<lambda>(allocs, g). built_shard opts allocs g) cur \<and>
     (\<forall>allocs g. cur = Some (allocs, g) \<longrightarrow> g \<noteq> [] \<and> blocks_size g < po_ShardSize opts \<and> (allocates env \<longrightarrow> allocs \<noteq> [])) \<and>
     (\<forall>d\<in>set ds. fl_ok env (po_ShardSize opts) d) \<and>
     successively (next_shard (po_ShardSize opts)) (groups ds cur) \<and>
     dg_shards dgs = links (map fl_root ds) \<and> dg_previousShard dgs = prev_root ds \<and>
     streams (dg_calls dgs) = map fl_stream ds \<and>
     pinned (dg_calls dgs) = map (fl_pin opts ds) [0..<length ds]"

lemma blocks_size_simps [simp]:
  "blocks_size [] = 0" "blocks_size (g @ [n]) = blocks_size g + int (length (nd_RawData n))"
  by (simp_all add: blocks_size_def)

lemma blocks_size_nonneg: "0 \<le> blocks_size g"
  by (auto simp: blocks_size_def intro!: sum_list_nonneg)

lemma fl_pin_append [simp]: "i < length ds \<Longrightarrow> fl_pin opts (ds @ [d]) i = fl_pin opts ds i"
  by (simp add: fl_pin_def nth_append)

section \<open>Flushing a shard\<close>

lemma send_all_open:
  assumes "\<not> sh_closed sh"
  shows "\<exists>e sh' calls'. send_all env ns sh calls = Some (e, sh', calls') \<and>
    (\<exists>bs. sh' = sh\<lparr>sh_blocks := bs\<rparr> \<and> (e = None \<longrightarrow> bs = sh_blocks sh @ map IpldNodeToNodeWithMeta ns)) \<and>
    streams calls' = streams calls \<and> pinned calls' = pinned calls"
  using assms
proof (induction ns arbitrary: sh calls)
  case Nil
  then show ?case by (auto intro!: exI [of _ "sh_blocks sh"])
next
  case (Cons n ns)
  show ?case
  proof (cases "env_ctx env calls")
    case None
    let ?m = "IpldNodeToNodeWithMeta n"
    from Cons.IH [of "sh\<lparr>sh_blocks := sh_blocks sh @ [?m]\<rparr>" "calls @ [CallSend ?m]"] Cons.prems None show ?thesis
      by (auto simp: sendBlock_def Let_def)
  next
    case (Some e)
    then show ?thesis by (auto simp: sendBlock_def intro!: exI [of _ "sh_blocks sh"])
  qed
qed

text \<open>A flush of an open shard does not panic; it streams the blocks with the nodes that link them, and pins the root.\<close>

lemma Flush_built:
  shows "\<exists>r sh calls'. Flush env N prev (built_shard opts allocs g) calls = Some (r, sh, calls') \<and>
    (\<forall>c. r = Inr c \<longrightarrow> (\<exists>nodes now. dag_of env (map nd_Cid g) nodes \<and> c = nd_Cid (hd nodes) \<and>
       sh_currentSize sh = blocks_size g \<and>
       streams calls' = streams calls @ [(allocs, map IpldNodeToNodeWithMeta (g @ nodes))] \<and>
       pinned calls' = pinned calls @ [sent_pin (shard_Pin now (built_shard opts allocs g) N prev nodes)]))"
proof -
  let ?sh = "built_shard opts allocs g"
  from makeDAG_links [of env "map nd_Cid g"] obtain r where r: "makeDAG env (links (map nd_Cid g)) = Some r"
    "\<And>nodes. r = Inr nodes \<Longrightarrow> dag_of env (map nd_Cid g) nodes" by blast
  show ?thesis
  proof (cases r)
    case (Inl e)
    with r show ?thesis by (simp add: Flush_def built_shard_def)
  next
    case (Inr nodes)
    obtain e sh calls1 bs where s: "send_all env nodes ?sh calls = Some (e, sh, calls1)" "sh = ?sh\<lparr>sh_blocks := bs\<rparr>"
      "e = None \<longrightarrow> bs = sh_blocks ?sh @ map IpldNodeToNodeWithMeta nodes"
      "streams calls1 = streams calls" "pinned calls1 = pinned calls"
      using send_all_open [of ?sh env nodes calls] by (auto simp: built_shard_def)
    have pin: "shard_Pin now (sh\<lparr>sh_closeOnce := True, sh_closed := True\<rparr>) N prev nodes = shard_Pin now ?sh N prev nodes" for now
      using s(2) by (simp add: shard_Pin_def Let_def)
    show ?thesis
      using r Inr s pin
      by (cases e) (auto simp: Flush_def shard_Close_def close_blocks_def streamBlocks_def adder_Pin_def
          built_shard_def Let_def split: option.splits)
  qed
qed

section \<open>Adding blocks\<close>

definition small_block :: "PinOptions \<Rightarrow> ipld_node \<Rightarrow> bool" where
  "small_block opts n \<longleftrightarrow> po_ShardSize opts + int (length (nd_RawData n)) \<le> 2 ^ 64"

text \<open>What holds after a call that returns nil, when a panic is possible only under a condition.\<close>

definition outcome :: "bool \<Rightarrow> ('s \<Rightarrow> bool) \<Rightarrow> ('e option \<times> 's) option \<Rightarrow> bool" where
  "outcome panics P r \<longleftrightarrow>
     (case r of None \<Rightarrow> panics | Some (e, s) \<Rightarrow> (case e of None \<Rightarrow> P s | Some _ \<Rightarrow> True))"

lemma outcome_simps [simp]:
  "outcome b P None = b" "outcome b P (Some (Some e, s))" "outcome b P (Some (None, s)) = P s"
  by (simp_all add: outcome_def)

lemma outcome_mono: "outcome b P r \<Longrightarrow> (\<And>s. P s \<Longrightarrow> Q s) \<Longrightarrow> outcome b Q r"
  by (auto simp: outcome_def split: option.splits)

lemma size_no_wrap:
  assumes "blocks_size g < po_ShardSize opts" "small_block opts n"
  shows "wrap_uint64 (blocks_size g + int (length (nd_RawData n))) = blocks_size g + int (length (nd_RawData n))"
  using assms blocks_size_nonneg [of g] by (simp add: wrap_unsigned_def small_block_def)

lemma AddLink_built:
  assumes "blocks_size g < po_ShardSize opts" "small_block opts n"
  shows "(AddLink (nd_Cid n) (int (length (nd_RawData n))) (built_shard opts allocs g))
    \<lparr>sh_blocks := map IpldNodeToNodeWithMeta g @ [IpldNodeToNodeWithMeta n]\<rparr> = built_shard opts allocs (g @ [n])"
  using size_no_wrap [OF assms] map_put_links [of "map nd_Cid g" "nd_Cid n"]
  by (simp add: AddLink_def built_shard_def Let_def)

lemma flush_inv:
  assumes inv: "dgs_inv env opts ds (Some (allocs, g)) dgs"
  shows "\<exists>r dgs'. flushCurrentShard env dgs = Some (r, dgs') \<and>
    (\<forall>c. r = Inr c \<longrightarrow> dg_addedSet dgs' = dg_addedSet dgs \<and>
       (\<exists>d. fl_blocks d = g \<and> dgs_inv env opts (ds @ [d]) None dgs'))"
proof -
  let ?N = "length ds"
  from Flush_built [of env ?N "prev_root ds" opts allocs g "dg_calls dgs"]
  obtain r sh calls' where f: "Flush env ?N (prev_root ds) (built_shard opts allocs g) (dg_calls dgs) = Some (r, sh, calls')"
    and c: "\<And>c. r = Inr c \<Longrightarrow> \<exists>nodes now. dag_of env (map nd_Cid g) nodes \<and> c = nd_Cid (hd nodes) \<and>
       sh_currentSize sh = blocks_size g \<and>
       streams calls' = streams (dg_calls dgs) @ [(allocs, map IpldNodeToNodeWithMeta (g @ nodes))] \<and>
       pinned calls' = pinned (dg_calls dgs) @ [sent_pin (shard_Pin now (built_shard opts allocs g) ?N (prev_root ds) nodes)]"
    by blast
  show ?thesis
  proof (cases r)
    case (Inl e)
    with inv f show ?thesis by (simp add: dgs_inv_def flushCurrentShard_def)
  next
    case (Inr c)
    from c [OF Inr] obtain nodes now where n: "dag_of env (map nd_Cid g) nodes" "c = nd_Cid (hd nodes)"
       "streams calls' = streams (dg_calls dgs) @ [(allocs, map IpldNodeToNodeWithMeta (g @ nodes))]"
       "pinned calls' = pinned (dg_calls dgs) @ [sent_pin (shard_Pin now (built_shard opts allocs g) ?N (prev_root ds) nodes)]"
      by blast
    let ?d = "\<lparr>fl_blocks = g, fl_allocs = allocs, fl_nodes = nodes, fl_time = now\<rparr>"
    have "map_put (nat_digits (length ds)) c (links (map fl_root ds)) = links (map fl_root (ds @ [?d]))"
      using map_put_links [of "map fl_root ds"] n(2) by simp
    moreover have "fl_pin opts (ds @ [?d]) ?N = sent_pin (shard_Pin now (built_shard opts allocs g) ?N (prev_root ds) nodes)"
      by (simp add: fl_pin_def)
    ultimately show ?thesis
      using inv f Inr n
      by (auto simp: dgs_inv_def flushCurrentShard_def sendOutput_def Let_def fl_ok_def fl_stream_def prev_root_def
          groups_def intro!: exI [of _ ?d])
  qed
qed

lemma ingest_fits:
  assumes "dgs_inv env opts ds (Some (allocs, g)) dgs" "small_block opts n"
    "blocks_size g + int (length (nd_RawData n)) < po_ShardSize opts"
  shows "outcome False (\<lambda>dgs'. dg_addedSet dgs' = dg_addedSet dgs \<and> dgs_inv env opts ds (Some (allocs, g @ [n])) dgs')
    (ingestBlock env n dgs)"
proof -
  have sz: "blocks_size g < po_ShardSize opts" using assms(1) by (simp add: dgs_inv_def)
  have succ: "successively (next_shard L) (groups ds (Some (allocs, g)))
      \<Longrightarrow> g \<noteq> [] \<Longrightarrow> successively (next_shard L) (groups ds (Some (allocs, g @ [n])))" for L
    by (auto simp: groups_def successively_append_iff next_shard_def)
  show ?thesis
  proof (cases "env_ctx env (dg_calls dgs)")
    case (Some e)
    with assms size_no_wrap [OF sz assms(2)] show ?thesis
      by (auto simp: ingestBlock.simps [of env n dgs] current_shard_def dgs_inv_def sendBlock_def built_shard_def Let_def)
  next
    case None
    with assms size_no_wrap [OF sz assms(2)] AddLink_built [OF sz assms(2), of allocs] succ show ?thesis
      by (auto simp: ingestBlock.simps [of env n dgs] current_shard_def dgs_inv_def sendBlock_def AddLink_def built_shard_def
          Let_def)
  qed
qed

lemma ingest_new:
  assumes "dgs_inv env opts ds None dgs" "small_block opts n"
    "ds \<noteq> [] \<longrightarrow> next_shard (po_ShardSize opts) (fl_blocks (last ds)) [n]"
  shows "outcome (\<not> allocates env)
    (\<lambda>dgs'. dg_addedSet dgs' = dg_addedSet dgs \<and> (\<exists>allocs. dgs_inv env opts ds (Some (allocs, [n])) dgs'))
    (ingestBlock env n dgs)"
proof -
  have wrap: "0 < po_ShardSize opts \<Longrightarrow> wrap_uint64 (int (length (nd_RawData n))) = int (length (nd_RawData n))"
    using size_no_wrap [of "[]" opts n] assms(2) by simp
  have neg: "\<not> wrap_uint64 (int (length (nd_RawData n))) < po_ShardSize opts" if "\<not> 0 < po_ShardSize opts"
    using that wrap_unsigned_bounds [of 64 "int (length (nd_RawData n))"] by linarith
  have succ: "successively (next_shard (po_ShardSize opts)) (groups ds None)
      \<Longrightarrow> successively (next_shard (po_ShardSize opts)) (groups ds (Some (allocs, [n])))" for allocs
    using assms(3) by (cases "ds = []") (simp_all add: groups_def successively_append_iff last_map)
  have built: "(AddLink (nd_Cid n) (int (length (nd_RawData n))) (built_shard opts allocs []))
    \<lparr>sh_blocks := [IpldNodeToNodeWithMeta n]\<rparr> = built_shard opts allocs [n]" if "0 < po_ShardSize opts" for allocs
    using AddLink_built [of "[]" opts n allocs] that assms(2) by simp
  have cur: "current_shard env dgs =
      (case BlockAllocate env opts (dg_calls dgs) of
         (Inl e, calls) \<Rightarrow> Some (Inl e, dgs\<lparr>dg_calls := calls\<rparr>)
       | (Inr allocs, calls) \<Rightarrow>
           if 0 < po_ReplicationFactorMin opts \<and> allocs = [] then None
           else Some (Inr (built_shard opts allocs []),
                  dgs\<lparr>dg_currentShard := Some (built_shard opts allocs []), dg_calls := calls\<rparr>))"
    using assms(1) by (auto simp: current_shard_def newShard_def dgs_inv_def built_shard_def split: sum.splits prod.splits)
  have calls: "streams (snd (BlockAllocate env opts cs)) = streams cs" "pinned (snd (BlockAllocate env opts cs)) = pinned cs" for cs
    by (simp_all add: BlockAllocate_def Let_def)
  obtain r calls' where b: "BlockAllocate env opts (dg_calls dgs) = (r, calls')" by fastforce
  show ?thesis
  proof (cases r)
    case (Inl e)
    with b cur show ?thesis by (simp add: ingestBlock.simps [of env n dgs])
  next
    case (Inr allocs)
    then have "allocs = [] \<Longrightarrow> \<not> allocates env"
      using b by (auto simp: BlockAllocate_def allocates_def Let_def)
    with b cur Inr assms(1) wrap neg succ [of allocs] built [of allocs] calls [of "dg_calls dgs"] show ?thesis
      by (cases "0 < po_ShardSize opts"; cases "env_ctx env calls'")
        (auto simp: ingestBlock.simps [of env n dgs] dgs_inv_def sendBlock_def Let_def built_shard_def AddLink_def
          split: if_splits)
  qed
qed

lemma ingest_full:
  assumes "dgs_inv env opts ds (Some (allocs, g)) dgs" "small_block opts n"
    "\<not> blocks_size g + int (length (nd_RawData n)) < po_ShardSize opts"
  shows "ingestBlock env n dgs =
    (if blocks_size g = 0 then Some (Some ''block doesn't fit in empty shard: shard size too small?'', dgs)
     else case flushCurrentShard env dgs of
            None \<Rightarrow> None | Some (Inl e, dgs) \<Rightarrow> Some (Some e, dgs) | Some (Inr c, dgs) \<Rightarrow> ingestBlock env n dgs)"
proof -
  have sz: "blocks_size g < po_ShardSize opts" using assms(1) by (simp add: dgs_inv_def)
  from assms(1,3) size_no_wrap [OF sz assms(2)] show ?thesis
    by (simp add: ingestBlock.simps [of env n dgs] current_shard_def dgs_inv_def built_shard_def Let_def)
qed

text \<open>An invariant between calls: there is no current shard only at the start.\<close>

definition session_inv ::
  "adder_env \<Rightarrow> PinOptions \<Rightarrow> flushed list \<Rightarrow> (peer_id list \<times> ipld_node list) option \<Rightarrow> sharding_dgs \<Rightarrow> bool" where
  "session_inv env opts ds cur dgs \<longleftrightarrow> dgs_inv env opts ds cur dgs \<and> (cur = None \<longrightarrow> ds = [])"

definition grown :: "adder_env \<Rightarrow> PinOptions \<Rightarrow> ipld_node list \<Rightarrow> sharding_dgs \<Rightarrow> bool" where
  "grown env opts ns dgs \<longleftrightarrow> (\<exists>ds cur. session_inv env opts ds cur dgs \<and> concat (groups ds cur) = ns)"

lemma grownI: "dgs_inv env opts ds (Some (allocs, g)) dgs \<Longrightarrow> concat (groups ds (Some (allocs, g))) = ns \<Longrightarrow> grown env opts ns dgs"
  by (auto simp: grown_def session_inv_def)

lemma ingest_step:
  assumes inv: "session_inv env opts ds cur dgs" and n: "small_block opts n"
  shows "outcome (\<not> allocates env)
    (\<lambda>dgs'. dg_addedSet dgs' = dg_addedSet dgs \<and> grown env opts (concat (groups ds cur) @ [n]) dgs') (ingestBlock env n dgs)"
proof (cases cur)
  case None
  with inv have i: "dgs_inv env opts [] None dgs" "ds = []" by (auto simp: session_inv_def)
  from ingest_new [OF i(1) n] show ?thesis
    by (rule outcome_mono) (use None i(2) in \<open>auto simp: groups_def intro: grownI\<close>)
next
  case (Some a)
  obtain allocs g where a: "cur = Some (allocs, g)" using Some by fastforce
  with inv have i: "dgs_inv env opts ds (Some (allocs, g)) dgs" by (simp add: session_inv_def)
  show ?thesis
  proof (cases "blocks_size g + int (length (nd_RawData n)) < po_ShardSize opts")
    case True
    from ingest_fits [OF i n this] have "outcome (\<not> allocates env)
      (\<lambda>dgs'. dg_addedSet dgs' = dg_addedSet dgs \<and> dgs_inv env opts ds (Some (allocs, g @ [n])) dgs') (ingestBlock env n dgs)"
      by (auto simp: outcome_def split: option.splits)
    then show ?thesis by (rule outcome_mono) (use a in \<open>auto simp: groups_def intro: grownI\<close>)
  next
    case False
    from flush_inv [OF i] obtain r dgs1 where f: "flushCurrentShard env dgs = Some (r, dgs1)"
      "\<And>c. r = Inr c \<Longrightarrow> dg_addedSet dgs1 = dg_addedSet dgs \<and> (\<exists>d. fl_blocks d = g \<and> dgs_inv env opts (ds @ [d]) None dgs1)"
      by blast
    show ?thesis
    proof (cases "blocks_size g = 0 \<or> (\<exists>e. r = Inl e)")
      case True
      with ingest_full [OF i n False] f(1) show ?thesis by auto
    next
      case flushed: False
      then obtain c where r: "r = Inr c" "blocks_size g \<noteq> 0" by (cases r) auto
      from f(2) [OF r(1)] obtain d where d: "fl_blocks d = g" "dgs_inv env opts (ds @ [d]) None dgs1"
        "dg_addedSet dgs1 = dg_addedSet dgs" by blast
      from d(1) False have nx: "ds @ [d] \<noteq> [] \<longrightarrow> next_shard (po_ShardSize opts) (fl_blocks (last (ds @ [d]))) [n]"
        by (simp add: next_shard_def)
      from ingest_full [OF i n False] f(1) r have "ingestBlock env n dgs = ingestBlock env n dgs1" by simp
      with ingest_new [OF d(2) n nx] show ?thesis
        by (auto elim!: outcome_mono intro: grownI simp: groups_def d(1,3) a)
    qed
  qed
qed

text \<open>The blocks of a list whose CID has not been seen before.\<close>

fun firsts :: "cid set \<Rightarrow> ipld_node list \<Rightarrow> ipld_node list" where
  "firsts seen [] = []"
| "firsts seen (n # ns) = (if nd_Cid n \<in> seen then firsts seen ns else n # firsts (insert (nd_Cid n) seen) ns)"

lemma firsts_distinct: "distinct (map nd_Cid (firsts seen ns)) \<and> nd_Cid ` set (firsts seen ns) = nd_Cid ` set ns - seen"
  by (induction seen ns rule: firsts.induct) auto

lemma grown_added [simp]: "grown env opts ns (dgs\<lparr>dg_addedSet := s\<rparr>) = grown env opts ns dgs"
  by (simp add: grown_def session_inv_def dgs_inv_def)

lemma Add_grown:
  assumes "grown env opts ns dgs" "small_block opts n" "nd_Cid n \<notin> set (dg_addedSet dgs)"
  shows "outcome (\<not> allocates env)
    (\<lambda>dgs'. dg_addedSet dgs' = nd_Cid n # dg_addedSet dgs \<and> grown env opts (ns @ [n]) dgs') (sharding_Add env n dgs)"
proof -
  let ?dgs = "dgs\<lparr>dg_addedSet := nd_Cid n # dg_addedSet dgs\<rparr>"
  have "grown env opts ns ?dgs" using assms(1) by simp
  then obtain ds cur where "session_inv env opts ds cur ?dgs" "concat (groups ds cur) = ns" unfolding grown_def by blast
  with ingest_step [of env opts ds cur ?dgs n] assms(2,3) show ?thesis by (simp add: sharding_Add_def)
qed

lemma AddMany_grown:
  "grown env opts ms dgs \<Longrightarrow> \<forall>n\<in>set ns. small_block opts n \<Longrightarrow>
    outcome (\<not> allocates env) (grown env opts (ms @ firsts (set (dg_addedSet dgs)) ns)) (sharding_AddMany env ns dgs)"
proof (induction ns arbitrary: ms dgs)
  case (Cons n ns)
  show ?case
  proof (cases "nd_Cid n \<in> set (dg_addedSet dgs)")
    case True
    with Cons show ?thesis by (simp add: sharding_Add_def)
  next
    case False
    from Add_grown [OF Cons.prems(1) _ False] Cons.prems(2) have a: "outcome (\<not> allocates env)
      (\<lambda>dgs'. dg_addedSet dgs' = nd_Cid n # dg_addedSet dgs \<and> grown env opts (ms @ [n]) dgs') (sharding_Add env n dgs)" by simp
    show ?thesis
    proof (cases "sharding_Add env n dgs")
      case None
      with a show ?thesis by simp
    next
      case (Some p)
      obtain e dgs1 where p: "p = (e, dgs1)" by fastforce
      with a Some False Cons.IH [of "ms @ [n]" dgs1] Cons.prems(2) show ?thesis by (cases e) simp_all
    qed
  qed
qed simp

lemma grown_New: "grown env (opts\<lparr>po_Mode := PinModeRecursive\<rparr>) [] (sharding_New opts out)"
  unfolding grown_def
  by (intro exI [of _ "[]"] exI [of _ None]) (simp add: session_inv_def dgs_inv_def sharding_New_def groups_def prev_root_def)

section \<open>Finishing a session\<close>

text \<open>An RPC call with a context that has been cancelled fails.\<close>

definition cancel_stops :: "adder_env \<Rightarrow> bool" where
  "cancel_stops env \<longleftrightarrow> (\<forall>calls pin. CtxDone \<in> set calls \<longrightarrow> env_Pin env calls pin \<noteq> None)"

lemma put_nodes_calls:
  "put_nodes env ns calls = (ms, calls') \<Longrightarrow>
    streams calls' = streams calls \<and> pinned calls' = pinned calls \<and>
    (CtxDone \<in> set calls' \<or> ms = map IpldNodeToNodeWithMeta ns)"
  by (induction ns arbitrary: calls ms) (auto split: option.splits prod.splits simp: Let_def)

text \<open>The calls of \<open>Finalize\<close> after the last shard.\<close>

lemma Finalize_calls:
  assumes "cancel_stops env" "sharding_Finalize env root dgs = Some (Inr r, dgs')"
  shows "\<exists>c dgs1 dag t1 t2. flushCurrentShard env dgs = Some (Inr c, dgs1) \<and> r = root \<and>
    makeDAG env (dg_shards dgs1) = Some (Inr dag) \<and>
    streams (dg_calls dgs') = streams (dg_calls dgs1) @ [([[]], map IpldNodeToNodeWithMeta dag)] \<and>
    pinned (dg_calls dgs') = pinned (dg_calls dgs1) @
      [sent_pin (clusterDAG_Pin t1 (nd_Cid (hd dag)) (dg_addParams dgs1) root),
       sent_pin (meta_Pin t2 root (dg_addParams dgs1) (nd_Cid (hd dag)))]"
proof -
  from assms(2) obtain c dgs1 dag where 1: "flushCurrentShard env dgs = Some (Inr c, dgs1)"
    "makeDAG env (dg_shards dgs1) = Some (Inr dag)"
    by (auto simp: sharding_Finalize_def split: option.splits sum.splits prod.splits)
  obtain ms calls where p: "put_nodes env dag (dg_calls dgs1) = (ms, calls)" by fastforce
  let ?p1 = "sent_pin (clusterDAG_Pin (env_now env (calls @ [CallStream [[]] ms])) (nd_Cid (hd dag)) (dg_addParams dgs1) root)"
  from assms(2) 1 p have 2: "env_Pin env (calls @ [CallStream [[]] ms]) ?p1 = None" "r = root"
    "\<exists>t2. dg_calls dgs' = calls @ [CallStream [[]] ms, CallPin ?p1,
       CallPin (sent_pin (meta_Pin t2 root (dg_addParams dgs1) (nd_Cid (hd dag))))]"
    by (auto simp: sharding_Finalize_def streamBlocks_def adder_Pin_def sendOutput_def Let_def
        split: option.splits if_splits)
  have "CtxDone \<notin> set calls"
    using 2(1) assms(1) [unfolded cancel_stops_def, rule_format, of "calls @ [CallStream [[]] ms]" ?p1] by auto
  with put_nodes_calls [OF p] 1 2 show ?thesis by auto
qed

lemma Finalize_grown:
  assumes "cancel_stops env" "grown env opts ns dgs1" "sharding_Finalize env root dgs1 = Some (Inr r, dgs)"
  shows "\<exists>ds dag t1 t2. r = root \<and> concat (map fl_blocks ds) = ns \<and>
    (\<forall>d\<in>set ds. fl_ok env (po_ShardSize opts) d) \<and> successively (next_shard (po_ShardSize opts)) (map fl_blocks ds) \<and>
    dag_of env (map fl_root ds) dag \<and>
    streams (dg_calls dgs) = map fl_stream ds @ [([[]], map IpldNodeToNodeWithMeta dag)] \<and>
    pinned (dg_calls dgs) = map (fl_pin opts ds) [0..<length ds] @
      [sent_pin (clusterDAG_Pin t1 (nd_Cid (hd dag)) opts root), sent_pin (meta_Pin t2 root opts (nd_Cid (hd dag)))]"
proof -
  from assms(2) obtain ds cur where i: "session_inv env opts ds cur dgs1" "concat (groups ds cur) = ns"
    by (auto simp: grown_def)
  from Finalize_calls [OF assms(1,3)] obtain c dgs2 dag t1 t2 where
    f: "flushCurrentShard env dgs1 = Some (Inr c, dgs2)" "r = root" "makeDAG env (dg_shards dgs2) = Some (Inr dag)"
    "streams (dg_calls dgs) = streams (dg_calls dgs2) @ [([[]], map IpldNodeToNodeWithMeta dag)]"
    "pinned (dg_calls dgs) = pinned (dg_calls dgs2) @
      [sent_pin (clusterDAG_Pin t1 (nd_Cid (hd dag)) (dg_addParams dgs2) root),
       sent_pin (meta_Pin t2 root (dg_addParams dgs2) (nd_Cid (hd dag)))]" by blast
  from f(1) i(1) obtain allocs g where cur: "cur = Some (allocs, g)"
    by (cases cur) (auto simp: session_inv_def dgs_inv_def flushCurrentShard_def)
  with i(1) have "dgs_inv env opts ds (Some (allocs, g)) dgs1" by (simp add: session_inv_def)
  from flush_inv [OF this] f(1) obtain d where d: "fl_blocks d = g" "dgs_inv env opts (ds @ [d]) None dgs2" by auto
  from d(2) have inv: "dg_addParams dgs2 = opts" "\<forall>d\<in>set (ds @ [d]). fl_ok env (po_ShardSize opts) d"
    "successively (next_shard (po_ShardSize opts)) (map fl_blocks (ds @ [d]))" "dg_shards dgs2 = links (map fl_root (ds @ [d]))"
    "streams (dg_calls dgs2) = map fl_stream (ds @ [d])" "pinned (dg_calls dgs2) = map (fl_pin opts (ds @ [d])) [0..<length (ds @ [d])]"
    by (simp_all add: dgs_inv_def groups_def del: map_append upt_Suc)
  from makeDAG_links [of env "map fl_root (ds @ [d])"] f(3) inv(4) have dag: "dag_of env (map fl_root (ds @ [d])) dag"
    by auto
  have "concat (map fl_blocks (ds @ [d])) = ns" using i(2) cur d(1) by (simp add: groups_def)
  with f(2,4,5) inv dag show ?thesis by metis
qed

lemma session_run:
  assumes "\<forall>n\<in>set nodes. small_block opts n"
  shows "outcome (\<not> allocates env) (grown env (opts\<lparr>po_Mode := PinModeRecursive\<rparr>) (firsts {} nodes))
    (sharding_AddMany env nodes (sharding_New opts out))"
  using AddMany_grown [OF grown_New, of nodes opts env out] assms by (simp add: small_block_def sharding_New_def)

text \<open>
  C9. A sharding session. When adding blocks and finishing succeed, the blocks, each taken once, have been cut into
  consecutive groups, one per shard: every group is smaller than the shard size, and each was ended by a block that
  would not have fitted. The blocks of a group and the nodes that link them have been streamed to the allocations of its
  shard. Each shard is pinned with a reference to the one before it; the cluster DAG, which links all shards, is
  streamed to the local peer and pinned everywhere with a reference to the root, and the root gets a meta pin that refers to the cluster DAG.
  Nothing else is streamed or pinned.
\<close>

theorem sharding_session:
  assumes "cancel_stops env" "\<forall>n\<in>set nodes. small_block opts n"
    and "sharding_AddMany env nodes (sharding_New opts out) = Some (None, dgs1)"
    and "sharding_Finalize env root dgs1 = Some (Inr r, dgs)"
  shows "\<exists>ds dag t1 t2. r = root \<and> concat (map fl_blocks ds) = firsts {} nodes \<and>
    (\<forall>d\<in>set ds. fl_ok env (po_ShardSize opts) d) \<and> successively (next_shard (po_ShardSize opts)) (map fl_blocks ds) \<and>
    dag_of env (map fl_root ds) dag \<and>
    streams (dg_calls dgs) = map fl_stream ds @ [([[]], map IpldNodeToNodeWithMeta dag)] \<and>
    pinned (dg_calls dgs) = map (fl_pin (opts\<lparr>po_Mode := PinModeRecursive\<rparr>) ds) [0..<length ds] @
      [sent_pin (clusterDAG_Pin t1 (nd_Cid (hd dag)) (opts\<lparr>po_Mode := PinModeRecursive\<rparr>) root),
       sent_pin (meta_Pin t2 root (opts\<lparr>po_Mode := PinModeRecursive\<rparr>) (nd_Cid (hd dag)))]"
proof -
  let ?opts = "opts\<lparr>po_Mode := PinModeRecursive\<rparr>"
  from session_run [OF assms(2), of env out] assms(3) have "grown env ?opts (firsts {} nodes) dgs1" by simp
  from Finalize_grown [OF assms(1) this assms(4)] show ?thesis by simp
qed

definition example_adder_env :: adder_env where
  "example_adder_env =
     \<lparr>env_now = (\<lambda>calls. int (length calls)), env_ctx = (\<lambda>calls. None),
      env_BlockAllocate = (\<lambda>calls pin. Inr [''p1'', ''p2'']), env_BlockStream = (\<lambda>calls ds bs. map (\<lambda>d. None) ds),
      env_Pin = (\<lambda>calls pin. if CtxDone \<in> set calls then Some ''context canceled'' else None),
      env_WrapObject = (\<lambda>obj. Inr \<lparr>nd_Cid = CHR ''d'' # concat (map snd obj), nd_RawData = concat (map snd obj), nd_Size = 1\<rparr>)\<rparr>"

definition example_block :: "cid \<Rightarrow> bytes \<Rightarrow> ipld_node" where
  "example_block c b = \<lparr>nd_Cid = c, nd_RawData = b, nd_Size = int (length b)\<rparr>"

definition example_blocks :: "ipld_node list" where
  "example_blocks = [example_block ''a'' ''123456'', example_block ''b'' ''1234567'', example_block ''a'' ''123456'',
     example_block ''c'' ''12'']"

definition example_add_opts :: PinOptions where
  "example_add_opts = zero_PinOptions\<lparr>po_ReplicationFactorMin := 1, po_ReplicationFactorMax := 2, po_ShardSize := 10\<rparr>"

definition example_added :: sharding_dgs where
  "example_added = snd (the (sharding_AddMany example_adder_env example_blocks (sharding_New example_add_opts True)))"

definition example_finalized :: sharding_dgs where
  "example_finalized = snd (the (sharding_Finalize example_adder_env ''c'' example_added))"

lemma example_session:
  "cancel_stops example_adder_env" "\<forall>n\<in>set example_blocks. small_block example_add_opts n"
  "sharding_AddMany example_adder_env example_blocks (sharding_New example_add_opts True) = Some (None, example_added)"
  "sharding_Finalize example_adder_env ''c'' example_added = Some (Inr ''c'', example_finalized)"
proof -
  show "cancel_stops example_adder_env" by (simp add: cancel_stops_def example_adder_env_def)
  show "\<forall>n\<in>set example_blocks. small_block example_add_opts n" by code_simp
  show "sharding_AddMany example_adder_env example_blocks (sharding_New example_add_opts True) = Some (None, example_added)"
    by code_simp
  show "sharding_Finalize example_adder_env ''c'' example_added = Some (Inr ''c'', example_finalized)" by code_simp
qed

theorem sharding_session_witness:
  "\<exists>ds. concat (map fl_blocks ds) = firsts {} example_blocks \<and>
    (\<forall>d\<in>set ds. fl_ok example_adder_env 10 d) \<and> fst (last (streams (dg_calls example_finalized))) = [[]]"
proof -
  have "po_ShardSize example_add_opts = 10" by (simp add: example_add_opts_def)
  with sharding_session [OF example_session] show ?thesis by auto
qed

section \<open>When a session succeeds\<close>

text \<open>
  An environment in which every call succeeds: the context is not cancelled, there are allocations, at least one
  destination takes the blocks, pins are accepted and objects can be encoded.
\<close>

definition calm :: "adder_env \<Rightarrow> bool" where
  "calm env \<longleftrightarrow>
     (\<forall>calls. env_ctx env calls = None) \<and>
     (\<forall>calls pin. \<exists>a as. env_BlockAllocate env calls pin = Inr (a # as)) \<and>
     (\<forall>calls ds bs. ds \<noteq> [] \<longrightarrow> length (filter (\<lambda>e. e \<noteq> None) (env_BlockStream env calls ds bs)) < length ds) \<and>
     (\<forall>calls pin. env_Pin env calls pin = None) \<and> (\<forall>obj. \<exists>n. env_WrapObject env obj = Inr n)"

lemma calm_allocates: "calm env \<Longrightarrow> allocates env"
  unfolding calm_def allocates_def by (metis list.distinct(1) sum.inject(2))

lemma calm_stream:
  assumes "calm env" "ds \<noteq> []"
  shows "streamBlocks env ds bs calls = (None, calls @ [CallStream ds bs])"
  using assms(1) [unfolded calm_def, THEN conjunct2, THEN conjunct2, THEN conjunct1, rule_format, OF assms(2), of calls bs]
  by (simp add: streamBlocks_def Let_def)

lemma calm_pin: "calm env \<Longrightarrow> adder_Pin env pin calls = (None, calls @ [CallPin (sent_pin pin)])"
  by (simp add: adder_Pin_def calm_def)

lemma wrap_makeDAG:
  assumes "\<forall>obj. \<exists>n. env_WrapObject env obj = Inr n"
  shows "\<exists>nodes. makeDAG env (links cs) = Some (Inr nodes)"
proof -
  have wrap: "\<exists>n. makeDAGSimple env obj = Inr n" for obj using assms by (simp add: makeDAGSimple_def)
  have leaves: "\<exists>new. leaf_nodes env cs is = Inr new" for "is"
  proof (induction "is")
    case (Cons i "is")
    with wrap [of "links (leaf_links cs i)"] show ?case by auto
  qed simp
  show ?thesis
  proof (cases "length cs \<le> MaxLinks")
    case True
    with wrap [of "links cs"] show ?thesis by (auto simp: makeDAG_def)
  next
    case False
    let ?n = "length cs div MaxLinks"
    from leaves obtain new where new: "leaf_nodes env cs [0..<Suc ?n] = Inr new" by blast
    then have "leaves_loop env (links cs) ?n [0..<Suc ?n] [] [] = Some (Inr (links (map nd_Cid new), new))"
      using leaves_loop_links [of ?n cs "[0..<Suc ?n]" "[]" env] by (simp del: upt_Suc)
    moreover from wrap obtain root where "makeDAGSimple env (links (map nd_Cid new)) = Inr root" by blast
    ultimately show ?thesis using False by (simp add: makeDAG_def Let_def del: upt_Suc)
  qed
qed

lemma calm_makeDAG: "calm env \<Longrightarrow> \<exists>nodes. makeDAG env (links cs) = Some (Inr nodes)"
  by (rule wrap_makeDAG) (simp add: calm_def)

lemma calm_send_all:
  "calm env \<Longrightarrow> \<not> sh_closed sh \<Longrightarrow> \<exists>bs calls'. send_all env ns sh calls = Some (None, sh\<lparr>sh_blocks := bs\<rparr>, calls')"
proof (induction ns arbitrary: sh calls)
  case Nil
  then show ?case by (auto intro!: exI [of _ "sh_blocks sh"])
next
  case (Cons n ns)
  then have "env_ctx env calls = None" by (simp add: calm_def)
  with Cons.IH [of "sh\<lparr>sh_blocks := sh_blocks sh @ [IpldNodeToNodeWithMeta n]\<rparr>" "calls @ [CallSend (IpldNodeToNodeWithMeta n)]"]
    Cons.prems show ?case by (auto simp: sendBlock_def Let_def)
qed

lemma calm_Flush:
  assumes "calm env" "allocs \<noteq> []"
  shows "\<exists>c sh calls'. Flush env N prev (built_shard opts allocs g) calls = Some (Inr c, sh, calls')"
proof -
  from calm_makeDAG [OF assms(1)] obtain nodes where m: "makeDAG env (links (map nd_Cid g)) = Some (Inr nodes)" by blast
  obtain bs calls' where s: "send_all env nodes (built_shard opts allocs g) calls = Some (None, (built_shard opts allocs g)\<lparr>sh_blocks := bs\<rparr>, calls')"
    using calm_send_all [OF assms(1), of "built_shard opts allocs g" nodes calls] by (auto simp: built_shard_def)
  have "env_ctx env calls' = None" using assms(1) by (simp add: calm_def)
  with m s assms show ?thesis
    by (simp add: Flush_def built_shard_def shard_Close_def close_blocks_def calm_stream calm_pin)
qed

lemma calm_flush:
  assumes "calm env" "dgs_inv env opts ds (Some (allocs, g)) dgs"
  shows "\<exists>c dgs'. flushCurrentShard env dgs = Some (Inr c, dgs')"
proof -
  have "allocs \<noteq> []" using assms calm_allocates by (simp add: dgs_inv_def)
  from calm_Flush [OF assms(1) this, of "length ds" "prev_root ds" opts g "dg_calls dgs"] assms(2) show ?thesis
    by (auto simp: flushCurrentShard_def dgs_inv_def Let_def)
qed

lemma calm_ingest_new:
  assumes "calm env" "dgs_inv env opts ds None dgs" "small_block opts n" "int (length (nd_RawData n)) < po_ShardSize opts"
  shows "\<exists>dgs'. ingestBlock env n dgs = Some (None, dgs')"
proof -
  let ?pin = "PinWithOpts (env_now env (dg_calls dgs)) CidUndef opts"
  from assms(1) obtain a as where a: "env_BlockAllocate env (dg_calls dgs) ?pin = Inr (a # as)" unfolding calm_def by blast
  have ctx: "env_ctx env calls = None" for calls using assms(1) by (simp add: calm_def)
  have "0 < po_ShardSize opts" using assms(4) by linarith
  then have "wrap_uint64 (int (length (nd_RawData n))) = int (length (nd_RawData n))"
    using size_no_wrap [of "[]" opts n] assms(3) by simp
  with a ctx assms(2,4) show ?thesis
    by (simp add: ingestBlock.simps [of env n dgs] current_shard_def newShard_def BlockAllocate_def dgs_inv_def sendBlock_def
        AddLink_def Let_def)
qed

lemma calm_ingest:
  assumes "calm env" "session_inv env opts ds cur dgs" "small_block opts n" "int (length (nd_RawData n)) < po_ShardSize opts"
  shows "\<exists>dgs'. ingestBlock env n dgs = Some (None, dgs')"
proof (cases cur)
  case None
  with assms(2) have "dgs_inv env opts ds None dgs" unfolding session_inv_def by blast
  from calm_ingest_new [OF assms(1) this assms(3,4)] show ?thesis .
next
  case (Some a)
  then obtain allocs g where "cur = Some (allocs, g)" by fastforce
  with assms(2) have i: "dgs_inv env opts ds (Some (allocs, g)) dgs" by (simp add: session_inv_def)
  show ?thesis
  proof (cases "blocks_size g + int (length (nd_RawData n)) < po_ShardSize opts")
    case True
    have sz: "blocks_size g < po_ShardSize opts" using i by (simp add: dgs_inv_def)
    have "env_ctx env (dg_calls dgs) = None" using assms(1) by (simp add: calm_def)
    with i True size_no_wrap [OF sz assms(3)] show ?thesis
      by (simp add: ingestBlock.simps [of env n dgs] current_shard_def dgs_inv_def sendBlock_def built_shard_def AddLink_def Let_def)
  next
    case False
    from calm_flush [OF assms(1) i] obtain c dgs1 where f: "flushCurrentShard env dgs = Some (Inr c, dgs1)" by blast
    with flush_inv [OF i] obtain d where d: "dgs_inv env opts (ds @ [d]) None dgs1" by auto
    have "blocks_size g \<noteq> 0" using False assms(4) by linarith
    with ingest_full [OF i assms(3) False] f have "ingestBlock env n dgs = ingestBlock env n dgs1" by simp
    with calm_ingest_new [OF assms(1) d assms(3,4)] show ?thesis by simp
  qed
qed

lemma calm_AddMany:
  assumes "calm env"
  shows "grown env opts ms dgs \<Longrightarrow> \<forall>n\<in>set ns. small_block opts n \<Longrightarrow>
    \<forall>n\<in>set (firsts (set (dg_addedSet dgs)) ns). int (length (nd_RawData n)) < po_ShardSize opts \<Longrightarrow>
    \<exists>dgs'. sharding_AddMany env ns dgs = Some (None, dgs')"
proof (induction ns arbitrary: ms dgs)
  case (Cons n ns)
  show ?case
  proof (cases "nd_Cid n \<in> set (dg_addedSet dgs)")
    case True
    with Cons show ?thesis by (simp add: sharding_Add_def)
  next
    case False
    let ?dgs = "dgs\<lparr>dg_addedSet := nd_Cid n # dg_addedSet dgs\<rparr>"
    have "grown env opts ms ?dgs" using Cons.prems(1) by simp
    then obtain ds cur where "session_inv env opts ds cur ?dgs" unfolding grown_def by blast
    from calm_ingest [OF assms this, of n] Cons.prems False obtain dgs1 where 1: "sharding_Add env n dgs = Some (None, dgs1)"
      by (auto simp: sharding_Add_def)
    with Add_grown [OF Cons.prems(1) _ False] Cons.prems(2) have "dg_addedSet dgs1 = nd_Cid n # dg_addedSet dgs"
      "grown env opts (ms @ [n]) dgs1" by simp_all
    with Cons.IH [of "ms @ [n]" dgs1] Cons.prems False 1 show ?thesis by simp
  qed
qed simp

lemma calm_Finalize:
  assumes "calm env" "dgs_inv env opts ds (Some (allocs, g)) dgs"
  shows "\<exists>dgs'. sharding_Finalize env root dgs = Some (Inr root, dgs')"
proof -
  from calm_flush [OF assms] obtain c dgs1 where f: "flushCurrentShard env dgs = Some (Inr c, dgs1)" by blast
  with flush_inv [OF assms(2)] obtain d where "dgs_inv env opts (ds @ [d]) None dgs1" by auto
  then have "dg_shards dgs1 = links (map fl_root (ds @ [d]))" by (simp add: dgs_inv_def)
  with calm_makeDAG [OF assms(1), of "map fl_root (ds @ [d])"] obtain dag where m: "makeDAG env (dg_shards dgs1) = Some (Inr dag)"
    by auto
  obtain ms calls where p: "put_nodes env dag (dg_calls dgs1) = (ms, calls)" by fastforce
  have "env_ctx env calls = None" using assms(1) by (simp add: calm_def)
  with f m p assms(1) show ?thesis by (simp add: sharding_Finalize_def calm_stream calm_pin Let_def)
qed

lemma block_le_size: "n \<in> set g \<Longrightarrow> int (length (nd_RawData n)) \<le> blocks_size g"
  unfolding blocks_size_def by (rule member_le_sum_list) auto

lemma grown_sizes:
  assumes "grown env opts ns dgs" "n \<in> set ns"
  shows "int (length (nd_RawData n)) < po_ShardSize opts"
proof -
  from assms(1) obtain ds cur where i: "dgs_inv env opts ds cur dgs" "concat (groups ds cur) = ns"
    by (auto simp: grown_def session_inv_def)
  with assms(2) obtain g where g: "g \<in> set (groups ds cur)" "n \<in> set g" by auto
  with i(1) have "blocks_size g < po_ShardSize opts"
    by (auto simp: groups_def dgs_inv_def fl_ok_def split: option.splits)
  with block_le_size [OF g(2)] show ?thesis by linarith
qed

text \<open>
  C36. When a session succeeds. While no call fails, adding blocks succeeds exactly when every one of them is smaller than
  the shard size, and then finishing succeeds unless there was no block.
\<close>

theorem sharding_succeeds:
  assumes "calm env" "\<forall>n\<in>set nodes. small_block opts n"
  shows "\<exists>e dgs1. sharding_AddMany env nodes (sharding_New opts out) = Some (e, dgs1) \<and>
    (e = None \<longleftrightarrow> (\<forall>n\<in>set (firsts {} nodes). int (length (nd_RawData n)) < po_ShardSize opts)) \<and>
    (e = None \<longrightarrow> nodes \<noteq> [] \<longrightarrow> (\<exists>dgs. sharding_Finalize env root dgs1 = Some (Inr root, dgs)))"
proof -
  let ?opts = "opts\<lparr>po_Mode := PinModeRecursive\<rparr>" and ?run = "sharding_AddMany env nodes (sharding_New opts out)"
  have small: "\<forall>n\<in>set nodes. small_block ?opts n" using assms(2) by (simp add: small_block_def)
  have added: "set (dg_addedSet (sharding_New opts out)) = {}" by (simp add: sharding_New_def)
  have out: "outcome (\<not> allocates env) (grown env ?opts (firsts {} nodes)) ?run"
    using AddMany_grown [OF grown_New small, of env out] added by simp
  with calm_allocates [OF assms(1)] obtain e dgs1 where run: "?run = Some (e, dgs1)"
    by (auto simp: outcome_def split: option.splits)
  have sizes: "\<forall>n\<in>set (firsts {} nodes). int (length (nd_RawData n)) < po_ShardSize opts" if "e = None"
  proof -
    from out run that have "grown env ?opts (firsts {} nodes) dgs1" by simp
    then show ?thesis using grown_sizes by fastforce
  qed
  have fin: "\<exists>dgs. sharding_Finalize env root dgs1 = Some (Inr root, dgs)" if "e = None" "nodes \<noteq> []"
  proof -
    from out run that(1) obtain ds cur where i: "session_inv env ?opts ds cur dgs1" "concat (groups ds cur) = firsts {} nodes"
      by (auto simp: grown_def)
    from that(2) have "firsts {} nodes \<noteq> []" by (cases nodes) simp_all
    with i obtain allocs g where "cur = Some (allocs, g)" by (cases cur) (auto simp: session_inv_def groups_def)
    with i(1) have "dgs_inv env ?opts ds (Some (allocs, g)) dgs1" by (simp add: session_inv_def)
    then show ?thesis using calm_Finalize [OF assms(1)] by blast
  qed
  have "e = None" if "\<forall>n\<in>set (firsts {} nodes). int (length (nd_RawData n)) < po_ShardSize opts"
    using calm_AddMany [OF assms(1) grown_New small, of out] that run added by simp
  with run sizes fin show ?thesis by blast
qed

definition calm_adder_env :: adder_env where
  "calm_adder_env = example_adder_env\<lparr>env_Pin := \<lambda>calls pin. None\<rparr>"

theorem sharding_succeeds_witness:
  "\<exists>dgs1. sharding_AddMany calm_adder_env example_blocks (sharding_New example_add_opts True) = Some (None, dgs1) \<and>
     (\<exists>dgs. sharding_Finalize calm_adder_env ''c'' dgs1 = Some (Inr ''c'', dgs))"
proof -
  have "calm calm_adder_env" by (simp add: calm_def calm_adder_env_def example_adder_env_def)
  moreover have "\<forall>n\<in>set (firsts {} example_blocks). int (length (nd_RawData n)) < po_ShardSize example_add_opts"
    by (simp add: example_blocks_def example_block_def example_add_opts_def)
  moreover have "example_blocks \<noteq> []" by (simp add: example_blocks_def)
  ultimately show ?thesis
    using sharding_succeeds [of calm_adder_env example_blocks example_add_opts True "''c''"] example_session(2) by auto
qed

section \<open>Panics\<close>

lemma session_current:
  assumes "\<forall>n\<in>set nodes. small_block opts n" "nodes \<noteq> []"
    and "sharding_AddMany env nodes (sharding_New opts out) = Some (None, dgs)"
  shows "\<exists>ds allocs g. dgs_inv env (opts\<lparr>po_Mode := PinModeRecursive\<rparr>) ds (Some (allocs, g)) dgs"
proof -
  from session_run [OF assms(1), of env out] assms(3) obtain ds cur where
    i: "session_inv env (opts\<lparr>po_Mode := PinModeRecursive\<rparr>) ds cur dgs" "concat (groups ds cur) = firsts {} nodes"
    by (auto simp: grown_def)
  have "firsts {} nodes \<noteq> []" using assms(2) by (cases nodes) simp_all
  with i show ?thesis by (cases cur) (auto simp: session_inv_def groups_def)
qed

text \<open>
  C37. Adding and finishing do not panic. As long as allocations are not empty, whatever fails, no call panics up to the
  first one that returns an error, and finishing does not panic.
\<close>

theorem sharding_no_panic:
  assumes "allocates env" "\<forall>n\<in>set nodes. small_block opts n"
  shows "\<exists>e dgs. sharding_AddMany env nodes (sharding_New opts out) = Some (e, dgs) \<and>
    (e = None \<longrightarrow> sharding_Finalize env root dgs \<noteq> None)"
proof -
  from session_run [OF assms(2), of env out] assms(1) obtain e dgs where
    run: "sharding_AddMany env nodes (sharding_New opts out) = Some (e, dgs)" by (auto simp: outcome_def split: option.splits)
  have "sharding_Finalize env root dgs \<noteq> None" if "e = None"
  proof (cases "nodes = []")
    case True
    with run that show ?thesis by (auto simp: sharding_Finalize_def flushCurrentShard_def sharding_New_def)
  next
    case False
    with session_current [OF assms(2)] run that obtain ds allocs g where
      "dgs_inv env (opts\<lparr>po_Mode := PinModeRecursive\<rparr>) ds (Some (allocs, g)) dgs" by blast
    from flush_inv [OF this] obtain r dgs1 where f: "flushCurrentShard env dgs = Some (r, dgs1)"
      "\<And>c. r = Inr c \<Longrightarrow> \<exists>d. dgs_inv env (opts\<lparr>po_Mode := PinModeRecursive\<rparr>) (ds @ [d]) None dgs1" by blast
    show ?thesis
    proof (cases r)
      case (Inl e)
      with f(1) show ?thesis by (simp add: sharding_Finalize_def)
    next
      case (Inr c)
      with f(2) obtain d where "dg_shards dgs1 = links (map fl_root (ds @ [d]))" by (auto simp: dgs_inv_def)
      with makeDAG_links [of env "map fl_root (ds @ [d])"] obtain r' where "makeDAG env (dg_shards dgs1) = Some r'" by auto
      with f(1) Inr show ?thesis
        by (auto simp: sharding_Finalize_def Let_def split: option.splits sum.splits prod.splits)
    qed
  qed
  with run show ?thesis by blast
qed

theorem sharding_no_panic_witness:
  "\<exists>dgs. sharding_AddMany example_adder_env example_blocks (sharding_New example_add_opts False) = Some (None, dgs) \<and>
    sharding_Finalize example_adder_env ''c'' dgs \<noteq> None"
proof -
  have "allocates example_adder_env" by (simp add: allocates_def example_adder_env_def)
  moreover have "fst (the (sharding_AddMany example_adder_env example_blocks (sharding_New example_add_opts False))) = None"
    by code_simp
  ultimately show ?thesis
    using sharding_no_panic [of example_adder_env example_blocks example_add_opts False "''c''"] example_session(2) by auto
qed

text \<open>
  Closing after a cancelled flush panics. When the context is cancelled while the last shard is being
  flushed, \<open>Finalize\<close> returns the error with the channel of blocks closed but the shard still in place, and
  \<open>Close\<close>, which every caller defers, closes the channel again.
\<close>

theorem sharding_Close_panics:
  assumes "\<forall>n\<in>set nodes. small_block opts n" "nodes \<noteq> []"
    and "sharding_AddMany env nodes (sharding_New opts out) = Some (None, dgs)"
    and "env_ctx env (dg_calls dgs) = Some e" "\<forall>obj. \<exists>n. env_WrapObject env obj = Inr n"
  shows "\<exists>dgs'. sharding_Finalize env root dgs = Some (Inl e, dgs') \<and> sharding_Close dgs' = None"
proof -
  from session_current [OF assms(1-3)] obtain ds allocs g where
    i: "dgs_inv env (opts\<lparr>po_Mode := PinModeRecursive\<rparr>) ds (Some (allocs, g)) dgs" by blast
  from wrap_makeDAG [OF assms(5)] obtain nodes' where m: "makeDAG env (links (map nd_Cid g)) = Some (Inr nodes')" by blast
  with makeDAG_links [of env "map nd_Cid g"] have "dag_of env (map nd_Cid g) nodes'" by auto
  then obtain n ns where "nodes' = n # ns" by (auto simp: dag_of_def split: if_splits)
  with m i assms(4) show ?thesis
    by (simp add: sharding_Finalize_def flushCurrentShard_def Flush_def dgs_inv_def built_shard_def sendBlock_def
        close_blocks_def sharding_Close_def shard_Close_def Let_def)
qed

definition cancelled_env :: adder_env where
  "cancelled_env = example_adder_env\<lparr>env_ctx := \<lambda>calls. if 1 < length calls then Some ''context canceled'' else None\<rparr>"

theorem sharding_Close_panics_witness:
  "\<exists>dgs dgs'. sharding_AddMany cancelled_env [example_block ''a'' ''123456''] (sharding_New example_add_opts False) = Some (None, dgs) \<and>
    sharding_Finalize cancelled_env ''a'' dgs = Some (Inl ''context canceled'', dgs') \<and> sharding_Close dgs' = None"
proof -
  let ?run = "sharding_AddMany cancelled_env [example_block ''a'' ''123456''] (sharding_New example_add_opts False)"
  have 1: "fst (the ?run) = None" "?run \<noteq> None" "env_ctx cancelled_env (dg_calls (snd (the ?run))) = Some ''context canceled''"
    by code_simp+
  then have 2: "?run = Some (None, snd (the ?run))" by (cases ?run) auto
  have 3: "\<forall>n\<in>set [example_block ''a'' ''123456'']. small_block example_add_opts n" by code_simp
  have 4: "\<forall>obj. \<exists>n. env_WrapObject cancelled_env obj = Inr n" by (simp add: cancelled_env_def example_adder_env_def)
  from sharding_Close_panics [OF 3 _ 2 1(3) 4, of "''a''"] 2 show ?thesis by auto
qed

section \<open>The depth of a shard\<close>

text \<open>
  The depth of a shard is always one. A shard with more links than fit into one node is pinned at its
  root with depth one, although the links of the root are the leaves and the blocks are linked by the leaves: the
  test for an indirect graph compares the number of nodes with the number of links.
\<close>

theorem shard_depth_one:
  assumes "MaxLinks < length g"
    and "Flush env N prev (built_shard opts allocs g) calls = Some (Inr c, sh, calls')"
  shows "\<exists>pin leaves. pinned calls' = pinned calls @ [pin] \<and> pin_Cid pin = c \<and> pin_MaxDepth pin = 1 \<and>
    (\<exists>root. env_WrapObject env (links (map nd_Cid leaves)) = Inr root \<and> nd_Cid root = c) \<and>
    (\<exists>parts. concat parts = map nd_Cid g \<and> map (\<lambda>p. env_WrapObject env (links p)) parts = map Inr leaves)"
proof -
  from Flush_built [of env N prev opts allocs g calls] assms(2) obtain nodes now where
    n: "dag_of env (map nd_Cid g) nodes" "c = nd_Cid (hd nodes)"
    "pinned calls' = pinned calls @ [sent_pin (shard_Pin now (built_shard opts allocs g) N prev nodes)]" by auto
  let ?pin = "sent_pin (shard_Pin now (built_shard opts allocs g) N prev nodes)"
  from n(1) assms(1) obtain root leaves parts where d: "nodes = root # leaves"
    "env_WrapObject env (links (map nd_Cid leaves)) = Inr root" "length leaves = length g div MaxLinks + 1"
    "concat parts = map nd_Cid g" "map (\<lambda>p. env_WrapObject env (links p)) parts = map Inr leaves"
    unfolding dag_of_def by (auto split: if_splits)
  have "length g div MaxLinks + 1 \<le> length g"
    using assms(1) div_less_dividend [of MaxLinks "length g"] by (simp add: MaxLinks_def)
  then have "pin_MaxDepth ?pin = 1" "pin_Cid ?pin = c"
    using d(1,3) n(2) by (auto simp: sent_pin_def shard_Pin_def built_shard_def PinWithOpts_def PinCid_def Let_def)
  with n(2,3) d show ?thesis by (intro exI [of _ ?pin] exI [of _ leaves]) auto
qed

theorem shard_depth_one_witness:
  "\<exists>c sh calls'. Flush calm_adder_env 0 CidUndef (built_shard example_add_opts [''p1''] (replicate 5985 (example_block ''a'' ''1''))) [] =
      Some (Inr c, sh, calls') \<and> (\<exists>pin. pinned calls' = [pin] \<and> pin_Cid pin = c \<and> pin_MaxDepth pin = 1)"
proof -
  let ?g = "replicate 5985 (example_block ''a'' ''1'')"
  have calm: "calm calm_adder_env" by (simp add: calm_def calm_adder_env_def example_adder_env_def)
  obtain c sh calls' where f: "Flush calm_adder_env 0 CidUndef (built_shard example_add_opts [''p1''] ?g) [] = Some (Inr c, sh, calls')"
    using calm_Flush [OF calm, of "[''p1'']" 0 CidUndef example_add_opts ?g "[]"] by auto
  have "MaxLinks < length ?g" by (simp add: MaxLinks_def)
  from shard_depth_one [OF this f] f show ?thesis by auto
qed

end
