(* ===== verification/Adder_Single.thy ===== *)
theory Adder_Single
  imports Adder_Sharding
begin

text \<open>
  \<open>adder/single/dag_service.go\<close>: the DAG service that puts all blocks on the same peers, and
  \<open>adder/adder.go\<close>: adding a CAR file through a DAG service. A DAG service is what the interface \<open>ClusterDAGService\<close>
  promises: a locale states it, both services satisfy it, and what is shown of the CAR adder holds for both.
\<close>

section \<open>The service\<close>














section \<open>The blocks of a session\<close>





lemma nm_Cid_node [simp]: "nm_Cid (IpldNodeToNodeWithMeta n) = nd_Cid n"
  by (simp add: IpldNodeToNodeWithMeta_def)












section \<open>The interface of a DAG service\<close>


section \<open>Adding files (\<open>adder.go\<close>)\<close>







section \<open>CAR uploads\<close>












end
