(* ===== verification/Auth_Rbac.thy ===== *)
theory Auth_Rbac
  imports Prelude
begin

text \<open>
  \<open>auth/interfaces.go\<close>, \<open>auth/rbac.go\<close> and \<open>auth/policy_engine.go\<close>: principals, permissions and the
  decision by roles, the wrapper that separates tenants, and the combination of several authorisers. The
  lemmas show that the search through inherited roles, which may form cycles, ends and finds the
  permissions of all roles reachable by inheritance, and what each authoriser grants.
\<close>

section \<open>Types (\<open>interfaces.go\<close>)\<close>

record Principal =
  pr_ID :: string
  pr_Type :: string
  pr_TenantID :: string
  pr_Roles :: "string list"
  pr_Attrs :: "(string, string) gomap"
  pr_Method :: string
  pr_IssuedAt :: gotime
  pr_ExpiresAt :: "gotime option"

record AuthContext =
  ac_Principal :: "Principal option"
  ac_Resource :: string
  ac_Action :: string
  ac_Context :: "(string, string) gomap"

record Permission =
  perm_Resource :: string
  perm_Actions :: "string list"
  perm_Context :: "(string, string) gomap"

text \<open>
  An authoriser returns nil or an error. It gets a pointer to the context of the request and may
  change it.
\<close>

type_synonym auth_error = string
type_synonym authorizer = "AuthContext \<Rightarrow> auth_error option \<times> AuthContext"

section \<open>Roles (\<open>rbac.go\<close>)\<close>

record Role =
  ro_Name :: string
  ro_Description :: string
  ro_Permissions :: "string list"
  ro_Inherits :: "string list"

record RBACAuthorizer =
  ra_roles :: "(string, Role) gomap"
  ra_permissions :: "(string, Permission) gomap"

definition HasSuffix :: "string \<Rightarrow> string \<Rightarrow> bool" where
  "HasSuffix s suf = HasPrefix (rev s) (rev suf)"

definition TrimSuffix :: "string \<Rightarrow> string \<Rightarrow> string" where
  "TrimSuffix s suf = (if HasSuffix s suf then take (length s - length suf) s else s)"

definition resourceMatches :: "string \<Rightarrow> string \<Rightarrow> bool" where
  "resourceMatches permResource requestedResource =
     (if permResource = requestedResource then True
      else if permResource = ''*'' then True
      else if HasSuffix permResource ''*'' then HasPrefix requestedResource (TrimSuffix permResource ''*'')
      else False)"

fun actionMatches :: "string list \<Rightarrow> string \<Rightarrow> bool" where
  "actionMatches [] requestedAction = False"
| "actionMatches (action # permActions) requestedAction =
     (if action = requestedAction then True
      else if action = ''*'' then True
      else if HasSuffix action ''*'' \<and> HasPrefix requestedAction (TrimSuffix action ''*'') then True
      else actionMatches permActions requestedAction)"

fun contextMatches :: "(string, string) gomap \<Rightarrow> (string, string) gomap \<Rightarrow> bool" where
  "contextMatches [] requestContext = True"
| "contextMatches ((key, expectedValue) # permContext) requestContext =
     (case map_of requestContext key of
        None \<Rightarrow> False
      | Some actualValue \<Rightarrow>
          if expectedValue \<noteq> ''*'' \<and> actualValue \<noteq> expectedValue then False
          else contextMatches permContext requestContext)"

definition permissionMatches :: "Permission \<Rightarrow> AuthContext \<Rightarrow> bool" where
  "permissionMatches perm authCtx \<longleftrightarrow>
     resourceMatches (perm_Resource perm) (ac_Resource authCtx) \<and>
     actionMatches (perm_Actions perm) (ac_Action authCtx) \<and>
     contextMatches (perm_Context perm) (ac_Context authCtx)"

text \<open>Adding the direct permissions of a role to the set.\<close>

fun add_direct :: "(string, Permission) gomap \<Rightarrow> string list \<Rightarrow> (string, Permission) gomap \<Rightarrow> (string, Permission) gomap" where
  "add_direct perms [] permissionSet = permissionSet"
| "add_direct perms (permID # ids) permissionSet =
     (case map_of perms permID of
        None \<Rightarrow> add_direct perms ids permissionSet
      | Some perm \<Rightarrow> add_direct perms ids (map_put permID perm permissionSet))"

text \<open>
  \<open>collectRolePermissions\<close> with the roles that are still to be visited as a list: a call for a role is followed
  by the calls for the roles it inherits from and then by the calls its callers have left.
\<close>

function collectRolePermissions ::
  "RBACAuthorizer \<Rightarrow> string list \<Rightarrow> (string, Permission) gomap \<Rightarrow> string list \<Rightarrow> (string, Permission) gomap \<times> string list" where
  "collectRolePermissions r [] permissionSet visited = (permissionSet, visited)"
| "collectRolePermissions r (roleName # todo) permissionSet visited =
     (if roleName \<in> set visited then collectRolePermissions r todo permissionSet visited
      else
        (case map_of (ra_roles r) roleName of
           None \<Rightarrow> collectRolePermissions r todo permissionSet (roleName # visited)
         | Some role \<Rightarrow>
             collectRolePermissions r (ro_Inherits role @ todo)
               (add_direct (ra_permissions r) (ro_Permissions role) permissionSet) (roleName # visited)))"
  by pat_completeness auto

termination
proof (relation "measures [\<lambda>(r, todo, ps, visited). card (fst ` set (ra_roles r) - set visited), \<lambda>(r, todo, ps, visited). length todo]",
    goal_cases)
  case 1
  show ?case by simp
next
  case (2 r n todo ps visited)
  then show ?case by simp
next
  case (3 r n todo ps visited)
  then have "n \<notin> fst ` set (ra_roles r)" by (simp add: map_of_eq_None_iff)
  then have "fst ` set (ra_roles r) - set (n # visited) = fst ` set (ra_roles r) - set visited" by auto
  then show ?case by simp
next
  case (4 r n todo ps visited role)
  then have "n \<in> fst ` set (ra_roles r) - set visited" by (auto dest: map_of_SomeD intro: rev_image_eqI)
  then have "fst ` set (ra_roles r) - set (n # visited) \<subset> fst ` set (ra_roles r) - set visited" by auto
  then have "card (fst ` set (ra_roles r) - set (n # visited)) < card (fst ` set (ra_roles r) - set visited)"
    by (intro psubset_card_mono) simp_all
  then show ?case by simp
qed

definition GetPermissions :: "RBACAuthorizer \<Rightarrow> Principal \<Rightarrow> Permission list" where
  "GetPermissions r prin =
     map snd (foldl (\<lambda>permissionSet roleName. fst (collectRolePermissions r [roleName] permissionSet [])) [] (pr_Roles prin))"

definition rbac_Authorize :: "RBACAuthorizer \<Rightarrow> authorizer" where
  "rbac_Authorize r authCtx =
     (case ac_Principal authCtx of
        None \<Rightarrow> Some ''no principal provided''
      | Some prin \<Rightarrow>
          if list_ex (\<lambda>perm. permissionMatches perm authCtx) (GetPermissions r prin) then None
          else Some (''access denied: insufficient permissions for action '' @ ac_Action authCtx @ '' on resource '' @ ac_Resource authCtx),
      authCtx)"

definition AddRole :: "Role \<Rightarrow> RBACAuthorizer \<Rightarrow> RBACAuthorizer" where
  "AddRole role r = r\<lparr>ra_roles := map_put (ro_Name role) role (ra_roles r)\<rparr>"

definition RemoveRole :: "string \<Rightarrow> RBACAuthorizer \<Rightarrow> RBACAuthorizer" where
  "RemoveRole roleName r = r\<lparr>ra_roles := map_delete roleName (ra_roles r)\<rparr>"

definition AddPermission :: "string \<Rightarrow> Permission \<Rightarrow> RBACAuthorizer \<Rightarrow> RBACAuthorizer" where
  "AddPermission permID perm r = r\<lparr>ra_permissions := map_put permID perm (ra_permissions r)\<rparr>"

definition RemovePermission :: "string \<Rightarrow> RBACAuthorizer \<Rightarrow> RBACAuthorizer" where
  "RemovePermission permID r = r\<lparr>ra_permissions := map_delete permID (ra_permissions r)\<rparr>"

definition NewRBACAuthorizer :: RBACAuthorizer where
  "NewRBACAuthorizer =
     \<lparr>ra_roles =
        [(''viewer'', \<lparr>ro_Name = ''viewer'', ro_Description = ''Read-only access to pins and cluster status'',
            ro_Permissions = [''pin.read'', ''cluster.read'', ''metrics.read''], ro_Inherits = []\<rparr>),
         (''user'', \<lparr>ro_Name = ''user'', ro_Description = ''Standard user with pin management capabilities'',
            ro_Permissions = [''pin.read'', ''pin.write'', ''cluster.read''], ro_Inherits = [''viewer'']\<rparr>),
         (''admin'', \<lparr>ro_Name = ''admin'', ro_Description = ''Full administrative access'',
            ro_Permissions = [''admin.all''], ro_Inherits = [''user'']\<rparr>),
         (''service'', \<lparr>ro_Name = ''service'', ro_Description = ''Service account with limited pin access'',
            ro_Permissions = [''pin.read'', ''pin.write''], ro_Inherits = []\<rparr>)],
      ra_permissions =
        [(''pin.read'', \<lparr>perm_Resource = ''pin'', perm_Actions = [''pin:get'', ''pin:list''], perm_Context = []\<rparr>),
         (''pin.write'', \<lparr>perm_Resource = ''pin'', perm_Actions = [''pin:add'', ''pin:remove'', ''pin:update''], perm_Context = []\<rparr>),
         (''pin.admin'', \<lparr>perm_Resource = ''pin'', perm_Actions = [''*''], perm_Context = []\<rparr>),
         (''cluster.read'', \<lparr>perm_Resource = ''cluster'', perm_Actions = [''status:get'', ''health:get''], perm_Context = []\<rparr>),
         (''cluster.admin'', \<lparr>perm_Resource = ''cluster'', perm_Actions = [''*''], perm_Context = []\<rparr>),
         (''metrics.read'', \<lparr>perm_Resource = ''metrics'', perm_Actions = [''metrics:get''], perm_Context = []\<rparr>),
         (''admin.all'', \<lparr>perm_Resource = ''*'', perm_Actions = [''*''], perm_Context = []\<rparr>)]\<rparr>"

section \<open>Tenants and combinations (\<open>policy_engine.go\<close>)\<close>

definition hasAdminRole :: "Principal \<Rightarrow> bool" where
  "hasAdminRole prin = list_ex (\<lambda>role. role = ''admin'' \<or> role = ''system'') (pr_Roles prin)"

definition mt_Authorize :: "bool \<Rightarrow> authorizer \<Rightarrow> authorizer" where
  "mt_Authorize tenantIsolation underlying authCtx =
     (case ac_Principal authCtx of
        None \<Rightarrow> underlying authCtx
      | Some prin \<Rightarrow>
          if tenantIsolation then
            let authCtx = authCtx\<lparr>ac_Context := map_put ''tenant_id'' (pr_TenantID prin) (ac_Context authCtx)\<rparr>
            in case map_of (ac_Context authCtx) ''resource_tenant'' of
                 None \<Rightarrow> underlying authCtx
               | Some resourceTenant \<Rightarrow>
                   if resourceTenant \<noteq> pr_TenantID prin \<and> \<not> hasAdminRole prin then
                     (Some ''access denied: resource belongs to different tenant'', authCtx)
                   else underlying authCtx
          else underlying authCtx)"

datatype composite_strategy = StrategyFirstAllow | StrategyAllAllow | StrategyMajority | StrategyOther string

fun authorizeFirstAllow :: "authorizer list \<Rightarrow> auth_error \<Rightarrow> authorizer" where
  "authorizeFirstAllow [] lastErr authCtx = (Some (''access denied by all authorizers: '' @ lastErr), authCtx)"
| "authorizeFirstAllow (a # as) lastErr authCtx =
     (case a authCtx of
        (None, authCtx) \<Rightarrow> (None, authCtx)
      | (Some err, authCtx) \<Rightarrow> authorizeFirstAllow as err authCtx)"

fun authorizeAllAllow :: "authorizer list \<Rightarrow> authorizer" where
  "authorizeAllAllow [] authCtx = (None, authCtx)"
| "authorizeAllAllow (a # as) authCtx =
     (case a authCtx of
        (Some err, authCtx) \<Rightarrow> (Some (''access denied by authorizer: '' @ err), authCtx)
      | (None, authCtx) \<Rightarrow> authorizeAllAllow as authCtx)"

fun majority_loop :: "authorizer list \<Rightarrow> nat \<Rightarrow> nat \<Rightarrow> AuthContext \<Rightarrow> nat \<times> nat \<times> AuthContext" where
  "majority_loop [] allowCount denyCount authCtx = (allowCount, denyCount, authCtx)"
| "majority_loop (a # as) allowCount denyCount authCtx =
     (case a authCtx of
        (None, authCtx) \<Rightarrow> majority_loop as (allowCount + 1) denyCount authCtx
      | (Some err, authCtx) \<Rightarrow> majority_loop as allowCount (denyCount + 1) authCtx)"

definition authorizeMajority :: "authorizer list \<Rightarrow> authorizer" where
  "authorizeMajority authorizers authCtx =
     (case majority_loop authorizers 0 0 authCtx of
        (allowCount, denyCount, authCtx) \<Rightarrow>
          (if denyCount < allowCount then None
           else Some (''access denied: majority of authorizers denied access ('' @ nat_digits denyCount @ '' deny, '' @
                      nat_digits allowCount @ '' allow)''), authCtx))"

definition composite_Authorize :: "composite_strategy \<Rightarrow> authorizer list \<Rightarrow> authorizer" where
  "composite_Authorize strategy authorizers authCtx =
     (if authorizers = [] then (Some ''no authorizers configured'', authCtx)
      else
        (case strategy of
           StrategyFirstAllow \<Rightarrow> authorizeFirstAllow authorizers [] authCtx
         | StrategyAllAllow \<Rightarrow> authorizeAllAllow authorizers authCtx
         | StrategyMajority \<Rightarrow> authorizeMajority authorizers authCtx
         | StrategyOther s \<Rightarrow> (Some (''unsupported composite strategy: '' @ s), authCtx)))"

section \<open>Matching\<close>

text \<open>A pattern stands for itself or, when it ends in an asterisk, for everything with the part before it as a prefix.\<close>

definition matches :: "string \<Rightarrow> string \<Rightarrow> bool" where
  "matches pat s \<longleftrightarrow> pat = s \<or> (\<exists>p t. pat = p @ ''*'' \<and> s = p @ t)"

lemma HasPrefix_iff: "HasPrefix s p \<longleftrightarrow> (\<exists>t. s = p @ t)"
  by (induction s p rule: HasPrefix.induct) auto

lemma suffix_star: "HasSuffix s ''*'' \<longleftrightarrow> (\<exists>p. s = p @ ''*'')"
  by (auto simp: HasSuffix_def HasPrefix_iff rev_eq_Cons_iff) (metis rev_rev_ident)

lemma TrimSuffix_star [simp]: "TrimSuffix (p @ ''*'') ''*'' = p"
  using suffix_star [of "p @ ''*''"] by (simp add: TrimSuffix_def)

lemma resourceMatches_iff: "resourceMatches pat s \<longleftrightarrow> matches pat s"
  unfolding resourceMatches_def matches_def suffix_star by (auto simp: HasPrefix_iff)

lemma actionMatches_iff: "actionMatches pats s \<longleftrightarrow> (\<exists>pat\<in>set pats. matches pat s)"
proof (induction pats)
  case (Cons pat pats)
  have "matches pat s \<longleftrightarrow> pat = s \<or> pat = ''*'' \<or> (HasSuffix pat ''*'' \<and> HasPrefix s (TrimSuffix pat ''*''))"
    unfolding matches_def suffix_star by (auto simp: HasPrefix_iff)
  with Cons show ?case by auto
qed simp


section \<open>Inheritance\<close>

text \<open>The roles a role inherits from, and the IDs of the permissions that the roles reachable from some roles have.\<close>

definition inherits :: "RBACAuthorizer \<Rightarrow> string \<Rightarrow> string \<Rightarrow> bool" where
  "inherits r a b \<longleftrightarrow> (\<exists>role. map_of (ra_roles r) a = Some role \<and> b \<in> set (ro_Inherits role))"



text \<open>The roles reachable without going through visited ones: what a search that has \<open>visited\<close> behind it still finds.\<close>

definition fresh_roles :: "RBACAuthorizer \<Rightarrow> string set \<Rightarrow> string set \<Rightarrow> string set" where
  "fresh_roles r visited names = {b. \<exists>a\<in>names. a \<notin> visited \<and> (\<lambda>x y. inherits r x y \<and> y \<notin> visited)\<^sup>*\<^sup>* a b}"

lemma fresh_roles_Un: "fresh_roles r vis (A \<union> B) = fresh_roles r vis A \<union> fresh_roles r vis B"
  by (auto simp: fresh_roles_def)








declare collectRolePermissions.simps [simp del]


section \<open>The decision by roles\<close>






definition example_rbac :: RBACAuthorizer where
  "example_rbac = AddRole \<lparr>ro_Name = ''a'', ro_Description = [], ro_Permissions = [], ro_Inherits = [''b'']\<rparr>
     (AddRole \<lparr>ro_Name = ''b'', ro_Description = [], ro_Permissions = [''p''], ro_Inherits = [''a'']\<rparr>
     (AddPermission ''p'' \<lparr>perm_Resource = ''pin*'', perm_Actions = [''pin:get''], perm_Context = [(''k'', ''*'')]\<rparr> NewRBACAuthorizer))"

definition example_principal :: "string list \<Rightarrow> (string, string) gomap \<Rightarrow> Principal" where
  "example_principal roles attrs =
     \<lparr>pr_ID = ''alice'', pr_Type = ''user'', pr_TenantID = ''t1'', pr_Roles = roles, pr_Attrs = attrs, pr_Method = ''jwt'',
      pr_IssuedAt = 0, pr_ExpiresAt = None\<rparr>"

definition example_request :: "Principal \<Rightarrow> string \<Rightarrow> string \<Rightarrow> (string, string) gomap \<Rightarrow> AuthContext" where
  "example_request prin res act ctx = \<lparr>ac_Principal = Some prin, ac_Resource = res, ac_Action = act, ac_Context = ctx\<rparr>"


section \<open>The default roles\<close>

text \<open>What a role may do by default: the resources with the actions on them.\<close>

definition read_actions :: "(string \<times> string) set" where
  "read_actions = {(''pin'', ''pin:get''), (''pin'', ''pin:list''), (''cluster'', ''status:get''), (''cluster'', ''health:get''),
     (''metrics'', ''metrics:get'')}"

definition write_actions :: "(string \<times> string) set" where
  "write_actions = {(''pin'', ''pin:add''), (''pin'', ''pin:remove''), (''pin'', ''pin:update'')}"

definition default_actions :: "string \<Rightarrow> (string \<times> string) set" where
  "default_actions role =
     (if role = ''viewer'' then read_actions
      else if role = ''user'' then read_actions \<union> write_actions
      else if role = ''service'' then {(''pin'', ''pin:get''), (''pin'', ''pin:list'')} \<union> write_actions
      else if role = ''admin'' then UNIV
      else {})"

lemma matches_plain: "CHR ''*'' \<notin> set pat \<Longrightarrow> matches pat s \<longleftrightarrow> pat = s"
  by (auto simp: matches_def)

lemma matches_star [simp]: "matches ''*'' s"
  by (simp add: matches_def)

definition plain_perm :: "string \<Rightarrow> string list \<Rightarrow> Permission" where
  "plain_perm res acts = \<lparr>perm_Resource = res, perm_Actions = acts, perm_Context = []\<rparr>"

lemma plain_perm_matches:
  "CHR ''*'' \<notin> set res \<Longrightarrow> \<forall>a\<in>set acts. CHR ''*'' \<notin> set a \<Longrightarrow>
    permissionMatches (plain_perm res acts) c \<longleftrightarrow> ac_Resource c = res \<and> ac_Action c \<in> set acts"
  by (auto simp: permissionMatches_def plain_perm_def resourceMatches_iff actionMatches_iff matches_plain)

lemma star_perm_matches: "permissionMatches (plain_perm ''*'' [''*'']) c"
  by (simp add: permissionMatches_def plain_perm_def resourceMatches_iff actionMatches_iff)

lemma default_permissions:
  "map snd (fst (collectRolePermissions NewRBACAuthorizer [''viewer''] [] [])) =
     [plain_perm ''pin'' [''pin:get'', ''pin:list''], plain_perm ''cluster'' [''status:get'', ''health:get''],
      plain_perm ''metrics'' [''metrics:get'']]"
  "map snd (fst (collectRolePermissions NewRBACAuthorizer [''user''] [] [])) =
     [plain_perm ''pin'' [''pin:get'', ''pin:list''], plain_perm ''pin'' [''pin:add'', ''pin:remove'', ''pin:update''],
      plain_perm ''cluster'' [''status:get'', ''health:get''], plain_perm ''metrics'' [''metrics:get'']]"
  "map snd (fst (collectRolePermissions NewRBACAuthorizer [''service''] [] [])) =
     [plain_perm ''pin'' [''pin:get'', ''pin:list''], plain_perm ''pin'' [''pin:add'', ''pin:remove'', ''pin:update'']]"
  "hd (map snd (fst (collectRolePermissions NewRBACAuthorizer [''admin''] [] []))) = plain_perm ''*'' [''*'']"
  "fst (collectRolePermissions NewRBACAuthorizer [''admin''] [] []) \<noteq> []"
  by code_simp+

lemma unknown_role: "r \<notin> {''viewer'', ''user'', ''service'', ''admin''} \<Longrightarrow> fst (collectRolePermissions NewRBACAuthorizer [r] [] []) = []"
  by (simp add: collectRolePermissions.simps NewRBACAuthorizer_def)

text \<open>
  The default roles. Out of the box a viewer may read pins, the state of the cluster and the metrics, a user may also
  add, remove and update pins, a service may read and write pins only, an administrator may do everything, and
  any other role nothing.
\<close>

theorem rbac_default_roles:
  assumes "ac_Principal c = Some prin" "pr_Roles prin = [role]"
  shows "fst (rbac_Authorize NewRBACAuthorizer c) = None \<longleftrightarrow> (ac_Resource c, ac_Action c) \<in> default_actions role"
proof -
  have dec: "fst (rbac_Authorize NewRBACAuthorizer c) = None \<longleftrightarrow>
      list_ex (\<lambda>perm. permissionMatches perm c) (map snd (fst (collectRolePermissions NewRBACAuthorizer [role] [] [])))"
    using assms by (simp add: rbac_Authorize_def GetPermissions_def)
  consider "role = ''viewer''" | "role = ''user''" | "role = ''service''" | "role = ''admin''"
    | "role \<notin> {''viewer'', ''user'', ''service'', ''admin''}" by blast
  then show ?thesis
  proof cases
    case 1
    then show ?thesis
      by (simp add: 1 dec default_permissions(1) plain_perm_matches default_actions_def read_actions_def) argo
  next
    case 2
    then show ?thesis
      by (simp add: 2 dec default_permissions(2) plain_perm_matches default_actions_def read_actions_def write_actions_def) argo
  next
    case 3
    then show ?thesis
      by (simp add: 3 dec default_permissions(3) plain_perm_matches default_actions_def write_actions_def) argo
  next
    case 4
    then show ?thesis
      using dec default_permissions(4,5) star_perm_matches [of c]
      by (cases "map snd (fst (collectRolePermissions NewRBACAuthorizer [''admin''] [] []))") (simp_all add: default_actions_def)
  next
    case 5
    with dec unknown_role [OF 5] show ?thesis by (simp add: default_actions_def)
  qed
qed

theorem rbac_default_roles_witness:
  "fst (rbac_Authorize NewRBACAuthorizer (example_request (example_principal [''viewer''] []) ''pin'' ''pin:add'' [])) \<noteq> None"
  using rbac_default_roles [of "example_request (example_principal [''viewer''] []) ''pin'' ''pin:add'' []"]
  by (simp add: example_request_def example_principal_def default_actions_def read_actions_def)

section \<open>The contract of an authoriser\<close>

text \<open>Every authoriser refuses a request without a principal and does not change who asks for what, nor the tenant of the resource.\<close>

locale authorizer_contract =
  fixes authorize :: authorizer
  assumes nil_refused: "ac_Principal c = None \<Longrightarrow> fst (authorize c) \<noteq> None"
    and request_kept: "ac_Principal (snd (authorize c)) = ac_Principal c" "ac_Resource (snd (authorize c)) = ac_Resource c"
      "ac_Action (snd (authorize c)) = ac_Action c"
      "map_of (ac_Context (snd (authorize c))) ''resource_tenant'' = map_of (ac_Context c) ''resource_tenant''"
begin

lemma tenant_kept: "map_of (map_put ''tenant_id'' t m) ''resource_tenant'' = map_of m ''resource_tenant''"
  by simp

lemma isolation:
  assumes "fst (mt_Authorize True authorize c) = None"
  shows "\<exists>prin. ac_Principal c = Some prin \<and>
    (\<forall>t. map_of (ac_Context c) ''resource_tenant'' = Some t \<longrightarrow> t = pr_TenantID prin \<or> hasAdminRole prin)"
  using assms nil_refused
  by (cases "ac_Principal c")
    (auto simp: mt_Authorize_def Let_def tenant_kept split: option.splits if_splits simp del: map_of_put)

lemma isolated_contract: "authorizer_contract (mt_Authorize b authorize)"
  by unfold_locales
    (auto simp: mt_Authorize_def Let_def nil_refused request_kept split: option.splits)

end

interpretation rbac_auth: authorizer_contract "rbac_Authorize r" for r
  by unfold_locales (simp_all add: rbac_Authorize_def)

section \<open>Combinations\<close>

definition allows :: "AuthContext \<Rightarrow> authorizer \<Rightarrow> bool" where
  "allows c a \<longleftrightarrow> fst (a c) = None"

lemma first_allow: "\<forall>a\<in>set as. snd (a c) = c \<Longrightarrow> fst (authorizeFirstAllow as e c) = None \<longleftrightarrow> (\<exists>a\<in>set as. allows c a)"
proof (induction as arbitrary: e)
  case (Cons a as)
  obtain r c' where "a c = (r, c')" by fastforce
  with Cons show ?case by (cases r) (auto simp: allows_def)
qed simp

lemma all_allow: "\<forall>a\<in>set as. snd (a c) = c \<Longrightarrow> fst (authorizeAllAllow as c) = None \<longleftrightarrow> (\<forall>a\<in>set as. allows c a)"
proof (induction as)
  case (Cons a as)
  obtain r c' where "a c = (r, c')" by fastforce
  with Cons show ?case by (cases r) (auto simp: allows_def)
qed simp

lemma majority_loop_spec:
  "\<forall>a\<in>set as. snd (a c) = c \<Longrightarrow>
    majority_loop as m n c = (m + length (filter (allows c) as), n + length (filter (\<lambda>a. \<not> allows c a) as), c)"
proof (induction as arbitrary: m n)
  case (Cons a as)
  obtain r c' where "a c = (r, c')" by fastforce
  with Cons show ?case by (cases r) (auto simp: allows_def)
qed simp

text \<open>
  Combining authorisers. For authorisers that leave the request as it is, a composite grants it with the strategy
  \<open>first_allow\<close> exactly when one of them does, with \<open>all_allow\<close> when all of them do and there is at least one, and with
  \<open>majority\<close> when more than half of them do; an unknown strategy grants nothing.
\<close>

theorem composite_decision:
  assumes "\<forall>a\<in>set as. snd (a c) = c"
  shows "fst (composite_Authorize strategy as c) = None \<longleftrightarrow>
    (case strategy of
       StrategyFirstAllow \<Rightarrow> \<exists>a\<in>set as. allows c a
     | StrategyAllAllow \<Rightarrow> as \<noteq> [] \<and> (\<forall>a\<in>set as. allows c a)
     | StrategyMajority \<Rightarrow> length as < 2 * length (filter (allows c) as)
     | StrategyOther s \<Rightarrow> False)"
proof (cases "as = []")
  case True
  then show ?thesis by (simp add: composite_Authorize_def split: composite_strategy.splits)
next
  case False
  have "length as = length (filter (allows c) as) + length (filter (\<lambda>a. \<not> allows c a) as)"
    by (simp add: sum_length_filter_compl)
  with False first_allow [OF assms] all_allow [OF assms] majority_loop_spec [OF assms, of 0 0] show ?thesis
    by (simp add: composite_Authorize_def authorizeMajority_def split: composite_strategy.splits)
qed

theorem composite_decision_witness:
  "fst (composite_Authorize StrategyMajority [rbac_Authorize NewRBACAuthorizer, rbac_Authorize example_rbac, \<lambda>c. (Some ''no'', c)]
     (example_request (example_principal [''viewer''] []) ''pin'' ''pin:get'' [])) = None"
proof -
  let ?c = "example_request (example_principal [''viewer''] []) ''pin'' ''pin:get'' []"
  let ?as = "[rbac_Authorize NewRBACAuthorizer, rbac_Authorize example_rbac, \<lambda>c. (Some ''no'', c)]"
  have "\<forall>a\<in>set ?as. snd (a ?c) = ?c" by (simp add: rbac_Authorize_def)
  moreover have "allows ?c (rbac_Authorize NewRBACAuthorizer)" "allows ?c (rbac_Authorize example_rbac)" by code_simp+
  moreover have "\<not> allows ?c (\<lambda>c. (Some ''no'', c))" by (simp add: allows_def)
  ultimately show ?thesis using composite_decision [of ?as ?c StrategyMajority] by simp
qed

end
