(* ===== verification/Auth_Abac.thy ===== *)
theory Auth_Abac
  imports Auth_Rbac
begin

text \<open>
  \<open>auth/abac.go\<close>: policies over the attributes of a request, sorted by priority; the first enabled one
  whose rules all hold decides. The clock gives the hour, the day of the week and the Unix time. The comparison of two
  strings as numbers, two calls of \<open>strconv.ParseFloat\<close>, is the argument \<open>numeric\<close>: \<^term>\<open>None\<close> when one of them is
  not a number, else the sign of the difference. The theorems hold for every such function.
\<close>

section \<open>Policies\<close>

datatype effect = EffectAllow | EffectDeny | EffectOther string

datatype operator =
    OpEquals | OpNotEquals | OpIn | OpNotIn | OpContains | OpStartsWith | OpEndsWith
  | OpGreaterThan | OpLessThan | OpGreaterEqual | OpLessEqual | OpRegex | OpOther string

record Rule =
  ru_Attribute :: string
  ru_Operator :: operator
  ru_Value :: string
  ru_Values :: "string list"

record Policy =
  pl_ID :: string
  pl_Name :: string
  pl_Description :: string
  pl_Effect :: effect
  pl_Rules :: "Rule list"
  pl_Priority :: int
  pl_Enabled :: bool
  pl_CreatedAt :: gotime
  pl_UpdatedAt :: gotime

type_synonym ABACAuthorizer = "(string, Policy) gomap"

record EvaluationContext =
  ev_Subject :: "(string, string) gomap"
  ev_Resource :: "(string, string) gomap"
  ev_Action :: "(string, string) gomap"
  ev_Context :: "(string, string) gomap"

record clock =
  clk_Hour :: int
  clk_Weekday :: int
  clk_Unix :: int

text \<open>A loop that copies a map into another one.\<close>

definition put_all :: "(string, string) gomap \<Rightarrow> (string, string) gomap \<Rightarrow> (string, string) gomap" where
  "put_all src dst = foldl (\<lambda>m (k, v). map_put k v m) dst src"

definition buildEvaluationContext :: "clock \<Rightarrow> AuthContext \<Rightarrow> EvaluationContext" where
  "buildEvaluationContext clk authCtx =
     \<lparr>ev_Subject =
        (case ac_Principal authCtx of
           None \<Rightarrow> []
         | Some prin \<Rightarrow>
             put_all (pr_Attrs prin)
               [(''id'', pr_ID prin), (''type'', pr_Type prin), (''tenant_id'', pr_TenantID prin),
                (''roles'', str_join (CHR '','') (pr_Roles prin))]),
      ev_Resource = [(''name'', ac_Resource authCtx)],
      ev_Action = [(''name'', ac_Action authCtx)],
      ev_Context =
        map_put ''time.timestamp'' (int_str (clk_Unix clk))
          (map_put ''time.day_of_week'' (int_str (clk_Weekday clk))
            (map_put ''time.hour'' (int_str (clk_Hour clk)) (put_all (ac_Context authCtx) [])))\<rparr>"

text \<open>The exchange sort of \<open>getApplicablePolicies\<close>; the map is visited in the order of its list.\<close>

definition exchange :: "nat \<Rightarrow> Policy list \<Rightarrow> nat \<Rightarrow> Policy list" where
  "exchange i ps j =
     (if pl_Priority (ps ! i) < pl_Priority (ps ! j) then ps[i := ps ! j, j := ps ! i] else ps)"

definition getApplicablePolicies :: "ABACAuthorizer \<Rightarrow> Policy list" where
  "getApplicablePolicies a =
     (let policies = map snd a
      in foldl (\<lambda>ps i. foldl (exchange i) ps [Suc i..<length policies]) policies [0..<length policies - 1])"

text \<open>\<open>strings.SplitN(s, ".", 2)\<close>, when the separator occurs.\<close>

fun split_dot :: "string \<Rightarrow> (string \<times> string) option" where
  "split_dot [] = None"
| "split_dot (c # s) =
     (if c = CHR ''.'' then Some ([], s) else map_option (\<lambda>(x, y). (c # x, y)) (split_dot s))"

definition getAttributeValue :: "string \<Rightarrow> EvaluationContext \<Rightarrow> string" where
  "getAttributeValue attribute evalCtx =
     (case split_dot attribute of
        None \<Rightarrow> []
      | Some (category, key) \<Rightarrow>
          if category = ''subject'' then map_get [] (ev_Subject evalCtx) key
          else if category = ''resource'' then map_get [] (ev_Resource evalCtx) key
          else if category = ''action'' then map_get [] (ev_Action evalCtx) key
          else if category = ''context'' then map_get [] (ev_Context evalCtx) key
          else [])"

type_synonym numeric = "string \<Rightarrow> string \<Rightarrow> int option"

definition compareNumeric :: "numeric \<Rightarrow> string \<Rightarrow> string \<Rightarrow> int" where
  "compareNumeric numeric a1 a2 =
     (case numeric a1 a2 of
        None \<Rightarrow> if a1 < a2 then -1 else if a2 < a1 then 1 else 0
      | Some d \<Rightarrow> if d < 0 then -1 else if 0 < d then 1 else 0)"

definition evaluateRule :: "numeric \<Rightarrow> Rule \<Rightarrow> EvaluationContext \<Rightarrow> bool" where
  "evaluateRule numeric rule evalCtx =
     (let attributeValue = getAttributeValue (ru_Attribute rule) evalCtx
      in case ru_Operator rule of
           OpEquals \<Rightarrow> attributeValue = ru_Value rule
         | OpNotEquals \<Rightarrow> attributeValue \<noteq> ru_Value rule
         | OpIn \<Rightarrow> attributeValue \<in> set (ru_Values rule)
         | OpNotIn \<Rightarrow> attributeValue \<notin> set (ru_Values rule)
         | OpContains \<Rightarrow> str_contains attributeValue (ru_Value rule)
         | OpStartsWith \<Rightarrow> HasPrefix attributeValue (ru_Value rule)
         | OpEndsWith \<Rightarrow> HasSuffix attributeValue (ru_Value rule)
         | OpGreaterThan \<Rightarrow> 0 < compareNumeric numeric attributeValue (ru_Value rule)
         | OpLessThan \<Rightarrow> compareNumeric numeric attributeValue (ru_Value rule) < 0
         | OpGreaterEqual \<Rightarrow> 0 \<le> compareNumeric numeric attributeValue (ru_Value rule)
         | OpLessEqual \<Rightarrow> compareNumeric numeric attributeValue (ru_Value rule) \<le> 0
         | OpRegex \<Rightarrow> False
         | OpOther s \<Rightarrow> False)"

definition evaluatePolicy :: "numeric \<Rightarrow> Policy \<Rightarrow> EvaluationContext \<Rightarrow> bool" where
  "evaluatePolicy numeric policy evalCtx = list_all (\<lambda>rule. evaluateRule numeric rule evalCtx) (pl_Rules policy)"

fun policy_loop :: "numeric \<Rightarrow> EvaluationContext \<Rightarrow> Policy list \<Rightarrow> auth_error option" where
  "policy_loop numeric evalCtx [] = Some ''access denied: no policy allows the requested action''"
| "policy_loop numeric evalCtx (policy # policies) =
     (if \<not> pl_Enabled policy then policy_loop numeric evalCtx policies
      else if evaluatePolicy numeric policy evalCtx then
        if pl_Effect policy = EffectDeny then Some (''access denied by policy: '' @ pl_Name policy) else None
      else policy_loop numeric evalCtx policies)"

definition abac_Authorize :: "numeric \<Rightarrow> clock \<Rightarrow> ABACAuthorizer \<Rightarrow> authorizer" where
  "abac_Authorize numeric clk a authCtx =
     (case ac_Principal authCtx of
        None \<Rightarrow> Some ''no principal provided''
      | Some prin \<Rightarrow> policy_loop numeric (buildEvaluationContext clk authCtx) (getApplicablePolicies a),
      authCtx)"

definition AddPolicy :: "gotime \<Rightarrow> Policy \<Rightarrow> ABACAuthorizer \<Rightarrow> ABACAuthorizer" where
  "AddPolicy now policy a =
     (let policy = policy\<lparr>pl_UpdatedAt := now\<rparr>;
          policy = (if time_IsZero (pl_CreatedAt policy) then policy\<lparr>pl_CreatedAt := now\<rparr> else policy)
      in map_put (pl_ID policy) policy a)"

definition RemovePolicy :: "string \<Rightarrow> ABACAuthorizer \<Rightarrow> ABACAuthorizer" where
  "RemovePolicy policyID a = map_delete policyID a"

definition rule_of :: "string \<Rightarrow> operator \<Rightarrow> string \<Rightarrow> string list \<Rightarrow> Rule" where
  "rule_of attribute op v vs = \<lparr>ru_Attribute = attribute, ru_Operator = op, ru_Value = v, ru_Values = vs\<rparr>"

definition default_policies :: "gotime \<Rightarrow> Policy list" where
  "default_policies now =
     [\<lparr>pl_ID = ''admin-full-access'', pl_Name = ''Admin Full Access'',
       pl_Description = ''Administrators have full access to all resources'', pl_Effect = EffectAllow,
       pl_Rules = [rule_of ''subject.roles'' OpContains ''admin'' []],
       pl_Priority = 100, pl_Enabled = True, pl_CreatedAt = now, pl_UpdatedAt = now\<rparr>,
      \<lparr>pl_ID = ''user-pin-access'', pl_Name = ''User Pin Access'',
       pl_Description = ''Users can manage pins in their tenant'', pl_Effect = EffectAllow,
       pl_Rules = [rule_of ''subject.roles'' OpContains ''user'' [], rule_of ''resource.name'' OpEquals ''pin'' [],
                   rule_of ''action.name'' OpIn [] [''pin:add'', ''pin:remove'', ''pin:get'', ''pin:list'']],
       pl_Priority = 50, pl_Enabled = True, pl_CreatedAt = now, pl_UpdatedAt = now\<rparr>,
      \<lparr>pl_ID = ''viewer-read-access'', pl_Name = ''Viewer Read Access'',
       pl_Description = ''Viewers have read-only access'', pl_Effect = EffectAllow,
       pl_Rules = [rule_of ''subject.roles'' OpContains ''viewer'' [],
                   rule_of ''action.name'' OpIn [] [''pin:get'', ''pin:list'', ''status:get'', ''health:get'', ''metrics:get'']],
       pl_Priority = 25, pl_Enabled = True, pl_CreatedAt = now, pl_UpdatedAt = now\<rparr>,
      \<lparr>pl_ID = ''business-hours-only'', pl_Name = ''Business Hours Only'',
       pl_Description = ''Restrict access to business hours (9 AM - 5 PM)'', pl_Effect = EffectDeny,
       pl_Rules = [rule_of ''time.hour'' OpLessThan ''9'' []],
       pl_Priority = 75, pl_Enabled = False, pl_CreatedAt = now, pl_UpdatedAt = now\<rparr>]"

definition NewABACAuthorizer :: "gotime \<Rightarrow> ABACAuthorizer" where
  "NewABACAuthorizer now = foldl (\<lambda>a policy. map_put (pl_ID policy) policy a) [] (default_policies now)"

section \<open>Sorting by priority\<close>

text \<open>\<open>dom_at ps i k\<close>: the policy at \<open>i\<close> has at least the priority of those up to \<open>k\<close>.\<close>

definition dom_at :: "Policy list \<Rightarrow> nat \<Rightarrow> nat \<Rightarrow> bool" where
  "dom_at ps i k \<longleftrightarrow> (\<forall>j. i < j \<and> j < k \<longrightarrow> pl_Priority (ps ! j) \<le> pl_Priority (ps ! i))"

lemma exchange_length [simp]: "length (exchange i ps j) = length ps"
  by (simp add: exchange_def)

lemma exchange_mset: "i < length ps \<Longrightarrow> j < length ps \<Longrightarrow> mset (exchange i ps j) = mset ps"
  by (simp add: exchange_def mset_swap)

lemma exchange_below: "a < i \<Longrightarrow> i < j \<Longrightarrow> exchange i ps j ! a = ps ! a"
  by (simp add: exchange_def)

lemma exchange_above:
  "i < j \<Longrightarrow> j < length ps \<Longrightarrow> i \<le> b \<Longrightarrow> b < length ps \<Longrightarrow> \<exists>b'\<ge>i. b' < length ps \<and> exchange i ps j ! b = ps ! b'"
  unfolding exchange_def by (cases "b = i"; cases "b = j") (auto intro: less_imp_le)

lemma exchange_dom: "i < j \<Longrightarrow> j < length ps \<Longrightarrow> dom_at ps i j \<Longrightarrow> dom_at (exchange i ps j) i (Suc j)"
  by (auto simp: dom_at_def exchange_def nth_list_update less_Suc_eq)

lemma pass_spec:
  assumes "i < length ps" "k \<le> length ps" "i < k"
  defines "qs \<equiv> foldl (exchange i) ps [Suc i..<k]"
  shows "length qs = length ps" "mset qs = mset ps" "\<forall>a<i. qs ! a = ps ! a"
    "\<forall>b. i \<le> b \<and> b < length ps \<longrightarrow> (\<exists>b'\<ge>i. b' < length ps \<and> qs ! b = ps ! b')" "dom_at qs i k"
proof -
  have "length qs = length ps \<and> mset qs = mset ps \<and> (\<forall>a<i. qs ! a = ps ! a) \<and>
    (\<forall>b. i \<le> b \<and> b < length ps \<longrightarrow> (\<exists>b'\<ge>i. b' < length ps \<and> qs ! b = ps ! b')) \<and> dom_at qs i k"
    unfolding qs_def using assms(2,3)
  proof (induction k)
    case (Suc k)
    show ?case
    proof (cases "i < k")
      case False
      with Suc.prems have "[Suc i..<Suc k] = []" "k = i" by simp_all
      then show ?thesis by (auto simp: dom_at_def)
    next
      case True
      let ?rs = "foldl (exchange i) ps [Suc i..<k]"
      from Suc True have IH: "length ?rs = length ps" "mset ?rs = mset ps" "\<forall>a<i. ?rs ! a = ps ! a"
        "\<forall>b. i \<le> b \<and> b < length ps \<longrightarrow> (\<exists>b'\<ge>i. b' < length ps \<and> ?rs ! b = ps ! b')" "dom_at ?rs i k" by simp_all
      have f: "foldl (exchange i) ps [Suc i..<Suc k] = exchange i ?rs k" using True by simp
      have k: "k < length ?rs" using Suc.prems IH(1) by simp
      have "\<exists>b'\<ge>i. b' < length ps \<and> exchange i ?rs k ! b = ps ! b'" if "i \<le> b" "b < length ps" for b
        using exchange_above [OF True k that(1)] that(2) IH(1,4) by metis
      with True k IH exchange_dom [OF True k IH(5)] show ?thesis
        unfolding f using assms(1) by (simp add: exchange_mset exchange_below)
    qed
  qed simp
  then show "length qs = length ps" "mset qs = mset ps" "\<forall>a<i. qs ! a = ps ! a"
    "\<forall>b. i \<le> b \<and> b < length ps \<longrightarrow> (\<exists>b'\<ge>i. b' < length ps \<and> qs ! b = ps ! b')" "dom_at qs i k" by blast+
qed

lemma passes_spec:
  assumes "n = length ps" "k \<le> n"
  defines "qs \<equiv> foldl (\<lambda>ps i. foldl (exchange i) ps [Suc i..<n]) ps [0..<k]"
  shows "length qs = n \<and> mset qs = mset ps \<and> (\<forall>a<k. dom_at qs a n)"
  unfolding qs_def using assms(2)
proof (induction k)
  case (Suc k)
  let ?rs = "foldl (\<lambda>ps i. foldl (exchange i) ps [Suc i..<n]) ps [0..<k]"
  let ?qs = "foldl (exchange k) ?rs [Suc k..<n]"
  from Suc have IH: "length ?rs = n" "mset ?rs = mset ps" "\<forall>a<k. dom_at ?rs a n" by simp_all
  have pass: "length ?qs = n" "mset ?qs = mset ?rs" "\<forall>a<k. ?qs ! a = ?rs ! a"
    "\<forall>b. k \<le> b \<and> b < n \<longrightarrow> (\<exists>b'\<ge>k. b' < n \<and> ?qs ! b = ?rs ! b')" "dom_at ?qs k n"
    using pass_spec [of k ?rs n] Suc.prems IH(1) by simp_all
  have "dom_at ?qs a n" if lt: "a < k" for a
    unfolding dom_at_def
  proof (intro allI impI)
    fix j assume j: "a < j \<and> j < n"
    obtain j' where "a < j'" "j' < n" "?qs ! j = ?rs ! j'"
    proof (cases "j < k")
      case True
      with j pass(3) that show ?thesis by auto
    next
      case False
      with j pass(4) obtain b' where "b' \<ge> k" "b' < n" "?qs ! j = ?rs ! b'" by (meson not_le)
      with that [of b'] lt show ?thesis by simp
    qed
    with IH(3) pass(3) lt show "pl_Priority (?qs ! j) \<le> pl_Priority (?qs ! a)" by (simp add: dom_at_def)
  qed
  with pass IH(2) show ?case by (auto simp: less_Suc_eq)
qed (use assms(1) in simp)

lemma policies_sorted:
  "mset (getApplicablePolicies a) = mset (map snd a)"
  "sorted_wrt (\<lambda>p q. pl_Priority q \<le> pl_Priority p) (getApplicablePolicies a)"
proof -
  let ?n = "length (map snd a)" and ?qs = "getApplicablePolicies a"
  from passes_spec [of ?n "map snd a" "?n - 1"] have s: "length ?qs = ?n" "mset ?qs = mset (map snd a)"
    "\<forall>i<?n - 1. dom_at ?qs i ?n" unfolding getApplicablePolicies_def Let_def by auto
  then show "mset ?qs = mset (map snd a)" by simp
  show "sorted_wrt (\<lambda>p q. pl_Priority q \<le> pl_Priority p) ?qs"
    unfolding sorted_wrt_iff_nth_less using s(1,3) by (auto simp: dom_at_def)
qed

section \<open>The decision\<close>

definition applies :: "numeric \<Rightarrow> clock \<Rightarrow> AuthContext \<Rightarrow> Policy \<Rightarrow> bool" where
  "applies numeric clk c p \<longleftrightarrow> pl_Enabled p \<and> evaluatePolicy numeric p (buildEvaluationContext clk c)"

text \<open>No two policies of the same priority that apply to the request have opposite effects.\<close>

definition ties_agree :: "numeric \<Rightarrow> clock \<Rightarrow> AuthContext \<Rightarrow> Policy set \<Rightarrow> bool" where
  "ties_agree numeric clk c P \<longleftrightarrow>
     (\<forall>p\<in>P. \<forall>q\<in>P. applies numeric clk c p \<and> applies numeric clk c q \<and> pl_Priority p = pl_Priority q \<longrightarrow>
        (pl_Effect p = EffectDeny \<longleftrightarrow> pl_Effect q = EffectDeny))"

lemma policy_loop_sorted:
  assumes "sorted_wrt (\<lambda>p q. pl_Priority q \<le> pl_Priority p) ps" "ties_agree numeric clk c (set ps)"
  shows "policy_loop numeric (buildEvaluationContext clk c) ps = None \<longleftrightarrow>
    (\<exists>p\<in>set ps. applies numeric clk c p \<and> pl_Effect p \<noteq> EffectDeny \<and>
       (\<forall>q\<in>set ps. applies numeric clk c q \<longrightarrow> pl_Priority q \<le> pl_Priority p))"
  using assms
proof (induction ps)
  case (Cons p ps)
  have ties: "ties_agree numeric clk c (set ps)" using Cons.prems(2) unfolding ties_agree_def by (meson list.set_intros(2))
  show ?case
  proof (cases "applies numeric clk c p")
    case False
    then have "policy_loop numeric (buildEvaluationContext clk c) (p # ps) = policy_loop numeric (buildEvaluationContext clk c) ps"
      by (simp add: applies_def)
    moreover have "sorted_wrt (\<lambda>p q. pl_Priority q \<le> pl_Priority p) ps" using Cons.prems(1) by simp
    ultimately show ?thesis using Cons.IH ties False by simp
  next
    case True
    then have "policy_loop numeric (buildEvaluationContext clk c) (p # ps) = None \<longleftrightarrow> pl_Effect p \<noteq> EffectDeny"
      by (simp add: applies_def)
    moreover have "pl_Effect p \<noteq> EffectDeny" if q: "q \<in> set (p # ps)" "applies numeric clk c q" "pl_Effect q \<noteq> EffectDeny"
      "pl_Priority p \<le> pl_Priority q" for q
    proof -
      have "pl_Priority q \<le> pl_Priority p" using q(1) Cons.prems(1) by auto
      then have "pl_Priority p = pl_Priority q" using q(4) by simp
      with q(1-3) True Cons.prems(2) show ?thesis unfolding ties_agree_def by (meson list.set_intros(1))
    qed
    moreover have "pl_Priority q \<le> pl_Priority p" if "q \<in> set (p # ps)" for q using that Cons.prems(1) by auto
    ultimately show ?thesis using True by (meson list.set_intros(1))
  qed
qed simp

lemma abac_granted_iff:
  assumes "ties_agree numeric clk c (snd ` set a)"
  shows "fst (abac_Authorize numeric clk a c) = None \<longleftrightarrow>
    ac_Principal c \<noteq> None \<and>
    (\<exists>p\<in>snd ` set a. applies numeric clk c p \<and> pl_Effect p \<noteq> EffectDeny \<and>
       (\<forall>q\<in>snd ` set a. applies numeric clk c q \<longrightarrow> pl_Priority q \<le> pl_Priority p))"
proof -
  have s: "set (getApplicablePolicies a) = snd ` set a" using policies_sorted(1) [of a] by (metis set_mset_mset set_map)
  from policy_loop_sorted [OF policies_sorted(2), of numeric clk c a, unfolded s, OF assms] show ?thesis
    by (simp add: abac_Authorize_def split: option.splits)
qed


section \<open>The default policies\<close>

lemma str_contains_iff: "str_contains s sub \<longleftrightarrow> (\<exists>x y. s = x @ sub @ y)"
proof (induction s)
  case (Cons c s)
  have "(\<exists>x y. c # s = x @ sub @ y) \<longleftrightarrow> HasPrefix (c # s) sub \<or> (\<exists>x y. s = x @ sub @ y)"
    by (auto simp: HasPrefix_iff Cons_eq_append_conv append_eq_Cons_conv)
  with Cons show ?case by simp
qed auto

lemma str_contains_join: "role \<in> set roles \<Longrightarrow> str_contains role sub \<Longrightarrow> str_contains (str_join c roles) sub"
proof (induction c roles rule: str_join.induct)
  case (3 c s t ss)
  show ?case
  proof (cases "role = s")
    case True
    with 3(3) obtain x y where "s = x @ sub @ y" by (auto simp: str_contains_iff)
    then have "str_join c (s # t # ss) = x @ sub @ (y @ c # str_join c (t # ss))" by simp
    then show ?thesis unfolding str_contains_iff by blast
  next
    case False
    with 3 obtain x y where "str_join c (t # ss) = x @ sub @ y" by (auto simp: str_contains_iff)
    then have "str_join c (s # t # ss) = (s @ c # x) @ sub @ y" by simp
    then show ?thesis unfolding str_contains_iff by blast
  qed
qed simp_all

lemma map_of_put_all: "wf_map src \<Longrightarrow> map_of (put_all src dst) = map_of dst ++ map_of src"
proof (induction src arbitrary: dst)
  case (Cons e src)
  obtain k v where e: "e = (k, v)" by fastforce
  with Cons.prems have "wf_map src" "k \<notin> fst ` set src" by (simp_all add: wf_map_Cons)
  with Cons.IH [of "map_put k v dst"] e show ?case
    by (auto simp: put_all_def fun_eq_iff map_add_def map_of_eq_None_iff [symmetric] split: option.splits)
qed (simp add: put_all_def)

text \<open>The string of roles a policy sees: an attribute of that name takes the place of the roles.\<close>

definition roles_string :: "Principal \<Rightarrow> string" where
  "roles_string prin = (case map_of (pr_Attrs prin) ''roles'' of Some v \<Rightarrow> v | None \<Rightarrow> str_join (CHR '','') (pr_Roles prin))"

lemma subject_roles:
  assumes "ac_Principal c = Some prin" "wf_map (pr_Attrs prin)"
  shows "getAttributeValue ''subject.roles'' (buildEvaluationContext clk c) = roles_string prin"
  using assms
  by (simp add: getAttributeValue_def buildEvaluationContext_def map_get_def map_of_put_all map_add_def roles_string_def
      split: option.splits)

lemma default_list: "map snd (NewABACAuthorizer now) = default_policies now"
  by (simp add: NewABACAuthorizer_def default_policies_def)

lemma default_set: "snd ` set (NewABACAuthorizer now) = set (default_policies now)"
  by (metis default_list set_map)

lemma default_ties: "ties_agree numeric clk c (set (default_policies now))"
proof -
  have "pl_Effect p = EffectDeny \<Longrightarrow> \<not> pl_Enabled p" if "p \<in> set (default_policies now)" for p
    using that by (auto simp: default_policies_def)
  then show ?thesis unfolding ties_agree_def applies_def by blast
qed

definition admin_policy :: "gotime \<Rightarrow> Policy" where
  "admin_policy now = default_policies now ! 0"

definition hours_policy :: "gotime \<Rightarrow> Policy" where
  "hours_policy now = default_policies now ! 3"

lemma admin_applies:
  assumes "ac_Principal c = Some prin" "wf_map (pr_Attrs prin)"
  shows "applies numeric clk c (admin_policy now) \<longleftrightarrow> str_contains (roles_string prin) ''admin''"
  using subject_roles [OF assms, of clk]
  by (simp add: applies_def admin_policy_def default_policies_def evaluatePolicy_def evaluateRule_def rule_of_def)

lemma default_priorities: "p \<in> set (default_policies now) \<Longrightarrow> pl_Priority p \<le> 100"
  by (auto simp: default_policies_def)

text \<open>
  The default administrator policy is a search for a substring. With the default policies every request is granted to a
  principal one of whose roles merely contains the letters \<open>admin\<close>, and, whatever the roles are, to one that
  carries an attribute named \<open>roles\<close> with these letters.
\<close>

theorem abac_admin_substring:
  assumes "ac_Principal c = Some prin" "wf_map (pr_Attrs prin)"
    and "if map_of (pr_Attrs prin) ''roles'' = None then \<exists>role\<in>set (pr_Roles prin). str_contains role ''admin''
      else str_contains (the (map_of (pr_Attrs prin) ''roles'')) ''admin''"
  shows "fst (abac_Authorize numeric clk (NewABACAuthorizer now) c) = None"
proof -
  have "str_contains (roles_string prin) ''admin''"
    using assms(3) str_contains_join by (auto simp: roles_string_def split: if_splits option.splits)
  with admin_applies [OF assms(1,2)] have ap: "applies numeric clk c (admin_policy now)" by simp
  have "admin_policy now \<in> set (default_policies now)" "pl_Effect (admin_policy now) \<noteq> EffectDeny" "pl_Priority (admin_policy now) = 100"
    by (simp_all add: admin_policy_def default_policies_def)
  with ap default_priorities abac_granted_iff [of numeric clk c "NewABACAuthorizer now", unfolded default_set, OF default_ties] assms(1)
  show ?thesis by (metis option.distinct(1))
qed

definition example_clock :: clock where
  "example_clock = \<lparr>clk_Hour = 12, clk_Weekday = 1, clk_Unix = 9\<rparr>"

theorem abac_admin_substring_witness:
  "fst (abac_Authorize (\<lambda>_ _. None) example_clock (NewABACAuthorizer 0)
     (example_request (example_principal [''not-an-admin''] []) ''cluster'' ''pin:remove'' [])) = None"
proof -
  let ?p = "example_principal [''not-an-admin''] []"
  have "if map_of (pr_Attrs ?p) ''roles'' = None then \<exists>role\<in>set (pr_Roles ?p). str_contains role ''admin''
      else str_contains (the (map_of (pr_Attrs ?p) ''roles'')) ''admin''" by code_simp
  from abac_admin_substring [OF _ _ this] show ?thesis by (simp add: example_request_def example_principal_def)
qed

section \<open>Business hours\<close>

text \<open>The authoriser with the policy for business hours turned on.\<close>

definition hours_enabled :: "gotime \<Rightarrow> gotime \<Rightarrow> ABACAuthorizer" where
  "hours_enabled t now = AddPolicy t ((hours_policy now)\<lparr>pl_Enabled := True\<rparr>) (NewABACAuthorizer now)"

lemma hours_set:
  "\<exists>h u v. snd ` set (hours_enabled t now) = {admin_policy now, u, v, h} \<and>
     pl_Priority u = 50 \<and> pl_Priority v = 25 \<and> pl_Priority h = 75 \<and> pl_Effect h = EffectDeny \<and> pl_Enabled h \<and>
     pl_Effect u = EffectAllow \<and> pl_Effect v = EffectAllow \<and>
     pl_Rules h = [rule_of ''time.hour'' OpLessThan ''9'' []]"
proof -
  let ?l = "map snd (hours_enabled t now)"
  have "\<exists>h. ?l = [default_policies now ! 0, default_policies now ! 1, default_policies now ! 2, h] \<and>
    pl_Priority h = 75 \<and> pl_Effect h = EffectDeny \<and> pl_Enabled h \<and> pl_Rules h = [rule_of ''time.hour'' OpLessThan ''9'' []]"
    by (simp add: hours_enabled_def hours_policy_def NewABACAuthorizer_def default_policies_def AddPolicy_def Let_def)
  then obtain h where h: "?l = [default_policies now ! 0, default_policies now ! 1, default_policies now ! 2, h]"
    "pl_Priority h = 75" "pl_Effect h = EffectDeny" "pl_Enabled h" "pl_Rules h = [rule_of ''time.hour'' OpLessThan ''9'' []]"
    by (elim exE conjE) (rule that)
  have "snd ` set (hours_enabled t now) = set ?l" by simp
  also have "\<dots> = {admin_policy now, default_policies now ! 1, default_policies now ! 2, h}" by (simp add: h(1) admin_policy_def)
  finally show ?thesis
    using h(2-) by (intro exI [of _ h] exI [of _ "default_policies now ! 1"] exI [of _ "default_policies now ! 2"])
      (simp add: default_policies_def)
qed

text \<open>
  The policy for business hours denies at every hour. Its rule asks for the attribute \<open>time.hour\<close>, but the
  hour is stored under \<open>context.time.hour\<close>; the unknown attribute is the empty string, which is not a number and
  comes before every other string. With the policy turned on, a principal whose roles do not contain \<open>admin\<close> is refused
  everything at any time.
\<close>

theorem abac_business_hours:
  assumes "ac_Principal c = Some prin" "wf_map (pr_Attrs prin)" "\<not> str_contains (roles_string prin) ''admin''"
    and "numeric [] ''9'' = None"
  shows "fst (abac_Authorize numeric clk (hours_enabled t now) c) \<noteq> None"
proof -
  obtain h u v where s: "snd ` set (hours_enabled t now) = {admin_policy now, u, v, h}"
    "pl_Priority u = 50" "pl_Priority v = 25" "pl_Priority h = 75" "pl_Effect h = EffectDeny" "pl_Enabled h"
    "pl_Effect u = EffectAllow" "pl_Effect v = EffectAllow" "pl_Rules h = [rule_of ''time.hour'' OpLessThan ''9'' []]"
    using hours_set [of t now] by (elim exE conjE) (rule that)
  have na: "\<not> applies numeric clk c (admin_policy now)" using admin_applies [OF assms(1,2)] assms(3) by simp
  have ah: "applies numeric clk c h"
    using s(6,9) assms(4)
    by (simp add: applies_def evaluatePolicy_def evaluateRule_def rule_of_def getAttributeValue_def compareNumeric_def)
  have "ties_agree numeric clk c (snd ` set (hours_enabled t now))"
    using na s(2-8) by (auto simp: ties_agree_def s(1))
  from abac_granted_iff [OF this] show ?thesis using s na ah by auto
qed

theorem abac_business_hours_witness:
  "fst (abac_Authorize (\<lambda>_ _. None) example_clock (hours_enabled 1 0)
     (example_request (example_principal [''user''] []) ''pin'' ''pin:get'' [])) \<noteq> None"
proof -
  let ?p = "example_principal [''user''] []"
  have "\<not> str_contains (roles_string ?p) ''admin''" by code_simp
  from abac_business_hours [OF _ _ this] show ?thesis by (simp add: example_request_def example_principal_def)
qed

interpretation abac_auth: authorizer_contract "abac_Authorize numeric clk a" for numeric clk a
  by unfold_locales (simp_all add: abac_Authorize_def)


end
