(* ===== verification/Auth_Service.thy ===== *)
theory Auth_Service
  imports Auth_Abac
begin

text \<open>
  \<open>auth/service.go\<close>, the choice of an engine in \<open>auth/policy_engine.go\<close>, and \<open>auth/apikey.go\<close>. The service
  keeps what it gave to the audit logger; authenticators enter as functions from tokens to principals. The hash and
  the base64 codec of API keys are fields of \<open>key_env\<close>, and random bytes are arguments. The lemmas show that no
  access across tenants is recorded as granted, and that an API key authenticates from its creation until it is
  revoked or expires.
\<close>

section \<open>The policy engine\<close>

datatype engine_type = PolicyEngineRBAC | PolicyEngineABAC | PolicyEngineOther string

type_synonym engine = "clock \<Rightarrow> authorizer"

text \<open>An engine reads the clock at each request, so it is a function of the clock then.\<close>

definition CreatePolicyEngine :: "numeric \<Rightarrow> gotime \<Rightarrow> engine_type \<Rightarrow> bool \<Rightarrow> auth_error + engine" where
  "CreatePolicyEngine numeric now engineType multiTenant =
     (let wrap = (\<lambda>engine clk. if multiTenant then mt_Authorize True (engine clk) else engine clk)
      in case engineType of
           PolicyEngineRBAC \<Rightarrow> Inr (wrap (\<lambda>clk. rbac_Authorize NewRBACAuthorizer))
         | PolicyEngineABAC \<Rightarrow> Inr (wrap (\<lambda>clk. abac_Authorize numeric clk (NewABACAuthorizer now)))
         | PolicyEngineOther s \<Rightarrow> Inl (''unsupported policy engine type: '' @ s))"

section \<open>The service\<close>

text \<open>The values that the context of a call may carry.\<close>

record call_ctx =
  cx_request_id :: "string option"
  cx_client_ip :: "string option"
  cx_user_agent :: "string option"

datatype access_result = AccessGranted | AccessDenied | AccessError

record AccessEvent =
  ae_Timestamp :: gotime
  ae_Principal :: "Principal option"
  ae_Resource :: string
  ae_Action :: string
  ae_Result :: access_result
  ae_Error :: string
  ae_Context :: "(string, string) gomap"
  ae_RequestID :: string
  ae_ClientIP :: string
  ae_UserAgent :: string

datatype auth_result = AuthSuccess | AuthFailure | AuthError

record AuthEvent =
  ev_Timestamp :: gotime
  ev_Method :: string
  ev_Result :: auth_result
  ev_Principal :: "Principal option"
  ev_Error :: string
  ev_ClientIP :: string
  ev_UserAgent :: string

text \<open>
  An authenticator is an object with its own state, and the service keeps a reference of type \<open>'h\<close> to it. The map
  of authenticators is \<^term>\<open>None\<close> when it is nil, as in a service that was created disabled. \<open>sv_audit\<close> is
  \<^term>\<open>None\<close> when there is no audit logger, and else the events it was given; an error of the logger only
  reaches the log.
\<close>

record 'h AuthService =
  sv_Enabled :: bool
  sv_AuthzEnabled :: bool
  sv_PolicyEngine :: string
  sv_MultiTenantEnabled :: bool
  sv_authenticators :: "(string, 'h) gomap option"
  sv_authorizer :: "engine option"
  sv_audit :: "(AccessEvent list \<times> AuthEvent list) option"

text \<open>Reading a nil map finds nothing; writing to it panics (\<^term>\<open>None\<close>).\<close>

definition find_authenticator :: "string \<Rightarrow> 'h AuthService \<Rightarrow> 'h option" where
  "find_authenticator meth s = (case sv_authenticators s of None \<Rightarrow> None | Some m \<Rightarrow> map_of m meth)"

definition RegisterAuthenticator :: "string \<Rightarrow> 'h \<Rightarrow> 'h AuthService \<Rightarrow> 'h AuthService option" where
  "RegisterAuthenticator meth h s =
     (case sv_authenticators s of
        None \<Rightarrow> None
      | Some m \<Rightarrow> Some (s\<lparr>sv_authenticators := Some (map_put meth h m)\<rparr>))"

definition SetAuthorizer :: "engine option \<Rightarrow> 'h AuthService \<Rightarrow> 'h AuthService" where
  "SetAuthorizer a s = s\<lparr>sv_authorizer := a\<rparr>"

definition initializeAuthorizer :: "numeric \<Rightarrow> gotime \<Rightarrow> 'h AuthService \<Rightarrow> auth_error option \<times> 'h AuthService" where
  "initializeAuthorizer numeric now s =
     (case (if sv_PolicyEngine s = ''rbac'' then Some PolicyEngineRBAC
            else if sv_PolicyEngine s = ''abac'' then Some PolicyEngineABAC else None) of
        None \<Rightarrow> (Some (''unsupported policy engine: '' @ sv_PolicyEngine s), s)
      | Some engineType \<Rightarrow>
          (case CreatePolicyEngine numeric now engineType (sv_MultiTenantEnabled s) of
             Inl e \<Rightarrow> (Some (''failed to create policy engine: '' @ e), s)
           | Inr a \<Rightarrow> (None, s\<lparr>sv_authorizer := Some a\<rparr>)))"

definition str_or_empty :: "string option \<Rightarrow> string" where
  "str_or_empty v = (case v of None \<Rightarrow> [] | Some x \<Rightarrow> x)"

definition logAuthEvent ::
  "call_ctx \<Rightarrow> gotime \<Rightarrow> string \<Rightarrow> auth_result \<Rightarrow> Principal option \<Rightarrow> string \<Rightarrow> 'h AuthService \<Rightarrow> 'h AuthService" where
  "logAuthEvent ctx now meth result prin errorMsg s =
     (case sv_audit s of
        None \<Rightarrow> s
      | Some (acc, auth) \<Rightarrow>
          s\<lparr>sv_audit := Some (acc, auth @
            [\<lparr>ev_Timestamp = now, ev_Method = meth, ev_Result = result, ev_Principal = prin, ev_Error = errorMsg,
              ev_ClientIP = str_or_empty (cx_client_ip ctx), ev_UserAgent = str_or_empty (cx_user_agent ctx)\<rparr>])\<rparr>)"

definition logAccessEvent :: "call_ctx \<Rightarrow> AccessEvent \<Rightarrow> 'h AuthService \<Rightarrow> 'h AuthService" where
  "logAccessEvent ctx event s =
     (case sv_audit s of
        None \<Rightarrow> s
      | Some (acc, auth) \<Rightarrow>
          s\<lparr>sv_audit := Some (acc @
            [event\<lparr>ae_RequestID := str_or_empty (cx_request_id ctx), ae_ClientIP := str_or_empty (cx_client_ip ctx),
                   ae_UserAgent := str_or_empty (cx_user_agent ctx)\<rparr>], auth)\<rparr>)"

text \<open>\<open>authenticate\<close> is what the registered object answers at the time of the call.\<close>

definition service_Authenticate ::
  "('h \<Rightarrow> string \<Rightarrow> auth_error + Principal) \<Rightarrow> call_ctx \<Rightarrow> gotime \<Rightarrow> string \<Rightarrow> string \<Rightarrow> 'h AuthService
     \<Rightarrow> (auth_error + Principal) \<times> 'h AuthService" where
  "service_Authenticate authenticate ctx now meth token s =
     (if \<not> sv_Enabled s then (Inl ''authentication is disabled'', s)
      else
        (case find_authenticator meth s of
           None \<Rightarrow>
             let err = ''authenticator for method '' @ meth @ '' not found''
             in (Inl err, logAuthEvent ctx now meth AuthFailure None err s)
         | Some h \<Rightarrow>
             (case authenticate h token of
                Inl err \<Rightarrow> (Inl (''authentication failed: '' @ err), logAuthEvent ctx now meth AuthFailure None err s)
              | Inr prin \<Rightarrow> (Inr prin, logAuthEvent ctx now meth AuthSuccess (Some prin) [] s))))"

definition service_ValidateToken ::
  "('h \<Rightarrow> string \<Rightarrow> auth_error option) \<Rightarrow> string \<Rightarrow> string \<Rightarrow> 'h AuthService \<Rightarrow> auth_error option" where
  "service_ValidateToken validate meth token s =
     (if \<not> sv_Enabled s then None
      else
        (case find_authenticator meth s of
           None \<Rightarrow> Some (''authenticator for method '' @ meth @ '' not found'')
         | Some h \<Rightarrow> validate h token))"

definition service_Authorize ::
  "call_ctx \<Rightarrow> clock \<Rightarrow> gotime \<Rightarrow> AuthContext \<Rightarrow> 'h AuthService \<Rightarrow> auth_error option \<times> AuthContext \<times> 'h AuthService" where
  "service_Authorize ctx clk now authCtx s =
     (if \<not> sv_Enabled s \<or> \<not> sv_AuthzEnabled s then (None, authCtx, s)
      else
        (case sv_authorizer s of
           None \<Rightarrow> (Some ''authorizer not initialized'', authCtx, s)
         | Some a \<Rightarrow>
             (case a clk authCtx of
                (err, authCtx) \<Rightarrow>
                  (err, authCtx, logAccessEvent ctx
                     \<lparr>ae_Timestamp = now, ae_Principal = ac_Principal authCtx, ae_Resource = ac_Resource authCtx,
                      ae_Action = ac_Action authCtx, ae_Result = (if err = None then AccessGranted else AccessDenied),
                      ae_Error = str_or_empty err, ae_Context = ac_Context authCtx,
                      ae_RequestID = [], ae_ClientIP = [], ae_UserAgent = []\<rparr> s))))"

section \<open>API keys\<close>

record APIKey =
  ak_ID :: string
  ak_Name :: string
  ak_HashedKey :: string
  ak_PrincipalID :: string
  ak_Type :: string
  ak_TenantID :: string
  ak_Roles :: "string list"
  ak_Attrs :: "(string, string) gomap"
  ak_CreatedAt :: gotime
  ak_ExpiresAt :: "gotime option"
  ak_LastUsedAt :: "gotime option"
  ak_IsActive :: bool

type_synonym key_store = "(string, APIKey) gomap"

record key_env =
  ke_hash :: "string \<Rightarrow> string"
  ke_encode :: "string \<Rightarrow> string"
  ke_decode :: "string \<Rightarrow> auth_error + string"

record CreateAPIKeyRequest =
  cr_Name :: string
  cr_PrincipalID :: string
  cr_Type :: string
  cr_TenantID :: string
  cr_Roles :: "string list"
  cr_Attrs :: "(string, string) gomap"
  cr_TTL :: duration

record CreateAPIKeyResponse =
  rs_ID :: string
  rs_Token :: string
  rs_ExpiresAt :: "gotime option"

definition StoreAPIKey :: "APIKey \<Rightarrow> key_store \<Rightarrow> key_store" where
  "StoreAPIKey apiKey keys = map_put (ak_HashedKey apiKey) apiKey keys"

definition GetAPIKey :: "string \<Rightarrow> key_store \<Rightarrow> auth_error + APIKey" where
  "GetAPIKey hashedKey keys = (case map_of keys hashedKey of None \<Rightarrow> Inl ''API key not found'' | Some k \<Rightarrow> Inr k)"

definition ListAPIKeys :: "string \<Rightarrow> key_store \<Rightarrow> APIKey list" where
  "ListAPIKeys principalID keys = filter (\<lambda>k. ak_PrincipalID k = principalID) (map snd keys)"

definition UpdateAPIKey :: "APIKey \<Rightarrow> key_store \<Rightarrow> auth_error option \<times> key_store" where
  "UpdateAPIKey apiKey keys =
     (if map_of keys (ak_HashedKey apiKey) = None then (Some ''API key not found'', keys)
      else (None, map_put (ak_HashedKey apiKey) apiKey keys))"

text \<open>The next two loops stop at the first key with the ID, in the order of the list.\<close>

definition DeleteAPIKey :: "string \<Rightarrow> key_store \<Rightarrow> auth_error option \<times> key_store" where
  "DeleteAPIKey keyID keys =
     (case find (\<lambda>(h, k). ak_ID k = keyID) keys of
        None \<Rightarrow> (Some ''API key not found'', keys)
      | Some (h, k) \<Rightarrow> (None, map_delete h keys))"

definition UpdateLastUsed :: "string \<Rightarrow> gotime \<Rightarrow> key_store \<Rightarrow> auth_error option \<times> key_store" where
  "UpdateLastUsed keyID timestamp keys =
     (case find (\<lambda>(h, k). ak_ID k = keyID) keys of
        None \<Rightarrow> (Some ''API key not found'', keys)
      | Some (h, k) \<Rightarrow> (None, map_put h (k\<lparr>ak_LastUsedAt := Some timestamp\<rparr>) keys))"

text \<open>
  The update of the time of last use runs in a goroutine of its own after a success, so it is a separate step:
  \<open>UpdateLastUsed\<close>. A nil map of attributes and an empty one are both \<^term>\<open>[]\<close>.
\<close>

definition apikey_Authenticate :: "key_env \<Rightarrow> gotime \<Rightarrow> string \<Rightarrow> key_store \<Rightarrow> auth_error + Principal" where
  "apikey_Authenticate env now token keys =
     (if \<not> HasPrefix token ''ak_'' then Inl ''invalid API key format''
      else
        (case ke_decode env (drop 3 token) of
           Inl e \<Rightarrow> Inl (''invalid API key encoding: '' @ e)
         | Inr decoded \<Rightarrow>
             let hashedKey = ke_hash env decoded
             in case GetAPIKey hashedKey keys of
                  Inl e \<Rightarrow> Inl (''API key not found: '' @ e)
                | Inr k \<Rightarrow>
                    if \<not> ak_IsActive k then Inl ''API key is inactive''
                    else if (case ak_ExpiresAt k of None \<Rightarrow> False | Some t \<Rightarrow> t < now) then Inl ''API key expired''
                    else if hashedKey \<noteq> ak_HashedKey k then Inl ''invalid API key''
                    else
                      Inr \<lparr>pr_ID = ak_PrincipalID k, pr_Type = (if ak_Type k = [] then ''service'' else ak_Type k),
                           pr_TenantID = (if ak_TenantID k = [] then ''default'' else ak_TenantID k),
                           pr_Roles = ak_Roles k, pr_Attrs = ak_Attrs k, pr_Method = ''apikey'',
                           pr_IssuedAt = ak_CreatedAt k, pr_ExpiresAt = ak_ExpiresAt k\<rparr>))"

text \<open>
  \<open>keyID\<close> and \<open>secret\<close> are the hexadecimal random bytes, and \<open>now\<close> and \<open>now2\<close> the two readings of the clock. Reading
  random bytes and storing in memory do not fail.
\<close>

definition CreateAPIKey ::
  "key_env \<Rightarrow> string \<Rightarrow> string \<Rightarrow> gotime \<Rightarrow> gotime \<Rightarrow> CreateAPIKeyRequest \<Rightarrow> key_store \<Rightarrow> CreateAPIKeyResponse \<times> key_store" where
  "CreateAPIKey env keyID secret now now2 req keys =
     (let keyString = keyID @ '':'' @ secret;
          k = \<lparr>ak_ID = keyID, ak_Name = cr_Name req, ak_HashedKey = ke_hash env keyString, ak_PrincipalID = cr_PrincipalID req,
               ak_Type = cr_Type req, ak_TenantID = cr_TenantID req, ak_Roles = cr_Roles req, ak_Attrs = cr_Attrs req,
               ak_CreatedAt = now, ak_ExpiresAt = (if 0 < cr_TTL req then Some (now2 + cr_TTL req) else None),
               ak_LastUsedAt = None, ak_IsActive = True\<rparr>
      in (\<lparr>rs_ID = keyID, rs_Token = ''ak_'' @ ke_encode env keyString, rs_ExpiresAt = ak_ExpiresAt k\<rparr>, StoreAPIKey k keys))"

definition RevokeAPIKey :: "string \<Rightarrow> key_store \<Rightarrow> auth_error option \<times> key_store" where
  "RevokeAPIKey keyID keys = DeleteAPIKey keyID keys"

section \<open>Tenants are separated\<close>

text \<open>The calls that a running service handles, in any order.\<close>

inductive service_reach :: "'h AuthService \<Rightarrow> 'h AuthService \<Rightarrow> bool" for s0 where
  start: "service_reach s0 s0"
| authorize: "service_reach s0 s \<Longrightarrow> service_Authorize ctx clk now c s = (err, c', s') \<Longrightarrow> service_reach s0 s'"
| authenticate: "service_reach s0 s \<Longrightarrow> service_Authenticate answer ctx now meth token s = (r, s') \<Longrightarrow> service_reach s0 s'"
| register: "service_reach s0 s \<Longrightarrow> RegisterAuthenticator meth h s = Some s' \<Longrightarrow> service_reach s0 s'"

text \<open>A request stays within the tenant of its principal, unless the principal is an administrator.\<close>

definition own_tenant :: "Principal option \<Rightarrow> (string, string) gomap \<Rightarrow> bool" where
  "own_tenant prin context \<longleftrightarrow>
     (case prin of
        None \<Rightarrow> False
      | Some pr \<Rightarrow>
          (case map_of context ''resource_tenant'' of None \<Rightarrow> True | Some t \<Rightarrow> t = pr_TenantID pr \<or> hasAdminRole pr))"

context authorizer_contract
begin

lemma granted_own_tenant:
  assumes "mt_Authorize True authorize c = (None, c')"
  shows "own_tenant (ac_Principal c') (ac_Context c')"
proof -
  obtain pr where pr: "ac_Principal c = Some pr"
    and t: "\<forall>t. map_of (ac_Context c) ''resource_tenant'' = Some t \<longrightarrow> t = pr_TenantID pr \<or> hasAdminRole pr"
    using isolation [of c] assms by auto
  have "ac_Principal c' = ac_Principal c"
    "map_of (ac_Context c') ''resource_tenant'' = map_of (ac_Context c) ''resource_tenant''"
    using authorizer_contract.request_kept(1,4) [OF isolated_contract, of True c] assms by simp_all
  then show ?thesis
    using pr t by (simp add: own_tenant_def split: option.splits)
qed

end

definition isolates :: "engine \<Rightarrow> bool" where
  "isolates a \<longleftrightarrow> (\<forall>clk c c'. a clk c = (None, c') \<longrightarrow> own_tenant (ac_Principal c') (ac_Context c'))"

lemma engine_isolates:
  assumes "CreatePolicyEngine numeric now e True = Inr a"
  shows "isolates a"
  using assms rbac_auth.granted_own_tenant abac_auth.granted_own_tenant
  by (cases e) (auto simp: CreatePolicyEngine_def isolates_def)

lemma logAuthEvent_keeps:
  "sv_authorizer (logAuthEvent ctx now meth r p e s) = sv_authorizer s"
  "map_option fst (sv_audit (logAuthEvent ctx now meth r p e s)) = map_option fst (sv_audit s)"
  by (simp_all add: logAuthEvent_def split: option.splits prod.splits)

lemma Authenticate_keeps:
  assumes "service_Authenticate answer ctx now meth token s = (r, s')"
  shows "sv_authorizer s' = sv_authorizer s" "map_option fst (sv_audit s') = map_option fst (sv_audit s)"
  using assms
  by (auto simp: service_Authenticate_def Let_def logAuthEvent_keeps split: if_splits option.splits sum.splits)

lemma Authorize_logs:
  assumes "service_Authorize ctx clk now c s = (err, c', s')" and "sv_authorizer s = Some a" and "isolates a"
    and "sv_audit s' = Some (acc', auth')"
  shows "sv_authorizer s' = Some a"
    and "\<exists>acc auth evs. sv_audit s = Some (acc, auth) \<and> acc' = acc @ evs \<and>
      (\<forall>e\<in>set evs. ae_Result e = AccessGranted \<longrightarrow> own_tenant (ae_Principal e) (ae_Context e))"
  using assms
  by (auto simp: service_Authorize_def logAccessEvent_def isolates_def split: if_splits option.splits prod.splits)

lemma Authorize_keeps:
  assumes "service_Authorize ctx clk now c s = (err, c', s')"
  shows "sv_authorizer s' = sv_authorizer s"
  using assms by (auto simp: service_Authorize_def logAccessEvent_def split: if_splits option.splits prod.splits)

lemma reach_isolated:
  assumes "service_reach s0 s" and "sv_authorizer s0 = Some a" and "isolates a"
    and "\<And>acc auth. sv_audit s0 = Some (acc, auth) \<Longrightarrow> acc = []"
  shows "sv_authorizer s = Some a \<and>
    (\<forall>acc auth. sv_audit s = Some (acc, auth) \<longrightarrow>
      (\<forall>e\<in>set acc. ae_Result e = AccessGranted \<longrightarrow> own_tenant (ae_Principal e) (ae_Context e)))"
  using assms(1)
proof (induction rule: service_reach.induct)
  case start
  then show ?case using assms(2,4) by auto
next
  case (authorize s ctx clk now c err c' s')
  have a: "sv_authorizer s = Some a" using authorize.IH by blast
  show ?case
  proof (intro conjI allI impI)
    show "sv_authorizer s' = Some a" using Authorize_keeps [OF authorize.hyps(2)] a by simp
    fix acc' auth' assume log: "sv_audit s' = Some (acc', auth')"
    show "\<forall>e\<in>set acc'. ae_Result e = AccessGranted \<longrightarrow> own_tenant (ae_Principal e) (ae_Context e)"
      using Authorize_logs(2) [OF authorize.hyps(2) a assms(3) log] authorize.IH by fastforce
  qed
next
  case (authenticate s answer ctx now meth token r s')
  have "\<exists>auth0. sv_audit s = Some (acc, auth0)" if "sv_audit s' = Some (acc, auth)" for acc auth
    using Authenticate_keeps(2) [OF authenticate.hyps(2)] that by (cases "sv_audit s") auto
  then show ?case
    using Authenticate_keeps(1) [OF authenticate.hyps(2)] authenticate.IH by metis
next
  case (register s meth h s')
  then show ?case by (auto simp: RegisterAuthenticator_def split: option.splits)
qed

text \<open>
  C10. With multi-tenancy configured, whichever engine is chosen and whatever calls the service handles afterwards, the
  audit log never holds a granted access without a principal, or one to a resource of another tenant by a principal
  that is no administrator.\<close>

theorem audit_tenant_isolation:
  assumes "initializeAuthorizer numeric now s = (None, s0)" and "sv_MultiTenantEnabled s" and "sv_audit s = Some ([], [])"
    and "service_reach s0 s'" and "sv_audit s' = Some (acc, auth)" and "e \<in> set acc" and "ae_Result e = AccessGranted"
  shows "own_tenant (ae_Principal e) (ae_Context e)"
proof -
  obtain a ty where a: "s0 = s\<lparr>sv_authorizer := Some a\<rparr>" "CreatePolicyEngine numeric now ty True = Inr a"
    using assms(1,2) by (auto simp: initializeAuthorizer_def split: option.splits sum.splits if_splits)
  then show ?thesis
    using reach_isolated [OF assms(4) _ engine_isolates [OF a(2)]] assms(3,5-7) by simp
qed

definition example_service :: "unit AuthService" where
  "example_service =
     \<lparr>sv_Enabled = True, sv_AuthzEnabled = True, sv_PolicyEngine = ''rbac'', sv_MultiTenantEnabled = True,
      sv_authenticators = Some [], sv_authorizer = None, sv_audit = Some ([], [])\<rparr>"

definition example_ctx :: call_ctx where
  "example_ctx = \<lparr>cx_request_id = Some ''r1'', cx_client_ip = None, cx_user_agent = None\<rparr>"

definition tenant_request :: "string \<Rightarrow> AuthContext" where
  "tenant_request t = example_request (example_principal [''viewer''] []) ''pin'' ''pin:list'' [(''resource_tenant'', t)]"

definition example_started :: "unit AuthService" where
  "example_started = snd (initializeAuthorizer (\<lambda>x y. None) 0 example_service)"

definition example_served :: "string \<Rightarrow> unit AuthService" where
  "example_served t = snd (snd (service_Authorize example_ctx example_clock 5 (tenant_request t) example_started))"

definition example_log :: "string \<Rightarrow> AccessEvent list" where
  "example_log t = (case sv_audit (example_served t) of None \<Rightarrow> [] | Some (acc, auth) \<Rightarrow> acc)"

lemma example_starts:
  "initializeAuthorizer (\<lambda>x y. None) 0 example_service = (None, example_started)"
  by (simp add: example_started_def initializeAuthorizer_def example_service_def CreatePolicyEngine_def)

lemma example_outcomes:
  "map ae_Result (example_log ''t1'') = [AccessGranted]" "map ae_Result (example_log ''t2'') = [AccessDenied]"
  by code_simp+

theorem audit_tenant_isolation_witness:
  "\<exists>acc auth e. sv_audit (example_served ''t1'') = Some (acc, auth) \<and> acc = [e] \<and> ae_Result e = AccessGranted \<and>
     own_tenant (ae_Principal e) (ae_Context e) \<and> map ae_Result (example_log ''t2'') = [AccessDenied]"
proof -
  obtain acc auth where log: "sv_audit (example_served ''t1'') = Some (acc, auth)"
    using example_outcomes(1) by (auto simp: example_log_def split: option.splits)
  then obtain e where e: "acc = [e]" "ae_Result e = AccessGranted"
    using example_outcomes(1) by (auto simp: example_log_def)
  have reach: "service_reach example_started (example_served ''t1'')"
    unfolding example_served_def
    by (rule service_reach.authorize [OF service_reach.start prod.collapse [symmetric, THEN trans]])
      (rule arg_cong [where f = "Pair _"], rule prod.collapse [symmetric])
  have "own_tenant (ae_Principal e) (ae_Context e)"
    by (rule audit_tenant_isolation [OF example_starts _ _ reach log _ e(2)])
      (simp_all only: e(1) example_service_def AuthService.select_convs list.set insert_iff simp_thms)
  then show ?thesis
    by (intro exI conjI) (rule log e example_outcomes(2) | assumption)+
qed

section \<open>An API key works until it is revoked or expires\<close>

datatype key_event =
    Created string string gotime gotime CreateAPIKeyRequest
  | Revoked string
  | Used string gotime

fun key_step :: "key_env \<Rightarrow> key_store \<Rightarrow> key_event \<Rightarrow> key_store" where
  "key_step env keys (Created i secret now now2 req) = snd (CreateAPIKey env i secret now now2 req keys)"
| "key_step env keys (Revoked i) = snd (RevokeAPIKey i keys)"
| "key_step env keys (Used i t) = snd (UpdateLastUsed i t keys)"

text \<open>The specification: the live keys by ID, with their secret, the times of their creation and their request.\<close>

type_synonym live_keys = "string \<rightharpoonup> string \<times> gotime \<times> gotime \<times> CreateAPIKeyRequest"

fun live_step :: "live_keys \<Rightarrow> key_event \<Rightarrow> live_keys" where
  "live_step m (Created i secret now now2 req) = m(i \<mapsto> (secret, now, now2, req))"
| "live_step m (Revoked i) = m(i := None)"
| "live_step m (Used i t) = m"

definition created :: "key_event list \<Rightarrow> (string \<times> string) list" where
  "created evs = concat (map (\<lambda>e. case e of Created i secret now now2 req \<Rightarrow> [(i, secret)] | _ \<Rightarrow> []) evs)"

definition key_string :: "string \<times> string \<Rightarrow> string" where
  "key_string = (\<lambda>(i, secret). i @ '':'' @ secret)"

definition live_expiry :: "gotime \<Rightarrow> CreateAPIKeyRequest \<Rightarrow> gotime option" where
  "live_expiry now2 req = (if 0 < cr_TTL req then Some (now2 + cr_TTL req) else None)"

definition live_principal :: "gotime \<Rightarrow> gotime \<Rightarrow> CreateAPIKeyRequest \<Rightarrow> Principal" where
  "live_principal now now2 req =
     \<lparr>pr_ID = cr_PrincipalID req, pr_Type = (if cr_Type req = [] then ''service'' else cr_Type req),
      pr_TenantID = (if cr_TenantID req = [] then ''default'' else cr_TenantID req), pr_Roles = cr_Roles req,
      pr_Attrs = cr_Attrs req, pr_Method = ''apikey'', pr_IssuedAt = now, pr_ExpiresAt = live_expiry now2 req\<rparr>"

text \<open>A stored record describes a live key; the time of last use is free.\<close>

definition describes :: "key_env \<Rightarrow> APIKey \<Rightarrow> string \<Rightarrow> string \<times> gotime \<times> gotime \<times> CreateAPIKeyRequest \<Rightarrow> bool" where
  "describes env k i v \<longleftrightarrow>
     (case v of (secret, now, now2, req) \<Rightarrow>
        \<exists>used. k = \<lparr>ak_ID = i, ak_Name = cr_Name req, ak_HashedKey = ke_hash env (i @ '':'' @ secret),
          ak_PrincipalID = cr_PrincipalID req, ak_Type = cr_Type req, ak_TenantID = cr_TenantID req, ak_Roles = cr_Roles req,
          ak_Attrs = cr_Attrs req, ak_CreatedAt = now, ak_ExpiresAt = live_expiry now2 req, ak_LastUsedAt = used, ak_IsActive = True\<rparr>)"

definition refines :: "key_env \<Rightarrow> key_store \<Rightarrow> live_keys \<Rightarrow> bool" where
  "refines env keys m \<longleftrightarrow>
     wf_map keys \<and> (\<forall>h k. map_of keys h = Some k \<longrightarrow> h = ak_HashedKey k \<and> (\<exists>v. m (ak_ID k) = Some v \<and> describes env k (ak_ID k) v)) \<and>
     (\<forall>i v. m i = Some v \<longrightarrow> (\<exists>k. map_of keys (ke_hash env (i @ '':'' @ fst v)) = Some k \<and> describes env k i v))"

lemma describes_ID: "describes env k i v \<Longrightarrow> ak_ID k = i"
  by (auto simp: describes_def)

lemma describes_hash: "describes env k i v \<Longrightarrow> ak_HashedKey k = ke_hash env (i @ '':'' @ fst v)"
  by (auto simp: describes_def)

lemma describes_used: "describes env k i v \<Longrightarrow> describes env (k\<lparr>ak_LastUsedAt := t\<rparr>) i v"
  by (auto simp: describes_def)

lemma refines_stored:
  assumes "refines env keys m" and "map_of keys h = Some k"
  obtains v where "m (ak_ID k) = Some v" "describes env k (ak_ID k) v" "h = ke_hash env (ak_ID k @ '':'' @ fst v)"
  using assms describes_hash unfolding refines_def by metis

lemma refines_live:
  assumes "refines env keys m" and "m i = Some v"
  obtains k where "map_of keys (ke_hash env (i @ '':'' @ fst v)) = Some k" "describes env k i v"
  using assms unfolding refines_def by blast

lemma refines_wf: "refines env keys m \<Longrightarrow> wf_map keys"
  by (simp add: refines_def)

lemma refinesI:
  assumes "wf_map keys"
    and "\<And>h k. map_of keys h = Some k \<Longrightarrow> h = ak_HashedKey k \<and> (\<exists>v. m (ak_ID k) = Some v \<and> describes env k (ak_ID k) v)"
    and "\<And>i v. m i = Some v \<Longrightarrow> \<exists>k. map_of keys (ke_hash env (i @ '':'' @ fst v)) = Some k \<and> describes env k i v"
  shows "refines env keys m"
  using assms unfolding refines_def by blast

text \<open>The search by ID finds the one record of a live key.\<close>

lemma find_key:
  assumes "refines env keys m"
  shows "find (\<lambda>(h, k). ak_ID k = i) keys = None \<Longrightarrow> m i = None"
    and "find (\<lambda>(h, k). ak_ID k = i) keys = Some (h, k) \<Longrightarrow>
      map_of keys h = Some k \<and> ak_ID k = i \<and> (\<exists>v. m i = Some v \<and> describes env k i v \<and> h = ke_hash env (i @ '':'' @ fst v))"
proof -
  assume none: "find (\<lambda>(h, k). ak_ID k = i) keys = None"
  show "m i = None"
  proof (rule ccontr)
    assume "m i \<noteq> None"
    then obtain v where "m i = Some v" by blast
    then obtain k where k: "map_of keys (ke_hash env (i @ '':'' @ fst v)) = Some k" "describes env k i v"
      by (rule refines_live [OF assms])
    show False using none map_of_SomeD [OF k(1)] describes_ID [OF k(2)] by (auto simp: find_None_iff)
  qed
next
  assume "find (\<lambda>(h, k). ak_ID k = i) keys = Some (h, k)"
  then have "(h, k) \<in> set keys" "ak_ID k = i" by (auto simp: find_Some_iff in_set_conv_nth)
  then have "map_of keys h = Some k" "ak_ID k = i" using refines_wf [OF assms] by (simp_all add: map_of_in_set)
  then show "map_of keys h = Some k \<and> ak_ID k = i \<and> (\<exists>v. m i = Some v \<and> describes env k i v \<and> h = ke_hash env (i @ '':'' @ fst v))"
    using refines_stored [OF assms, of h k] by metis
qed

lemma refines_revoke:
  assumes "refines env keys m"
  shows "refines env (snd (RevokeAPIKey i keys)) (m(i := None))"
proof (cases "find (\<lambda>(h, k). ak_ID k = i) keys")
  case None
  then show ?thesis
    using find_key(1) [OF assms None] assms by (simp add: RevokeAPIKey_def DeleteAPIKey_def fun_upd_idem)
next
  case (Some hk)
  obtain h k where hk: "hk = (h, k)" by (cases hk)
  obtain v where k: "map_of keys h = Some k" "ak_ID k = i" "m i = Some v" "h = ke_hash env (i @ '':'' @ fst v)"
    using find_key(2) [OF assms Some [unfolded hk]] by blast
  have "refines env (map_delete h keys) (m(i := None))"
  proof (rule refinesI)
    fix h' k' assume "map_of (map_delete h keys) h' = Some k'"
    then have h': "h' \<noteq> h" "map_of keys h' = Some k'" by (simp_all split: if_splits)
    obtain w where w: "m (ak_ID k') = Some w" "describes env k' (ak_ID k') w" "h' = ke_hash env (ak_ID k' @ '':'' @ fst w)"
      by (rule refines_stored [OF assms h'(2)])
    have "ak_ID k' \<noteq> i" using w k h'(1) by auto
    then show "h' = ak_HashedKey k' \<and> (\<exists>v. (m(i := None)) (ak_ID k') = Some v \<and> describes env k' (ak_ID k') v)"
      using w describes_hash [OF w(2)] by simp
  next
    fix j w assume "(m(i := None)) j = Some w"
    then have j: "j \<noteq> i" "m j = Some w" by (simp_all split: if_splits)
    obtain k' where k': "map_of keys (ke_hash env (j @ '':'' @ fst w)) = Some k'" "describes env k' j w"
      by (rule refines_live [OF assms j(2)])
    have "ke_hash env (j @ '':'' @ fst w) \<noteq> h" using k(1,2) k'(1) j(1) describes_ID [OF k'(2)] by auto
    then show "\<exists>k. map_of (map_delete h keys) (ke_hash env (j @ '':'' @ fst w)) = Some k \<and> describes env k j w"
      using k' by simp
  qed (simp add: refines_wf [OF assms])
  then show ?thesis
    using Some hk by (simp add: RevokeAPIKey_def DeleteAPIKey_def)
qed

lemma refines_used:
  assumes "refines env keys m"
  shows "refines env (snd (UpdateLastUsed i t keys)) m"
proof (cases "find (\<lambda>(h, k). ak_ID k = i) keys")
  case None
  then show ?thesis using assms by (simp add: UpdateLastUsed_def)
next
  case (Some hk)
  obtain h k where hk: "hk = (h, k)" by (cases hk)
  obtain v where k: "map_of keys h = Some k" "ak_ID k = i" "m i = Some v" "describes env k i v" "h = ke_hash env (i @ '':'' @ fst v)"
    using find_key(2) [OF assms Some [unfolded hk]] by blast
  let ?k = "k\<lparr>ak_LastUsedAt := Some t\<rparr>"
  have d: "describes env ?k i v" by (rule describes_used [OF k(4)])
  have "refines env (map_put h ?k keys) m"
  proof (rule refinesI)
    fix h' k' assume h': "map_of (map_put h ?k keys) h' = Some k'"
    show "h' = ak_HashedKey k' \<and> (\<exists>v. m (ak_ID k') = Some v \<and> describes env k' (ak_ID k') v)"
    proof (cases "h' = h")
      case True
      then have k': "k' = ?k" using h' by simp
      show ?thesis unfolding k' True
        using d k(2,3) describes_hash [OF d] k(5) by (intro conjI exI [of _ v]) simp_all
    next
      case False
      then show ?thesis using h' assms by (simp add: refines_def)
    qed
  next
    fix j w assume "m j = Some w"
    then obtain k' where k': "map_of keys (ke_hash env (j @ '':'' @ fst w)) = Some k'" "describes env k' j w"
      by (rule refines_live [OF assms])
    show "\<exists>k. map_of (map_put h ?k keys) (ke_hash env (j @ '':'' @ fst w)) = Some k \<and> describes env k j w"
      using k(1) k' describes_used [OF k'(2), of "Some t"] by (cases "ke_hash env (j @ '':'' @ fst w) = h") simp_all
  qed (simp add: refines_wf [OF assms])
  then show ?thesis
    using Some hk by (simp add: UpdateLastUsed_def)
qed

text \<open>The ID ends at the first colon, so two different pairs have different key strings.\<close>

lemma key_string_inj:
  assumes "i @ '':'' @ a = j @ '':'' @ b" and "CHR '':'' \<notin> set i" and "CHR '':'' \<notin> set j"
  shows "i = j \<and> a = b"
proof -
  have "takeWhile (\<lambda>c. c \<noteq> CHR '':'') (i @ '':'' @ a) = i" "takeWhile (\<lambda>c. c \<noteq> CHR '':'') (j @ '':'' @ b) = j"
    using assms(2,3) by (subst takeWhile_append2; auto)+
  then show ?thesis using assms(1) by auto
qed

definition new_key :: "key_env \<Rightarrow> string \<Rightarrow> string \<Rightarrow> gotime \<Rightarrow> gotime \<Rightarrow> CreateAPIKeyRequest \<Rightarrow> APIKey" where
  "new_key env i secret now now2 req =
     \<lparr>ak_ID = i, ak_Name = cr_Name req, ak_HashedKey = ke_hash env (i @ '':'' @ secret), ak_PrincipalID = cr_PrincipalID req,
      ak_Type = cr_Type req, ak_TenantID = cr_TenantID req, ak_Roles = cr_Roles req, ak_Attrs = cr_Attrs req,
      ak_CreatedAt = now, ak_ExpiresAt = live_expiry now2 req, ak_LastUsedAt = None, ak_IsActive = True\<rparr>"

lemma new_key_describes: "describes env (new_key env i secret now now2 req) i (secret, now, now2, req)"
  by (simp add: describes_def new_key_def)

lemma CreateAPIKey_store:
  "snd (CreateAPIKey env i secret now now2 req keys) =
     map_put (ke_hash env (i @ '':'' @ secret)) (new_key env i secret now now2 req) keys"
  by (simp add: CreateAPIKey_def StoreAPIKey_def new_key_def live_expiry_def Let_def)

lemma refines_create:
  assumes ref: "refines env keys m" and new: "m i = None" and free: "map_of keys (ke_hash env (i @ '':'' @ secret)) = None"
  shows "refines env (snd (CreateAPIKey env i secret now now2 req keys)) (m(i \<mapsto> (secret, now, now2, req)))"
  unfolding CreateAPIKey_store
proof (rule refinesI)
  let ?h = "ke_hash env (i @ '':'' @ secret)" and ?k = "new_key env i secret now now2 req" and ?v = "(secret, now, now2, req)"
  show "wf_map (map_put ?h ?k keys)" by (simp add: refines_wf [OF ref])
  fix h' k' assume h': "map_of (map_put ?h ?k keys) h' = Some k'"
  show "h' = ak_HashedKey k' \<and> (\<exists>v. (m(i \<mapsto> ?v)) (ak_ID k') = Some v \<and> describes env k' (ak_ID k') v)"
  proof (cases "h' = ?h")
    case True
    then have "k' = ?k" using h' by simp
    then show ?thesis using True new_key_describes [of env i secret now now2 req] by (simp add: new_key_def)
  next
    case False
    then have k': "map_of keys h' = Some k'" using h' by simp
    obtain w where w: "m (ak_ID k') = Some w" "describes env k' (ak_ID k') w" "h' = ke_hash env (ak_ID k' @ '':'' @ fst w)"
      by (rule refines_stored [OF ref k'])
    then have "ak_ID k' \<noteq> i" using new by auto
    then show ?thesis using w describes_hash [OF w(2)] by simp
  qed
next
  fix j w assume j: "(m(i \<mapsto> (secret, now, now2, req))) j = Some w"
  show "\<exists>k. map_of (map_put (ke_hash env (i @ '':'' @ secret)) (new_key env i secret now now2 req) keys)
      (ke_hash env (j @ '':'' @ fst w)) = Some k \<and> describes env k j w"
  proof (cases "j = i")
    case True
    then show ?thesis using j new_key_describes by auto
  next
    case False
    then have "m j = Some w" using j by simp
    then obtain k where "map_of keys (ke_hash env (j @ '':'' @ fst w)) = Some k" "describes env k j w"
      by (rule refines_live [OF ref])
    then show ?thesis using free by (cases "ke_hash env (j @ '':'' @ fst w) = ke_hash env (i @ '':'' @ secret)") simp_all
  qed
qed

definition key_run :: "key_env \<Rightarrow> key_event list \<Rightarrow> key_store" where
  "key_run env evs = foldl (key_step env) [] evs"

definition live :: "key_event list \<Rightarrow> live_keys" where
  "live evs = foldl live_step Map.empty evs"

lemma run_snoc: "key_run env (evs @ [e]) = key_step env (key_run env evs) e" "live (evs @ [e]) = live_step (live evs) e"
  by (simp_all add: key_run_def live_def)

lemma live_created: "live evs i = Some v \<Longrightarrow> (i, fst v) \<in> set (created evs)"
proof (induction evs rule: rev_induct)
  case (snoc e evs)
  then show ?case by (cases e) (auto simp: live_def created_def split: if_splits)
qed (simp add: live_def)

text \<open>Key IDs are fresh hexadecimal strings, and the hash has no collision among the key strings in question.\<close>

definition fresh_ids :: "key_event list \<Rightarrow> bool" where
  "fresh_ids evs \<longleftrightarrow> distinct (map fst (created evs)) \<and> list_all (\<lambda>(i, secret). CHR '':'' \<notin> set i) (created evs)"

definition no_collision :: "key_env \<Rightarrow> string list \<Rightarrow> bool" where
  "no_collision env ks \<longleftrightarrow> inj_on (ke_hash env) (set ks)"

lemma fresh_colon: "fresh_ids evs \<Longrightarrow> (i, secret) \<in> set (created evs) \<Longrightarrow> CHR '':'' \<notin> set i"
  by (auto simp: fresh_ids_def list_all_iff)

lemma key_string_mem: "(i, secret) \<in> set xs \<Longrightarrow> i @ '':'' @ secret \<in> set (map key_string xs)"
  using image_eqI [of _ key_string "(i, secret)"] by (simp add: key_string_def)

lemma key_run_refines:
  assumes "fresh_ids evs" and "no_collision env (map key_string (created evs))"
  shows "refines env (key_run env evs) (live evs)"
  using assms
proof (induction evs rule: rev_induct)
  case Nil
  then show ?case by (simp add: refines_def key_run_def live_def)
next
  case (snoc e evs)
  have IH: "refines env (key_run env evs) (live evs)"
    using snoc by (auto simp: fresh_ids_def no_collision_def created_def intro: inj_on_subset)
  show ?case
  proof (cases e)
    case (Created i secret now now2 req)
    have cr: "created (evs @ [e]) = created evs @ [(i, secret)]" by (simp add: created_def Created)
    have new: "live evs i = None"
      using live_created [of evs i] snoc.prems(1) cr by (cases "live evs i") (force simp: fresh_ids_def)+
    have "map_of (key_run env evs) (ke_hash env (i @ '':'' @ secret)) = None"
    proof (rule ccontr)
      assume "\<not> ?thesis"
      then obtain k where "map_of (key_run env evs) (ke_hash env (i @ '':'' @ secret)) = Some k" by blast
      then obtain v where v: "live evs (ak_ID k) = Some v" "ke_hash env (i @ '':'' @ secret) = ke_hash env (ak_ID k @ '':'' @ fst v)"
        by (rule refines_stored [OF IH])
      have mem: "(ak_ID k, fst v) \<in> set (created evs)" by (rule live_created [OF v(1)])
      have "i @ '':'' @ secret = ak_ID k @ '':'' @ fst v"
        by (rule inj_onD [OF snoc.prems(2) [unfolded no_collision_def] v(2)])
          (rule key_string_mem, simp add: cr mem)+
      then have "i = ak_ID k"
        using key_string_inj [OF _ fresh_colon [OF snoc.prems(1), of i secret] fresh_colon [OF snoc.prems(1), of "ak_ID k" "fst v"]]
        by (simp only: cr set_append list.set Un_iff insert_iff mem simp_thms)
      then show False using new v(1) by simp
    qed
    then show ?thesis
      unfolding run_snoc Created key_step.simps live_step.simps by (rule refines_create [OF IH new])
  next
    case (Revoked i)
    show ?thesis unfolding run_snoc Revoked key_step.simps live_step.simps by (rule refines_revoke [OF IH])
  next
    case (Used i t)
    show ?thesis unfolding run_snoc Used key_step.simps live_step.simps by (rule refines_used [OF IH])
  qed
qed

text \<open>What the authenticator answers for a record that describes a live key.\<close>

lemma Authenticate_described:
  assumes "HasPrefix token ''ak_''" and "ke_decode env (drop 3 token) = Inr d"
    and "map_of keys (ke_hash env d) = Some k" and "ke_hash env d = ke_hash env (i @ '':'' @ secret)"
    and "describes env k i (secret, t1, t2, req)"
  shows "apikey_Authenticate env now token keys =
    (if (case live_expiry t2 req of None \<Rightarrow> False | Some t \<Rightarrow> t < now) then Inl ''API key expired'' else Inr (live_principal t1 t2 req))"
  using assms by (auto simp: apikey_Authenticate_def GetAPIKey_def describes_def live_principal_def Let_def)

lemma Authenticate_absent:
  assumes "HasPrefix token ''ak_''" and "ke_decode env (drop 3 token) = Inr d" and "map_of keys (ke_hash env d) = None"
  shows "apikey_Authenticate env now token keys = Inl ''API key not found: API key not found''"
  using assms by (simp add: apikey_Authenticate_def GetAPIKey_def Let_def)

text \<open>The specification of a lookup: the live key whose key string is \<open>d\<close>, unless it has expired.\<close>

definition key_valid :: "live_keys \<Rightarrow> gotime \<Rightarrow> string \<Rightarrow> Principal \<Rightarrow> bool" where
  "key_valid m now d prin \<longleftrightarrow>
     (\<exists>i secret t1 t2 req. m i = Some (secret, t1, t2, req) \<and> d = i @ '':'' @ secret \<and>
        (case live_expiry t2 req of None \<Rightarrow> True | Some t \<Rightarrow> now \<le> t) \<and> prin = live_principal t1 t2 req)"

text \<open>
  C14. After any sequence of creations, revocations and uses of API keys, a well-formed token authenticates exactly when it
  carries the ID and secret of a key that was created, has not been revoked since and has not expired, and the
  principal is then the one the key was created for. The key IDs are fresh, and the hash has no collision among the
  created keys and the presented one.\<close>

theorem apikey_lifecycle:
  assumes "fresh_ids evs" and "no_collision env (d # map key_string (created evs))"
    and "HasPrefix token ''ak_''" and "ke_decode env (drop 3 token) = Inr d"
  shows "apikey_Authenticate env now token (key_run env evs) = Inr prin \<longleftrightarrow> key_valid (live evs) now d prin"
proof -
  have inj: "inj_on (ke_hash env) (set (d # map key_string (created evs)))"
    using assms(2) by (simp only: no_collision_def)
  have "no_collision env (map key_string (created evs))"
    unfolding no_collision_def by (rule inj_on_subset [OF inj]) auto
  note ref = key_run_refines [OF assms(1) this]
  show ?thesis
  proof (cases "map_of (key_run env evs) (ke_hash env d)")
    case None
    have "\<not> key_valid (live evs) now d prin"
    proof
      assume "key_valid (live evs) now d prin"
      then obtain i v where "live evs i = Some v" "d = i @ '':'' @ fst v" unfolding key_valid_def by fastforce
      then show False using refines_live [OF ref, of i v] None by auto
    qed
    then show ?thesis using Authenticate_absent [OF assms(3,4) None] by simp
  next
    case (Some k)
    obtain v where v: "live evs (ak_ID k) = Some v" "describes env k (ak_ID k) v" "ke_hash env d = ke_hash env (ak_ID k @ '':'' @ fst v)"
      by (rule refines_stored [OF ref Some])
    obtain secret t1 t2 req where v4: "v = (secret, t1, t2, req)" by (cases v)
    note mem = live_created [OF v(1)]
    have d: "d = ak_ID k @ '':'' @ secret"
      using inj_onD [OF inj v(3)] key_string_mem [OF mem] v4 by simp
    have unique: "live evs j = Some w \<Longrightarrow> d = j @ '':'' @ fst w \<Longrightarrow> j = ak_ID k" for j w
      using key_string_inj [OF _ fresh_colon [OF assms(1) live_created] fresh_colon [OF assms(1) mem]] d v4 by (metis fst_conv)
    have "key_valid (live evs) now d prin \<longleftrightarrow>
        (case live_expiry t2 req of None \<Rightarrow> True | Some t \<Rightarrow> now \<le> t) \<and> prin = live_principal t1 t2 req"
      unfolding key_valid_def using unique v(1) v4 d by (metis fst_conv option.inject prod.inject)
    then show ?thesis
      using Authenticate_described [OF assms(3,4) Some] v(2,3) v4 by (auto split: option.splits)
  qed
qed

definition example_keys :: key_env where
  "example_keys = \<lparr>ke_hash = (\<lambda>x. x), ke_encode = rev, ke_decode = (\<lambda>x. Inr (rev x))\<rparr>"

definition example_req :: "duration \<Rightarrow> CreateAPIKeyRequest" where
  "example_req ttl =
     \<lparr>cr_Name = ''ci'', cr_PrincipalID = ''bot'', cr_Type = [], cr_TenantID = ''t1'', cr_Roles = [''viewer''], cr_Attrs = [], cr_TTL = ttl\<rparr>"

definition example_key_events :: "key_event list" where
  "example_key_events = [Created ''a1'' ''s'' 1 1 (example_req 4), Used ''a1'' 2, Created ''b2'' ''t'' 3 3 (example_req 0), Revoked ''b2'']"

lemma example_keys_fresh: "fresh_ids example_key_events"
  by code_simp

lemma example_keys_apart: "no_collision example_keys ks"
  by (simp add: no_collision_def example_keys_def)

lemma example_keys_decode: "ke_decode example_keys x = Inr (rev x)"
  by (simp add: example_keys_def)

theorem apikey_lifecycle_witness:
  "key_valid (live example_key_events) 5 ''a1:s'' (live_principal 1 1 (example_req 4)) \<and>
   \<not> key_valid (live example_key_events) 6 ''a1:s'' (live_principal 1 1 (example_req 4)) \<and>
   \<not> key_valid (live example_key_events) 5 ''b2:t'' (live_principal 3 3 (example_req 0))"
proof -
  have pre: "HasPrefix ''ak_s:1a'' ''ak_''" "HasPrefix ''ak_t:2b'' ''ak_''"
    by code_simp+
  have dec: "ke_decode example_keys (drop 3 ''ak_s:1a'') = Inr ''a1:s''" "ke_decode example_keys (drop 3 ''ak_t:2b'') = Inr ''b2:t''"
    by (simp_all add: example_keys_decode)
  have run: "apikey_Authenticate example_keys 5 ''ak_s:1a'' (key_run example_keys example_key_events) = Inr (live_principal 1 1 (example_req 4))"
    "apikey_Authenticate example_keys 6 ''ak_s:1a'' (key_run example_keys example_key_events) = Inl ''API key expired''"
    "apikey_Authenticate example_keys 5 ''ak_t:2b'' (key_run example_keys example_key_events) = Inl ''API key not found: API key not found''"
    by code_simp+
  show ?thesis
    using apikey_lifecycle [OF example_keys_fresh example_keys_apart pre(1) dec(1), of 5 "live_principal 1 1 (example_req 4)"]
      apikey_lifecycle [OF example_keys_fresh example_keys_apart pre(1) dec(1), of 6]
      apikey_lifecycle [OF example_keys_fresh example_keys_apart pre(2) dec(2), of 5] run
    by simp
qed

end
