(* ===== verification/Spec2Isabelle.thy ===== *)
theory Spec2Isabelle
  imports Stateless_Tracker Cluster_Sync Scylla_State Scylla_Batcher Adder_Single Auth_Service
begin

text \<open>
  IPFS Cluster with a ScyllaDB state store: a verification library for the Go sources under
  \<open>src/\<close>.

  \<^bold>\<open>The program.\<close> An IPFS Cluster is a set of peers that agree on a shared set of pins. A client request
  reaches \<open>cluster.go\<close>, which completes the pin (\<open>setupPin\<close>), chooses the peers that hold it
  (\<open>allocate.go\<close>, \<open>allocator/balanced\<close>) from the metrics the peers publish
  (\<open>monitor/metrics\<close>, \<open>monitor/pubsubmon\<close>) and hands it to the consensus component
  (\<open>consensus/raft\<close>, \<open>consensus/crdt\<close>), which stores it in the state (\<open>state/dsstate\<close>,
  \<open>state/scyllastate\<close>) and calls the pin tracker (\<open>pintracker/stateless\<close>,
  \<open>pintracker/optracker\<close>) of every peer. Uploads go through \<open>adder\<close>, which streams blocks to peers and
  then pins them. The package \<open>auth\<close> decides who may make a request.

  \<^bold>\<open>Conventions.\<close> A struct is a record whose fields carry a short prefix, an enumerated type a datatype. Go
  maps are association lists with the operations of \<open>Prelude\<close>; where a result could depend on the order in
  which Go visits a map, the order is that of the list. Times and durations are integers of nanoseconds,
  CIDs, peer identifiers and byte slices are strings. Errors are values of a sum or an option; a panic or a
  call that never returns is \<^term>\<open>None\<close>. Conversions between integer types wrap as in Go. A clock
  reading and a random value are arguments. Code outside \<open>src/\<close> is a parameter, and what is relied on is a
  hypothesis that its witness instantiates.

  \<^bold>\<open>Theories.\<close>
  \<^item> \<open>Prelude\<close>: Go's types and the parts of its standard library the sources use. \<open>Go_Float\<close>: \<open>float64\<close>.
  \<^item> \<open>Api_Status\<close>, \<open>Api_Types\<close>: the types of \<open>api/types.go\<close>; status sets, comparison of pins, and the round
    trip of pins through their protobuf form.
  \<^item> \<open>Operation_Tracker\<close>, \<open>Stateless_Tracker\<close>: the operations in flight on a peer, with at most one per CID, and
    the queues and workers around them as a step relation. Under every interleaving no tracked operation is lost,
    and the limits of the queues hold.
  \<^item> \<open>Allocation\<close>, \<open>Balanced_Allocator\<close>, \<open>Metrics_Store\<close>, \<open>Monitor_Alerts\<close>: which peers hold a pin. The locales
    \<open>pin_allocator\<close> and \<open>peer_monitor\<close> are the interfaces, interpreted by the balanced allocator and the
    monitor; the ring buffer of a window refines the log of its metrics (\<open>bounded_log\<close>).
  \<^item> \<open>State_Interface\<close>, \<open>Ds_State\<close>: the shared state, as the locales \<open>pin_state\<close> and \<open>batching_state\<close>, and the
    state in a datastore, which refines a map from CIDs to pins.
  \<^item> \<open>Raft_Consensus\<close>, \<open>Crdt_Consensus\<close>: the replicated log and its application, commits with retries, and the
    two goroutines that batch CRDT updates as a step relation: order, responsiveness, and a deadlock after
    a failed commit.
  \<^item> \<open>Cluster_Util\<close>, \<open>Cluster_Pin\<close>, \<open>Cluster_Sync\<close>: requests and periodic work of a cluster peer over the locale
    \<open>consensus_log\<close>: pinning, unpinning, expiry, repinning, alerts, and that exactly one peer acts on a CID.
  \<^item> \<open>Scylla_Retry\<close>, \<open>Scylla_Degradation\<close>, \<open>Scylla_State\<close>: the ScyllaDB state with its retry policy, circuit breakers
    and consistency fallback. The retry loop ends, and the state refines a map however often a query is repeated.
  \<^item> \<open>Scylla_Cas\<close>, \<open>Scylla_Batcher\<close>: the second implementation, with conditional writes, and its batcher.
  \<^item> \<open>Adder_Blocks\<close>, \<open>Adder_Sharding\<close>, \<open>Adder_Single\<close>: the DAG services of the adder. The environment answers a
    call from the history of calls, and a theorem on a session speaks about the history it leaves. The locale
    \<open>cluster_dag_service\<close> is what the CAR adder relies on.
  \<^item> \<open>Auth_Rbac\<close>, \<open>Auth_Abac\<close>, \<open>Auth_Service\<close>: decisions by roles and by policies, tenant separation, the
    authentication service with its audit events, and API keys. The locale \<open>authorizer_contract\<close> is what the
    tenant wrapper relies on; both engines interpret it. The store of API keys refines a map of live keys.

  \<^bold>\<open>Bounds.\<close> No definition uses fuel. Loops over data are structural; the search through inherited roles ends because
    the set of visited roles grows, and the retry loops because the number of retries is finite. Counters
    that only count elements of a list in memory are natural numbers.

  \<^bold>\<open>Interleavings.\<close> The trackers and the CRDT batcher have a step relation over the actions of their goroutines. Elsewhere
    a method is one step, and interleavings inside concurrent calls are not considered; the update of the time of
    last use of an API key, which the source starts in a goroutine, is a step of its own.

  \<^bold>\<open>Not modelled.\<close>
  \<^item> HTTP and RPC front ends, clients, the IPFS connector, the command line programs, tracing, metrics exporters and
    logging: input and output around libraries.
  \<^item> The Raft library wrapper, the Merkle-CRDT, key-value stores, libp2p, UnixFS chunking and the database driver are
    third-party code, which enters as parameters where modelled code calls it.
  \<^item> JSON configuration and command line migration tools of ScyllaDB, and its stream export (\<open>Marshal\<close>, \<open>Migrate\<close>).
  \<^item> JWT, OIDC, DID and Web3 authenticators, which check signatures with cryptographic libraries, and the audit sinks.
    The set-up of the service, \<open>NewAuthService\<close>, builds these and then calls \<open>initializeAuthorizer\<close>, which is
    modelled. \<open>strconv.ParseFloat\<close> in the comparison
    of attributes is an argument of the model, and the theorems hold for every such function.
  \<^item> Informers, which read statistics over RPC, and billing.
\<close>

end
